(* ===== verification/Relay_Prelude.thy ===== *)
theory Relay_Prelude
  imports Main "HOL-Library.Word" "HOL-Library.List_Lexorder" "HOL-Library.Char_ord"
    "HOL-Library.Multiset"
begin

text \<open>
  Shared vocabulary of the development: the type synonyms the components use for Go's
  built-in types, Go's signed 64-bit wrap-around, Go's stable slice sort, and the lemma
  collections the component theories extend.

  A Go \<open>string\<close> and a Go \<open>[]byte\<close> are both sequences of bytes and become \<open>string\<close>
  (a list of 8-bit characters), so the conversion \<open>[]byte(s)\<close> is the identity. A Go pointer
  to a value that is never shared is an \<open>option\<close> (\<open>nil\<close> is \<open>None\<close>).
\<close>

type_synonym bytes = string
type_synonym u64 = "64 word"

named_theorems relay_defs "definitions of one-step operations, unfolded by the component proofs"
named_theorems relay_inv "preservation facts: an operation keeps an invariant"

section \<open>Signed 64-bit arithmetic\<close>

definition max_i64 :: int where
  "max_i64 = 9223372036854775807"

definition min_i64 :: int where
  "min_i64 = - 9223372036854775808"

text \<open>The value of an \<open>int64\<close> expression whose mathematical result is \<open>x\<close>.\<close>

definition wrap_i64 :: "int \<Rightarrow> int" where
  "wrap_i64 x = (x + 9223372036854775808) mod 18446744073709551616 - 9223372036854775808"

definition in_i64 :: "int \<Rightarrow> bool" where
  "in_i64 x \<longleftrightarrow> min_i64 \<le> x \<and> x \<le> max_i64"

definition clamp_i64 :: "int \<Rightarrow> int" where
  "clamp_i64 x = (if x < min_i64 then min_i64 else if max_i64 < x then max_i64 else x)"

lemma wrap_i64_id [simp]: "in_i64 x \<Longrightarrow> wrap_i64 x = x"
  by (simp add: wrap_i64_def in_i64_def min_i64_def max_i64_def)

lemma wrap_i64_in [simp]: "in_i64 (wrap_i64 x)"
proof -
  have "0 \<le> (x + 9223372036854775808) mod 18446744073709551616"
    and "(x + 9223372036854775808) mod 18446744073709551616 < 18446744073709551616"
    by simp_all
  then show ?thesis
    unfolding in_i64_def wrap_i64_def min_i64_def max_i64_def by linarith
qed

lemma wrap_i64_max_Suc: "wrap_i64 (max_i64 + 1) = min_i64"
  by (simp add: wrap_i64_def min_i64_def max_i64_def)

lemma clamp_i64_id [simp]: "in_i64 x \<Longrightarrow> clamp_i64 x = x"
  by (simp add: clamp_i64_def in_i64_def)

lemma clamp_i64_in [simp]: "in_i64 (clamp_i64 x)"
  by (simp add: clamp_i64_def in_i64_def min_i64_def max_i64_def)

lemma clamp_i64_nonneg [simp]: "0 \<le> x \<Longrightarrow> 0 \<le> clamp_i64 x"
  by (simp add: clamp_i64_def min_i64_def max_i64_def)

section \<open>Stable slice sort\<close>

text \<open>
  \<open>sort.SliceStable(xs, lt)\<close>. For a comparison that orders its elements by a key the
  stable result is unique; insertion from the right keeps equal elements in their order.
\<close>

fun insert_stable :: "('a \<Rightarrow> 'a \<Rightarrow> bool) \<Rightarrow> 'a \<Rightarrow> 'a list \<Rightarrow> 'a list" where
  "insert_stable lt x [] = [x]"
| "insert_stable lt x (y # ys) =
     (if lt y x then y # insert_stable lt x ys else x # y # ys)"

definition slice_stable :: "('a \<Rightarrow> 'a \<Rightarrow> bool) \<Rightarrow> 'a list \<Rightarrow> 'a list" where
  "slice_stable lt xs = foldr (insert_stable lt) xs []"

lemma mset_insert_stable [simp]: "mset (insert_stable lt x xs) = add_mset x (mset xs)"
  by (induction xs) auto

lemma mset_slice_stable [simp]: "mset (slice_stable lt xs) = mset xs"
  by (induction xs) (auto simp: slice_stable_def)

lemma set_slice_stable [simp]: "set (slice_stable lt xs) = set xs"
  by (metis mset_slice_stable set_mset_mset)

lemma length_slice_stable [simp]: "length (slice_stable lt xs) = length xs"
  by (metis mset_slice_stable size_mset)

lemma distinct_slice_stable [simp]: "distinct (slice_stable lt xs) = distinct xs"
  by (metis mset_slice_stable mset_eq_imp_distinct_iff)

lemma distinct_map_mset: "mset xs = mset ys \<Longrightarrow> distinct (map f xs) = distinct (map f ys)"
  by (metis mset_map mset_eq_imp_distinct_iff)

lemma insert_stable_insort_key:
  assumes "\<And>y. y \<in> set ys \<Longrightarrow> lt y x \<longleftrightarrow> key y < key x"
  shows "insert_stable lt x ys = insort_key key x ys"
  using assms by (induction ys) (auto simp: not_le)

lemma slice_stable_sort_key:
  assumes "\<And>x y. x \<in> set xs \<Longrightarrow> y \<in> set xs \<Longrightarrow> lt x y \<longleftrightarrow> key x < key y"
  shows "slice_stable lt xs = sort_key key xs"
  using assms
proof (induction xs)
  case Nil
  show ?case by (simp add: slice_stable_def)
next
  case (Cons x xs)
  then have "slice_stable lt xs = sort_key key xs" by simp
  moreover have "insert_stable lt x (sort_key key xs) = insort_key key x (sort_key key xs)"
    by (rule insert_stable_insort_key) (simp add: Cons.prems)
  ultimately show ?case by (simp add: slice_stable_def)
qed

lemma sorted_slice_stable:
  assumes "\<And>x y. x \<in> set xs \<Longrightarrow> y \<in> set xs \<Longrightarrow> lt x y \<longleftrightarrow> key x < (key y :: 'k :: linorder)"
  shows "sorted (map key (slice_stable lt xs))"
  by (simp add: slice_stable_sort_key [OF assms])

section \<open>Lists and association lists\<close>

lemma sorted_split_le:
  assumes "sorted (map key xs)" and "x \<in> set (take n xs)" and "y \<in> set (drop n xs)"
  shows "key x \<le> (key y :: 'k :: linorder)"
proof -
  have "sorted (map key (take n xs) @ map key (drop n xs))"
    using assms(1) by (simp flip: map_append)
  with assms(2,3) show ?thesis
    by (auto simp: sorted_append)
qed

lemma filter_partition_mset:
  "mset (filter P xs) + mset (filter (\<lambda>x. \<not> P x) xs) = mset xs"
  by (induction xs) auto

lemma set_take_drop: "set (take n xs) \<union> set (drop n xs) = set xs"
  by (metis append_take_drop_id set_append)

lemma distinct_take_drop_disjoint:
  assumes "distinct (map f xs)"
  shows "f ` set (take n xs) \<inter> f ` set (drop n xs) = {}"
proof -
  have "distinct (map f (take n xs) @ map f (drop n xs))"
    using assms by (simp flip: map_append)
  then show ?thesis by auto
qed

lemma sum_list_map_filter_le:
  "(\<And>x. x \<in> set xs \<Longrightarrow> (0::int) \<le> f x) \<Longrightarrow>
    sum_list (map f (filter P xs)) \<le> sum_list (map f xs)"
  by (induction xs) (auto intro: add_increasing)

lemma sum_list_nonneg_map: "(\<And>x. x \<in> set xs \<Longrightarrow> (0::int) \<le> f x) \<Longrightarrow> 0 \<le> sum_list (map f xs)"
  by (induction xs) (auto intro: add_nonneg_nonneg)

end
