(* ===== verification/Go_Text.thy ===== *)
theory Go_Text
  imports Relay_Prelude
begin

text \<open>
  The functions of Go's \<open>strings\<close> and \<open>strconv\<close> packages that the program calls, on byte
  strings. Case mapping and white space are those of ASCII: the strings the program folds and
  trims (header names and tokens, content codings, URL schemes) are ASCII in valid traffic.
\<close>

section \<open>Case, white space, splitting\<close>

definition code_of :: "char \<Rightarrow> nat" where
  "code_of c = of_char c"

definition is_upper :: "char \<Rightarrow> bool" where
  "is_upper c \<longleftrightarrow> 65 \<le> code_of c \<and> code_of c \<le> 90"

definition is_lower :: "char \<Rightarrow> bool" where
  "is_lower c \<longleftrightarrow> 97 \<le> code_of c \<and> code_of c \<le> 122"

definition is_digit :: "char \<Rightarrow> bool" where
  "is_digit c \<longleftrightarrow> 48 \<le> code_of c \<and> code_of c \<le> 57"

definition lower_char :: "char \<Rightarrow> char" where
  "lower_char c = (if is_upper c then char_of (code_of c + 32) else c)"

definition upper_char :: "char \<Rightarrow> char" where
  "upper_char c = (if is_lower c then char_of (code_of c - 32) else c)"

definition to_lower :: "string \<Rightarrow> string" where
  "to_lower s = map lower_char s"

definition equal_fold :: "string \<Rightarrow> string \<Rightarrow> bool" where
  "equal_fold s t \<longleftrightarrow> to_lower s = to_lower t"

definition is_space :: "char \<Rightarrow> bool" where
  "is_space c \<longleftrightarrow> code_of c = 32 \<or> 9 \<le> code_of c \<and> code_of c \<le> 13"

definition trim_space :: "string \<Rightarrow> string" where
  "trim_space s = rev (dropWhile is_space (rev (dropWhile is_space s)))"

text \<open>Bytes outside ASCII, and the ones that are not ASCII control characters.\<close>

definition high_byte :: "char \<Rightarrow> bool" where
  "high_byte c \<longleftrightarrow> 128 \<le> code_of c"

definition no_control :: "char \<Rightarrow> bool" where
  "no_control c \<longleftrightarrow> 32 \<le> code_of c \<and> code_of c \<noteq> 127"

text \<open>The same predicates on the bits of a byte, for evaluation.\<close>

lemma code_of_bits: "code_of (Char b0 b1 b2 b3 b4 b5 b6 b7) =
    of_bool b0 + 2 * (of_bool b1 + 2 * (of_bool b2 + 2 * (of_bool b3 + 2 * (of_bool b4 + 2 * (of_bool b5 + 2 * (of_bool b6 + 2 * of_bool b7))))))"
  by (simp add: code_of_def of_char_def)

lemma char_class_code [code]:
  "is_upper (Char b0 b1 b2 b3 b4 b5 b6 b7) =
     (if b7 then False else if b6 then (if b5 then False else if b4 then (if b3 then (if b2 then False else if b1 then \<not> b0 else True) else True)
        else (if b3 then True else if b2 then True else if b1 then True else b0)) else False)"
  "is_lower (Char b0 b1 b2 b3 b4 b5 b6 b7) =
     (if b7 then False else if b6 then (if b5 then (if b4 then (if b3 then (if b2 then False else if b1 then \<not> b0 else True) else True)
        else (if b3 then True else if b2 then True else if b1 then True else b0)) else False) else False)"
  "is_digit (Char b0 b1 b2 b3 b4 b5 b6 b7) =
     (if b7 then False else if b6 then False else if b5 then (if b4 then (if b3 then (if b2 then False else \<not> b1) else True) else False) else False)"
  by (cases b0; cases b1; cases b2; cases b3; cases b4; cases b5; cases b6; cases b7;
      simp add: is_upper_def is_lower_def is_digit_def code_of_bits)+

lemma byte_class_code [code]:
  "high_byte (Char b0 b1 b2 b3 b4 b5 b6 b7) = b7"
  "no_control (Char b0 b1 b2 b3 b4 b5 b6 b7) =
     (if b7 then True else if b6 then \<not> (b5 \<and> b4 \<and> b3 \<and> b2 \<and> b1 \<and> b0) else b5)"
proof -
  show "high_byte (Char b0 b1 b2 b3 b4 b5 b6 b7) = b7"
    by (cases b7) (simp_all add: high_byte_def code_of_bits of_bool_def)
  have del: "code_of c = 127 \<longleftrightarrow> c = CHR 0x7F" for c
  proof -
    have "code_of (CHR 0x7F) = 127" by (simp add: code_of_def)
    then show ?thesis unfolding code_of_def by (metis of_char_eq_iff)
  qed
  have "32 \<le> code_of (Char b0 b1 b2 b3 b4 b5 b6 b7) \<longleftrightarrow> b5 \<or> b6 \<or> b7"
  proof -
    define low :: nat where "low = of_bool b0 + 2 * (of_bool b1 + 2 * (of_bool b2 + 2 * (of_bool b3 + 2 * of_bool b4)))"
    define high :: nat where "high = of_bool b5 + 2 * (of_bool b6 + 2 * of_bool b7)"
    have c: "code_of (Char b0 b1 b2 b3 b4 b5 b6 b7) = low + 32 * high"
      unfolding code_of_bits low_def high_def by simp
    have l: "low < 32" unfolding low_def
      by (cases b0; cases b1; cases b2; cases b3; cases b4; simp)
    have h: "high = 0 \<longleftrightarrow> \<not> (b5 \<or> b6 \<or> b7)" unfolding high_def by simp
    show ?thesis
    proof (cases "high = 0")
      case True with c l h show ?thesis by simp
    next
      case False then have "1 \<le> high" by simp
      with c have "32 \<le> code_of (Char b0 b1 b2 b3 b4 b5 b6 b7)" by linarith
      with False h show ?thesis by simp
    qed
  qed
  then show "no_control (Char b0 b1 b2 b3 b4 b5 b6 b7) =
     (if b7 then True else if b6 then \<not> (b5 \<and> b4 \<and> b3 \<and> b2 \<and> b1 \<and> b0) else b5)"
    unfolding no_control_def del by auto
qed

lemma case_char_code [code]:
  "lower_char (Char b0 b1 b2 b3 b4 b5 b6 b7) =
     (if is_upper (Char b0 b1 b2 b3 b4 b5 b6 b7) then Char b0 b1 b2 b3 b4 True b6 b7 else Char b0 b1 b2 b3 b4 b5 b6 b7)"
  "upper_char (Char b0 b1 b2 b3 b4 b5 b6 b7) =
     (if is_lower (Char b0 b1 b2 b3 b4 b5 b6 b7) then Char b0 b1 b2 b3 b4 False b6 b7 else Char b0 b1 b2 b3 b4 b5 b6 b7)"
proof -
  have bit5: "code_of (Char b0 b1 b2 b3 b4 True b6 b7) = code_of (Char b0 b1 b2 b3 b4 False b6 b7) + 32"
    by (simp add: code_of_bits)
  have rebuild: "char_of (code_of c) = c" for c by (simp add: code_of_def)
  have "is_upper (Char b0 b1 b2 b3 b4 b5 b6 b7) \<longrightarrow> \<not> b5"
    by (simp add: char_class_code)
  then show "lower_char (Char b0 b1 b2 b3 b4 b5 b6 b7) =
     (if is_upper (Char b0 b1 b2 b3 b4 b5 b6 b7) then Char b0 b1 b2 b3 b4 True b6 b7 else Char b0 b1 b2 b3 b4 b5 b6 b7)"
    using rebuild [of "Char b0 b1 b2 b3 b4 True b6 b7"] by (cases b5) (simp_all add: lower_char_def bit5)
  have "is_lower (Char b0 b1 b2 b3 b4 b5 b6 b7) \<longrightarrow> b5"
    by (simp add: char_class_code)
  then show "upper_char (Char b0 b1 b2 b3 b4 b5 b6 b7) =
     (if is_lower (Char b0 b1 b2 b3 b4 b5 b6 b7) then Char b0 b1 b2 b3 b4 False b6 b7 else Char b0 b1 b2 b3 b4 b5 b6 b7)"
    using rebuild [of "Char b0 b1 b2 b3 b4 False b6 b7"] by (cases b5) (simp_all add: upper_char_def bit5)
qed

text \<open>\<open>strings.Split(s, sep)\<close> for a one-byte separator: always at least one part.\<close>

fun split_on :: "char \<Rightarrow> string \<Rightarrow> string list" where
  "split_on sep [] = [[]]"
| "split_on sep (c # cs) =
     (if c = sep then [] # split_on sep cs
      else (case split_on sep cs of [] \<Rightarrow> [[c]] | p # ps \<Rightarrow> (c # p) # ps))"

text \<open>\<open>strings.SplitN(s, sep, 2)\<close>: the text before and after the first separator, if any.\<close>

fun cut_on :: "char \<Rightarrow> string \<Rightarrow> (string \<times> string) option" where
  "cut_on sep [] = None"
| "cut_on sep (c # cs) =
     (if c = sep then Some ([], cs)
      else (case cut_on sep cs of None \<Rightarrow> None | Some (a, b) \<Rightarrow> Some (c # a, b)))"

fun has_prefix :: "string \<Rightarrow> string \<Rightarrow> bool" where
  "has_prefix [] s = True"
| "has_prefix (p # ps) [] = False"
| "has_prefix (p # ps) (c # cs) = (p = c \<and> has_prefix ps cs)"

definition has_suffix :: "string \<Rightarrow> string \<Rightarrow> bool" where
  "has_suffix p s = has_prefix (rev p) (rev s)"

definition trim_prefix :: "string \<Rightarrow> string \<Rightarrow> string" where
  "trim_prefix p s = (if has_prefix p s then drop (length p) s else s)"

text \<open>\<open>strings.Contains(s, p)\<close>.\<close>

fun contains_str :: "string \<Rightarrow> string \<Rightarrow> bool" where
  "contains_str p [] = (p = [])"
| "contains_str p (c # cs) = (has_prefix p (c # cs) \<or> contains_str p cs)"

lemma split_on_nonempty [simp]: "split_on sep s \<noteq> []"
  by (induction s) (auto split: list.splits)

lemma has_prefix_append: "has_prefix p s \<longleftrightarrow> (\<exists>t. s = p @ t)"
  by (induction p s rule: has_prefix.induct) auto

lemma has_suffix_append: "has_suffix p s \<longleftrightarrow> (\<exists>t. s = t @ p)"
proof -
  have "(\<exists>t. rev s = rev p @ t) \<longleftrightarrow> (\<exists>t. s = t @ p)"
    by (metis rev_append rev_rev_ident)
  then show ?thesis by (simp add: has_suffix_def has_prefix_append)
qed

lemma trim_prefix_append [simp]: "trim_prefix p (p @ s) = s"
  by (simp add: trim_prefix_def has_prefix_append)

lemma cut_on_Some: "cut_on sep s = Some (a, b) \<Longrightarrow> s = a @ sep # b \<and> sep \<notin> set a"
proof (induction s arbitrary: a)
  case (Cons c s)
  show ?case
  proof (cases "c = sep")
    case False
    with Cons.prems obtain a' where "cut_on sep s = Some (a', b)" "a = c # a'"
      by (cases "cut_on sep s") auto
    with Cons.IH [of a'] False show ?thesis by simp
  qed (use Cons.prems in simp)
qed simp

lemma cut_on_None: "cut_on sep s = None \<longleftrightarrow> sep \<notin> set s"
  by (induction s) (auto split: option.splits)

lemma cut_on_append: "sep \<notin> set a \<Longrightarrow> cut_on sep (a @ sep # b) = Some (a, b)"
  by (induction a) auto

section \<open>Decimal numbers\<close>

text \<open>\<open>strconv.Itoa\<close> and \<open>strconv.FormatUint(_, 10)\<close>.\<close>

definition digit_char :: "nat \<Rightarrow> char" where
  "digit_char d = char_of (48 + d)"

definition digit_value :: "char \<Rightarrow> nat" where
  "digit_value c = code_of c - 48"

fun format_nat :: "nat \<Rightarrow> string" where
  "format_nat n = (if n < 10 then [digit_char n] else format_nat (n div 10) @ [digit_char (n mod 10)])"

declare format_nat.simps [simp del]

definition format_int :: "int \<Rightarrow> string" where
  "format_int i = (if i < 0 then CHR ''-'' # format_nat (nat (- i)) else format_nat (nat i))"

definition digits_value :: "string \<Rightarrow> nat" where
  "digits_value s = foldl (\<lambda>n c. 10 * n + digit_value c) 0 s"

definition parse_digits :: "string \<Rightarrow> nat option" where
  "parse_digits s = (if s \<noteq> [] \<and> list_all is_digit s then Some (digits_value s) else None)"

text \<open>
  \<open>strconv.ParseInt(s, 10, 64)\<close>: one optional sign, at least one digit and nothing else;
  \<open>None\<close> is the error, for a syntax error and for a value out of range alike.
\<close>

definition parse_i64 :: "string \<Rightarrow> int option" where
  "parse_i64 s =
     (let negative = (case s of c # _ \<Rightarrow> c = CHR ''-'' | [] \<Rightarrow> False);
          body = (case s of c # cs \<Rightarrow> if c = CHR ''-'' \<or> c = CHR ''+'' then cs else s | [] \<Rightarrow> s)
      in case parse_digits body of
           None \<Rightarrow> None
         | Some n \<Rightarrow> (let v = (if negative then - int n else int n)
                      in if in_i64 v then Some v else None))"

lemma code_of_char_of: "n < 256 \<Longrightarrow> code_of (char_of n) = n"
  by (simp add: code_of_def)

lemma digit_char_props: "d < 10 \<Longrightarrow> is_digit (digit_char d) \<and> digit_value (digit_char d) = d"
  by (simp add: is_digit_def digit_value_def digit_char_def code_of_char_of)

lemma digit_char_eval:
  "digit_char 0 = CHR ''0''" "digit_char 1 = CHR ''1''" "digit_char (Suc 0) = CHR ''1''"
  "digit_char 2 = CHR ''2''" "digit_char 3 = CHR ''3''" "digit_char 4 = CHR ''4''" "digit_char 5 = CHR ''5''"
  "digit_char 6 = CHR ''6''" "digit_char 7 = CHR ''7''" "digit_char 8 = CHR ''8''" "digit_char 9 = CHR ''9''"
  by code_simp+

lemma format_nat_nonempty [simp]: "format_nat n \<noteq> []"
  by (subst format_nat.simps) simp

lemma format_nat_digits: "list_all is_digit (format_nat n)"
proof (induction n rule: format_nat.induct)
  case (1 n)
  then show ?case
    by (cases "n < 10") (simp_all add: format_nat.simps [of n] digit_char_props)
qed

lemma digits_value_format_nat [simp]: "digits_value (format_nat n) = n"
proof (induction n rule: format_nat.induct)
  case (1 n)
  show ?case
  proof (cases "n < 10")
    case True
    then show ?thesis
      by (simp add: format_nat.simps [of n] digits_value_def digit_char_props)
  next
    case False
    then have "digits_value (format_nat n) = 10 * (n div 10) + n mod 10"
      using "1.IH" by (simp add: format_nat.simps [of n] digits_value_def digit_char_props)
    then show ?thesis by simp
  qed
qed

lemma format_nat_inj: "format_nat m = format_nat n \<Longrightarrow> m = n"
  by (metis digits_value_format_nat)

lemma parse_digits_format [simp]: "parse_digits (format_nat n) = Some n"
  by (simp add: parse_digits_def format_nat_digits)

lemma format_nat_no_sign: "format_nat n = c # cs \<Longrightarrow> c \<noteq> CHR ''-'' \<and> c \<noteq> CHR ''+''"
  using format_nat_digits [of n] by (auto simp: is_digit_def code_of_def)

lemma parse_i64_format_nat:
  assumes "in_i64 (int n)"
  shows "parse_i64 (format_nat n) = Some (int n)"
proof (cases "format_nat n")
  case Nil
  then show ?thesis by simp
next
  case (Cons c cs)
  then have "parse_digits (c # cs) = Some n" by (metis parse_digits_format)
  with Cons format_nat_no_sign [of n] assms show ?thesis
    by (simp add: parse_i64_def)
qed

lemma parse_i64_format: "in_i64 i \<Longrightarrow> parse_i64 (format_int i) = Some i"
  by (cases "i < 0") (simp_all add: format_int_def parse_i64_format_nat, simp add: parse_i64_def)

lemma parse_i64_in: "parse_i64 s = Some v \<Longrightarrow> in_i64 v"
  by (auto simp: parse_i64_def Let_def split: option.splits if_splits)

lemma format_nat_no_dash: "CHR ''-'' \<notin> set (format_nat n)" "CHR '','' \<notin> set (format_nat n)"
  using format_nat_digits [of n] by (auto simp: list_all_iff is_digit_def code_of_def)

end
