(* ===== verification/Go_Header.thy ===== *)
theory Go_Header
  imports Go_Text "HOL-Library.AList"
begin

text \<open>
  Go's \<open>http.Header\<close>: a map from field names to lists of values. The map is an association
  list with distinct keys whose order stands for the iteration order, which Go leaves open;
  every lemma holds for each order. \<open>Get\<close>, \<open>Values\<close>, \<open>Set\<close>, \<open>Add\<close> and \<open>Del\<close> put the name they
  are given in canonical form; the keys already in the map are compared as they are.
\<close>

type_synonym header = "(string \<times> string list) list"

definition token_byte :: "char \<Rightarrow> bool" where
  "token_byte c \<longleftrightarrow> is_upper c \<or> is_lower c \<or> is_digit c \<or> c \<in> set ''!#$%&*+-.^_`|~'' \<or> code_of c = 39"

lemma token_byte_code [code]:
  "token_byte c = (if is_lower c then True else if is_upper c then True else if is_digit c then True
     else c \<in> set ''!#$%&*+-.^_`|~'' \<or> code_of c = 39)"
  by (auto simp: token_byte_def)

fun canonical_from :: "bool \<Rightarrow> string \<Rightarrow> string" where
  "canonical_from up [] = []"
| "canonical_from up (c # cs) =
     (let d = (if up then upper_char c else lower_char c) in d # canonical_from (d = CHR ''-'') cs)"

text \<open>\<open>http.CanonicalHeaderKey\<close>: a name with a byte outside the token set is left alone.\<close>

definition canonical_key :: "string \<Rightarrow> string" where
  "canonical_key s = (if list_all token_byte s then canonical_from True s else s)"

definition hdr_values :: "header \<Rightarrow> string \<Rightarrow> string list" where
  "hdr_values h k = (case map_of h (canonical_key k) of Some vs \<Rightarrow> vs | None \<Rightarrow> [])"

definition hdr_get :: "header \<Rightarrow> string \<Rightarrow> string" where
  "hdr_get h k = (case hdr_values h k of v # _ \<Rightarrow> v | [] \<Rightarrow> [])"

definition hdr_del :: "header \<Rightarrow> string \<Rightarrow> header" where
  "hdr_del h k = filter (\<lambda>(n, _). n \<noteq> canonical_key k) h"

definition hdr_set :: "header \<Rightarrow> string \<Rightarrow> string \<Rightarrow> header" where
  "hdr_set h k v = AList.update (canonical_key k) [v] h"

definition hdr_add :: "header \<Rightarrow> string \<Rightarrow> string \<Rightarrow> header" where
  "hdr_add h k v = AList.update (canonical_key k) (hdr_values h k @ [v]) h"

text \<open>A header map as Go's server and client deliver it: one entry per name, names canonical.\<close>

definition canonical_header :: "header \<Rightarrow> bool" where
  "canonical_header h \<longleftrightarrow> distinct (map fst h) \<and> list_all (\<lambda>(n, _). canonical_key n = n) h"

section \<open>Canonical form is idempotent\<close>

lemma code_of_less [simp]: "code_of c < 256"
  by (simp add: code_of_def)

lemma code_of_upper_char: "code_of (upper_char c) = (if is_lower c then code_of c - 32 else code_of c)"
  using code_of_less [of c]
  by (simp only: upper_char_def split: if_split) (auto simp: code_of_char_of less_imp_diff_less)

lemma code_of_lower_char: "code_of (lower_char c) = (if is_upper c then code_of c + 32 else code_of c)"
  by (auto simp: lower_char_def is_upper_def code_of_char_of)

lemma char_eq_code: "c = d \<longleftrightarrow> code_of c = code_of d"
  by (simp add: code_of_def)

lemma upper_char_idem [simp]: "upper_char (upper_char c) = upper_char c"
  by (auto simp: char_eq_code code_of_upper_char is_lower_def)

lemma lower_char_idem [simp]: "lower_char (lower_char c) = lower_char c"
  by (auto simp: char_eq_code code_of_lower_char is_upper_def)

lemma token_byte_upper_char [simp]: "token_byte c \<Longrightarrow> token_byte (upper_char c)"
  by (cases "is_lower c") (auto simp: token_byte_def is_upper_def is_lower_def code_of_upper_char upper_char_def code_of_char_of)

lemma token_byte_lower_char [simp]: "token_byte c \<Longrightarrow> token_byte (lower_char c)"
  by (cases "is_upper c") (auto simp: token_byte_def is_upper_def is_lower_def code_of_lower_char lower_char_def code_of_char_of)

lemma canonical_from_token: "list_all token_byte s \<Longrightarrow> list_all token_byte (canonical_from up s)"
  by (induction up s rule: canonical_from.induct) (auto simp: Let_def)

lemma canonical_from_idem: "canonical_from up (canonical_from up s) = canonical_from up s"
  by (induction up s rule: canonical_from.induct) (auto simp: Let_def)

lemma canonical_key_idem [simp]: "canonical_key (canonical_key s) = canonical_key s"
  by (simp add: canonical_key_def canonical_from_token canonical_from_idem)

section \<open>Lookup after each operation\<close>

lemma delete_filter: "AList.delete k items = filter (\<lambda>x. fst x \<noteq> k) items"
  by (auto simp: AList.delete_eq split_beta intro!: filter_cong)

lemma map_of_filter_key: "map_of (filter (\<lambda>(n, _). n \<noteq> k) h) = (map_of h)(k := None)"
  by (induction h) (auto simp: fun_eq_iff)

lemma map_of_hdr_del: "map_of (hdr_del h k) = (map_of h)(canonical_key k := None)"
  by (simp add: hdr_del_def map_of_filter_key)

lemma map_of_hdr_set: "map_of (hdr_set h k v) = (map_of h)(canonical_key k \<mapsto> [v])"
  by (simp add: hdr_set_def update_conv')

lemma hdr_values_del: "hdr_values (hdr_del h k) n = (if canonical_key n = canonical_key k then [] else hdr_values h n)"
  by (simp add: hdr_values_def map_of_hdr_del)

lemma hdr_values_set: "hdr_values (hdr_set h k v) n = (if canonical_key n = canonical_key k then [v] else hdr_values h n)"
  by (simp add: hdr_values_def map_of_hdr_set)

lemma hdr_values_add: "hdr_values (hdr_add h k v) n = (if canonical_key n = canonical_key k then hdr_values h k @ [v] else hdr_values h n)"
  by (simp add: hdr_values_def hdr_add_def update_conv')

lemmas hdr_get_simps = hdr_get_def hdr_values_del hdr_values_set hdr_values_add

lemma set_hdr_del: "set (hdr_del h k) = {(n, vs) \<in> set h. n \<noteq> canonical_key k}"
  by (auto simp: hdr_del_def)

lemma distinct_hdr_del: "distinct (map fst h) \<Longrightarrow> distinct (map fst (hdr_del h k))"
  by (simp add: hdr_del_def distinct_map_filter)

lemma canonical_header_del [simp]: "canonical_header h \<Longrightarrow> canonical_header (hdr_del h k)"
  by (simp add: canonical_header_def distinct_hdr_del) (auto simp: list_all_iff set_hdr_del)

lemma fst_set_update: "fst ` set (AList.update k v h) = insert k (fst ` set h)"
  by (simp add: dom_update)

lemma canonical_header_fst:
  "canonical_header h \<longleftrightarrow> distinct (map fst h) \<and> (\<forall>n \<in> fst ` set h. canonical_key n = n)"
  by (auto simp: canonical_header_def list_all_iff)

lemma canonical_header_set [simp]: "canonical_header h \<Longrightarrow> canonical_header (hdr_set h k v)"
  by (simp add: canonical_header_fst hdr_set_def distinct_update fst_set_update)

lemma canonical_header_add [simp]: "canonical_header h \<Longrightarrow> canonical_header (hdr_add h k v)"
  by (simp add: canonical_header_fst hdr_add_def distinct_update fst_set_update)

end
