(* ===== verification/Config_Types.thy ===== *)
theory Config_Types
  imports Go_Header
begin

text \<open>
  The configuration of \<open>internal/config/config.go\<close>: one record per Go struct, a duration as
  its number of nanoseconds, the embedded build version left out (nothing reads it), and the
  default configuration.
\<close>

definition ModeCapture :: string where
  "ModeCapture = ''capture''"

definition ModeProxy :: string where
  "ModeProxy = ''proxy''"

definition StorageMemory :: string where
  "StorageMemory = ''memory''"

definition StorageSQLite :: string where
  "StorageSQLite = ''sqlite''"

record listeners =
  ls_management :: string
  ls_traffic :: string

record upstream =
  up_url :: string
  up_timeout :: int

record capture_response =
  cap_status :: int
  cap_headers :: header
  cap_body :: string

record limits =
  lim_request_body :: int
  lim_response_body :: int
  lim_request_header :: int
  lim_response_header :: int
  lim_concurrent :: int

record preview_settings =
  pv_enabled :: bool
  pv_bytes :: int

record storage =
  sto_mode :: string
  sto_sqlite_path :: string
  sto_retention_days :: int

record authentication =
  au_username :: string
  au_password :: string
  au_session_ttl :: int

record udp_settings =
  udp_enabled :: bool
  udp_listen :: string
  udp_mode :: string
  udp_upstream :: string
  udp_max_datagram :: int
  udp_max_sessions :: int
  udp_session_ttl :: int
  udp_capture_response :: string
  udp_max_replies :: int
  udp_max_reply_bytes :: int

record config =
  cf_config_path :: string
  cf_listeners :: listeners
  cf_mode :: string
  cf_upstream :: upstream
  cf_capture :: capture_response
  cf_cors_enabled :: bool
  cf_limits :: limits
  cf_preview :: preview_settings
  cf_history_max :: int
  cf_storage :: storage
  cf_auth :: authentication
  cf_udp :: udp_settings
  cf_shutdown :: int

definition second_ns :: int where
  "second_ns = 1000000000"

definition Defaults :: config where
  "Defaults = \<lparr>
     cf_config_path = [],
     cf_listeners = \<lparr>ls_management = ''127.0.0.1:8080'', ls_traffic = ''0.0.0.0:8081''\<rparr>,
     cf_mode = ModeCapture,
     cf_upstream = \<lparr>up_url = [], up_timeout = 30 * second_ns\<rparr>,
     cf_capture = \<lparr>cap_status = 200, cap_headers = [], cap_body = ''{'' @ [CHR 34] @ ''ok'' @ [CHR 34] @ '':true}''\<rparr>,
     cf_cors_enabled = False,
     cf_limits = \<lparr>lim_request_body = 1048576, lim_response_body = 1048576,
       lim_request_header = 65536, lim_response_header = 65536, lim_concurrent = 128\<rparr>,
     cf_preview = \<lparr>pv_enabled = True, pv_bytes = 16384\<rparr>,
     cf_history_max = 100,
     cf_storage = \<lparr>sto_mode = StorageSQLite, sto_sqlite_path = [], sto_retention_days = 0\<rparr>,
     cf_auth = \<lparr>au_username = [], au_password = [], au_session_ttl = 24 * 3600 * second_ns\<rparr>,
     cf_udp = \<lparr>udp_enabled = False, udp_listen = ''0.0.0.0:12050'', udp_mode = ModeCapture,
       udp_upstream = [], udp_max_datagram = 65507, udp_max_sessions = 1024,
       udp_session_ttl = 30 * second_ns, udp_capture_response = [], udp_max_replies = 100,
       udp_max_reply_bytes = 1048576\<rparr>,
     cf_shutdown = 10 * second_ns\<rparr>"

lemma mode_names_differ [simp]: "ModeCapture \<noteq> ModeProxy" "ModeProxy \<noteq> ModeCapture"
  by (simp_all add: ModeCapture_def ModeProxy_def)

end
