(* ===== verification/Go_Time.thy ===== *)
theory Go_Time
  imports Relay_Prelude
begin

text \<open>
  Go's \<open>time.Time\<close> as the program uses it: an instant of the wall clock, counted in
  nanoseconds from the zero \<open>Time\<close> (January 1, year 1, UTC), and the monotonic clock
  reading that \<open>time.Now\<close> attaches and \<open>UTC()\<close> strips. \<open>Sub\<close>, \<open>Before\<close>, \<open>After\<close> and \<open>Equal\<close>
  use the monotonic readings when both operands have one and the wall clock otherwise.
\<close>

record gotime =
  wall_ns :: int
  mono_ns :: "int option"

definition zero_time :: gotime where
  "zero_time = \<lparr>wall_ns = 0, mono_ns = None\<rparr>"

definition wall_time :: "int \<Rightarrow> gotime" where
  "wall_time ns = \<lparr>wall_ns = ns, mono_ns = None\<rparr>"

definition is_zero :: "gotime \<Rightarrow> bool" where
  "is_zero t \<longleftrightarrow> wall_ns t = 0"

definition utc :: "gotime \<Rightarrow> gotime" where
  "utc t = t\<lparr>mono_ns := None\<rparr>"

definition time_diff :: "gotime \<Rightarrow> gotime \<Rightarrow> int" where
  "time_diff t u = (case (mono_ns t, mono_ns u) of
     (Some a, Some b) \<Rightarrow> a - b
   | _ \<Rightarrow> wall_ns t - wall_ns u)"

text \<open>\<open>t.Sub(u)\<close> saturates at the bounds of \<open>Duration\<close>.\<close>

definition time_sub :: "gotime \<Rightarrow> gotime \<Rightarrow> int" where
  "time_sub t u = clamp_i64 (time_diff t u)"

definition time_before :: "gotime \<Rightarrow> gotime \<Rightarrow> bool" where
  "time_before t u \<longleftrightarrow> time_diff t u < 0"

definition time_after :: "gotime \<Rightarrow> gotime \<Rightarrow> bool" where
  "time_after t u \<longleftrightarrow> 0 < time_diff t u"

definition time_equal :: "gotime \<Rightarrow> gotime \<Rightarrow> bool" where
  "time_equal t u \<longleftrightarrow> time_diff t u = 0"

definition time_add :: "gotime \<Rightarrow> int \<Rightarrow> gotime" where
  "time_add t d = \<lparr>wall_ns = wall_ns t + d, mono_ns = map_option (\<lambda>m. m + d) (mono_ns t)\<rparr>"

text \<open>\<open>UnixNano\<close>: nanoseconds since 1970, as an \<open>int64\<close> that wraps outside its range.\<close>

definition unix_offset_ns :: int where
  "unix_offset_ns = 62135596800 * 1000000000"

definition unix_nano :: "gotime \<Rightarrow> int" where
  "unix_nano t = wrap_i64 (wall_ns t - unix_offset_ns)"

text \<open>\<open>time.Unix(0, ns).UTC()\<close>.\<close>

definition time_of_unix_nano :: "int \<Rightarrow> gotime" where
  "time_of_unix_nano ns = wall_time (ns + unix_offset_ns)"

text \<open>\<open>Duration.Microseconds\<close> truncates towards zero.\<close>

definition microseconds :: "int \<Rightarrow> int" where
  "microseconds d = (if 0 \<le> d then d div 1000 else - (- d div 1000))"

section \<open>Lemmas\<close>

lemma utc_sel [simp]: "wall_ns (utc t) = wall_ns t" "mono_ns (utc t) = None"
  by (simp_all add: utc_def)

lemma utc_utc [simp]: "utc (utc t) = utc t"
  by (simp add: utc_def)

lemma is_zero_utc [simp]: "is_zero (utc t) = is_zero t"
  by (simp add: is_zero_def)

lemma is_zero_zero_time [simp]: "is_zero zero_time"
  by (simp add: is_zero_def zero_time_def)

lemma time_diff_self [simp]: "time_diff t t = 0"
  by (simp add: time_diff_def split: option.splits)

lemma time_diff_utc [simp]:
  "time_diff (utc t) u = wall_ns t - wall_ns u"
  "time_diff t (utc u) = wall_ns t - wall_ns u"
  by (simp_all add: time_diff_def split: option.splits)

lemma time_diff_swap: "time_diff u t = - time_diff t u"
  by (simp add: time_diff_def split: option.splits)

lemma time_sub_nonneg: "\<not> time_before t u \<Longrightarrow> 0 \<le> time_sub t u"
  by (simp add: time_sub_def time_before_def)

lemma time_trichotomy: "time_before t u \<or> time_equal t u \<or> time_after t u"
  by (auto simp: time_before_def time_equal_def time_after_def)

lemma microseconds_nonneg: "0 \<le> d \<Longrightarrow> 0 \<le> microseconds d"
  by (simp add: microseconds_def)

lemma unix_nano_of_unix_nano: "in_i64 n \<Longrightarrow> unix_nano (time_of_unix_nano n) = n"
  by (simp add: unix_nano_def time_of_unix_nano_def wall_time_def)

text \<open>
  Instants whose \<open>UnixNano\<close> is exact: the years 1678 to 2262. The code relies on it wherever
  it orders rows by \<open>UnixNano\<close>.
\<close>

definition nano_range :: "gotime \<Rightarrow> bool" where
  "nano_range t \<longleftrightarrow> in_i64 (wall_ns t - unix_offset_ns)"

lemma unix_nano_exact: "nano_range t \<Longrightarrow> unix_nano t = wall_ns t - unix_offset_ns"
  by (simp add: nano_range_def unix_nano_def)

text \<open>
  Two readings agree when the comparison that \<open>Before\<close>, \<open>After\<close> and \<open>Equal\<close> make is the one of
  their wall clocks. It always holds when one of them has no monotonic reading, and for two
  monotonic readings when the wall clock did not step between them.
\<close>

definition clocks_agree :: "gotime \<Rightarrow> gotime \<Rightarrow> bool" where
  "clocks_agree t u \<longleftrightarrow> sgn (time_diff t u) = sgn (wall_ns t - wall_ns u)"

lemma clocks_agree_no_mono: "mono_ns t = None \<or> mono_ns u = None \<Longrightarrow> clocks_agree t u"
  by (auto simp: clocks_agree_def time_diff_def split: option.splits)

lemma clocks_agree_after: "clocks_agree t u \<Longrightarrow> time_after t u \<longleftrightarrow> wall_ns u < wall_ns t"
  by (auto simp: clocks_agree_def time_after_def sgn_if split: if_splits)

lemma clocks_agree_equal: "clocks_agree t u \<Longrightarrow> time_equal t u \<longleftrightarrow> wall_ns t = wall_ns u"
  by (auto simp: clocks_agree_def time_equal_def sgn_if split: if_splits)

lemma clocks_agree_before: "clocks_agree t u \<Longrightarrow> time_before t u \<longleftrightarrow> wall_ns t < wall_ns u"
  by (auto simp: clocks_agree_def time_before_def sgn_if split: if_splits)

end
