(* ===== verification/Exchange_Model.thy ===== *)
theory Exchange_Model
  imports Config_Types Go_Time
begin

text \<open>
  The exchange record of \<open>internal/capture/model.go\<close>: its parts, its life cycle
  (\<open>Transition\<close>), its copies (\<open>Clone\<close>), the header size estimate and the newest-first order
  that \<open>internal/store/memory.go\<close> and \<open>internal/httpapi/exchanges.go\<close> sort by.
\<close>

section \<open>Data\<close>

datatype transport = TransportHTTP | TransportUDP

datatype xstate =
    StateReceiving | StateForwarding | StateCompleted | StateFailed | StateCancelled | StateDiscarded

fun state_string :: "xstate \<Rightarrow> string" where
  "state_string StateReceiving = ''receiving''"
| "state_string StateForwarding = ''forwarding''"
| "state_string StateCompleted = ''completed''"
| "state_string StateFailed = ''failed''"
| "state_string StateCancelled = ''cancelled''"
| "state_string StateDiscarded = ''discarded''"

record config_snapshot =
  cs_revision :: u64
  cs_mode :: string
  cs_upstream :: upstream
  cs_capture :: capture_response
  cs_limits :: limits
  cs_preview :: preview_settings
  cs_storage :: storage

record request =
  rq_method :: string
  rq_scheme :: string
  rq_protocol :: string
  rq_host :: string
  rq_target :: string
  rq_path :: string
  rq_raw_query :: string
  rq_remote_address :: string
  rq_headers :: header
  rq_content_type :: string
  rq_body :: bytes
  rq_observed :: int
  rq_complete :: bool
  rq_header_bytes :: int
  rq_preview :: bytes
  rq_preview_truncated :: bool
  rq_decoded_preview :: "int option"
  rq_preview_error :: string

record response =
  rs_status :: int
  rs_headers :: header
  rs_body :: bytes
  rs_observed :: int
  rs_complete :: bool
  rs_header_bytes :: int
  rs_origin :: string
  rs_preview :: bytes
  rs_preview_truncated :: bool
  rs_decoded_preview :: "int option"
  rs_preview_error :: string

record proxy_timing =
  pt_upstream_started :: "gotime option"
  pt_request_written :: "gotime option"
  pt_first_byte :: "gotime option"
  pt_captured :: "gotime option"
  pt_downstream_completed :: "gotime option"
  pt_dispatch_us :: "int option"
  pt_wait_us :: "int option"
  pt_receive_us :: "int option"
  pt_upstream_total_us :: "int option"
  pt_downstream_write_us :: "int option"
  pt_proxy_total_us :: "int option"

record exchange_error =
  ee_category :: string
  ee_message :: string

record downstream_delivery =
  dd_status :: int
  dd_body_bytes :: int
  dd_error :: string

record datagram_delivery =
  de_result :: string
  de_sent :: int
  de_message :: string
  de_truncated :: bool

record datagram =
  dg_source :: string
  dg_local :: string
  dg_accepted :: int
  dg_payload :: bytes
  dg_complete :: bool
  dg_preview :: bytes
  dg_preview_truncated :: bool
  dg_discard_reason :: string
  dg_delivery :: datagram_delivery

record persistence_status =
  ps_state :: string
  ps_error :: string

record exchange =
  ex_id :: string
  ex_transport :: transport
  ex_mode :: string
  ex_config_revision :: u64
  ex_configuration :: config_snapshot
  ex_revision :: u64
  ex_state :: xstate
  ex_started :: gotime
  ex_completed :: gotime
  ex_duration :: int
  ex_request :: request
  ex_datagram :: "datagram option"
  ex_response :: "response option"
  ex_upstream :: string
  ex_upstream_header_bytes :: int
  ex_upstream_body_bytes :: int
  ex_timing :: "proxy_timing option"
  ex_error :: "exchange_error option"
  ex_delivery :: downstream_delivery
  ex_persistence :: "persistence_status option"
  ex_started_mono :: gotime

text \<open>
  Error values. \<open>Wrapped\<close> is \<open>fmt.Errorf\<close> with \<open>%w\<close>; \<open>ModeError\<close> is the struct of
  \<open>pipeline.go\<close>, whose \<open>Unwrap\<close> is its cause; the sentinels are the package variables.
\<close>

datatype go_error =
    Canceled
  | DeadlineExceeded
  | BodyTooLarge
  | ResponseBodyTooLarge
  | QueueFull
  | InvalidTransition xstate xstate
  | Plain string
  | Wrapped string go_error
  | ModeError int string string "go_error option"

fun errors_is :: "go_error \<Rightarrow> go_error \<Rightarrow> bool" where
  "errors_is (Wrapped m e) target = (Wrapped m e = target \<or> errors_is e target)"
| "errors_is (ModeError s c m (Some e)) target =
     (ModeError s c m (Some e) = target \<or> errors_is e target)"
| "errors_is e target = (e = target)"

text \<open>The text of the error \<open>Transition\<close> returns.\<close>

definition transition_error :: "go_error \<Rightarrow> string" where
  "transition_error err = (case err of
     InvalidTransition current next \<Rightarrow> ''invalid exchange transition '' @ [CHR 34] @ state_string current
       @ [CHR 34] @ '' to '' @ [CHR 34] @ state_string next @ [CHR 34]
   | _ \<Rightarrow> [])"

section \<open>Configuration snapshots\<close>

definition clone_headers :: "header \<Rightarrow> header" where
  "clone_headers h = map (\<lambda>(name, values). (name, [] @ values)) h"

definition NewConfigSnapshot :: "config \<Rightarrow> u64 \<Rightarrow> config_snapshot" where
  "NewConfigSnapshot cfg revision = \<lparr>
     cs_revision = revision,
     cs_mode = cf_mode cfg,
     cs_upstream = cf_upstream cfg,
     cs_capture = \<lparr>
       cap_status = cap_status (cf_capture cfg),
       cap_headers = clone_headers (cap_headers (cf_capture cfg)),
       cap_body = cap_body (cf_capture cfg)\<rparr>,
     cs_limits = cf_limits cfg,
     cs_preview = cf_preview cfg,
     cs_storage = cf_storage cfg\<rparr>"

section \<open>Copies\<close>

text \<open>
  The copies of slices and pointers, field by field as the code writes them. In a model
  without aliasing a complete copy is the same value; a field the code forgot to copy from the
  right source would not be.
\<close>

definition clone_snapshot :: "config_snapshot \<Rightarrow> config_snapshot" where
  "clone_snapshot s = s\<lparr>cs_capture := (cs_capture s)\<lparr>cap_headers := clone_headers (cap_headers (cs_capture s))\<rparr>\<rparr>"

definition clone_int64 :: "int option \<Rightarrow> int option" where
  "clone_int64 v = (case v of None \<Rightarrow> None | Some n \<Rightarrow> Some n)"

definition clone_time :: "gotime option \<Rightarrow> gotime option" where
  "clone_time v = (case v of None \<Rightarrow> None | Some t \<Rightarrow> Some t)"

definition clone_request :: "request \<Rightarrow> request" where
  "clone_request r = r\<lparr>
     rq_headers := clone_headers (rq_headers r),
     rq_body := [] @ rq_body r,
     rq_preview := [] @ rq_preview r,
     rq_decoded_preview := clone_int64 (rq_decoded_preview r)\<rparr>"

definition clone_response :: "response option \<Rightarrow> response option" where
  "clone_response v = (case v of None \<Rightarrow> None | Some r \<Rightarrow> Some (r\<lparr>
     rs_headers := clone_headers (rs_headers r),
     rs_body := [] @ rs_body r,
     rs_preview := [] @ rs_preview r,
     rs_decoded_preview := clone_int64 (rs_decoded_preview r)\<rparr>))"

definition clone_datagram :: "datagram option \<Rightarrow> datagram option" where
  "clone_datagram v = (case v of None \<Rightarrow> None | Some d \<Rightarrow> Some (d\<lparr>
     dg_payload := [] @ dg_payload d,
     dg_preview := [] @ dg_preview d\<rparr>))"

definition clone_timing :: "proxy_timing option \<Rightarrow> proxy_timing option" where
  "clone_timing v = (case v of None \<Rightarrow> None | Some t \<Rightarrow> Some (t\<lparr>
     pt_upstream_started := clone_time (pt_upstream_started t),
     pt_request_written := clone_time (pt_request_written t),
     pt_first_byte := clone_time (pt_first_byte t),
     pt_captured := clone_time (pt_captured t),
     pt_downstream_completed := clone_time (pt_downstream_completed t),
     pt_dispatch_us := clone_int64 (pt_dispatch_us t),
     pt_wait_us := clone_int64 (pt_wait_us t),
     pt_receive_us := clone_int64 (pt_receive_us t),
     pt_upstream_total_us := clone_int64 (pt_upstream_total_us t),
     pt_downstream_write_us := clone_int64 (pt_downstream_write_us t),
     pt_proxy_total_us := clone_int64 (pt_proxy_total_us t)\<rparr>))"

definition clone_exchange :: "exchange \<Rightarrow> exchange" where
  "clone_exchange e = e\<lparr>
     ex_configuration := clone_snapshot (ex_configuration e),
     ex_request := clone_request (ex_request e),
     ex_datagram := clone_datagram (ex_datagram e),
     ex_response := clone_response (ex_response e),
     ex_timing := clone_timing (ex_timing e),
     ex_error := (case ex_error e of None \<Rightarrow> None | Some x \<Rightarrow> Some x),
     ex_persistence := (case ex_persistence e of None \<Rightarrow> None | Some p \<Rightarrow> Some p)\<rparr>"

section \<open>Life cycle\<close>

fun IsTerminal :: "xstate \<Rightarrow> bool" where
  "IsTerminal s = (s = StateCompleted \<or> s = StateFailed \<or> s = StateCancelled \<or> s = StateDiscarded)"

fun validTransition :: "xstate \<Rightarrow> xstate \<Rightarrow> bool" where
  "validTransition StateReceiving next = (next = StateForwarding \<or> next = StateCompleted
     \<or> next = StateFailed \<or> next = StateCancelled \<or> next = StateDiscarded)"
| "validTransition StateForwarding next =
     (next = StateCompleted \<or> next = StateFailed \<or> next = StateCancelled)"
| "validTransition _ next = False"

definition Transition :: "exchange \<Rightarrow> xstate \<Rightarrow> gotime \<Rightarrow> go_error + exchange" where
  "Transition e next at =
     (if \<not> validTransition (ex_state e) next then Inl (InvalidTransition (ex_state e) next)
      else
        let e1 = e\<lparr>ex_state := next, ex_revision := ex_revision e + 1\<rparr>
        in if IsTerminal next then
             let started = (if \<not> is_zero (ex_started_mono e) then ex_started_mono e else ex_started e);
                 duration = time_sub at started
             in Inr (e1\<lparr>ex_completed := utc at,
                        ex_duration := (if duration < 0 then 0 else duration)\<rparr>)
           else Inr e1)"

declare IsTerminal.simps [simp del]

lemma IsTerminal_states [simp]:
  "IsTerminal StateCompleted" "IsTerminal StateFailed" "IsTerminal StateCancelled"
  "IsTerminal StateDiscarded" "\<not> IsTerminal StateReceiving" "\<not> IsTerminal StateForwarding"
  by (simp_all add: IsTerminal.simps)

section \<open>Header size estimate and exchange IDs\<close>

definition header_line_bytes :: "string \<Rightarrow> string \<Rightarrow> int" where
  "header_line_bytes name value = int (length name) + 2 + int (length value) + 2"

definition HeaderBytesEstimate :: "header \<Rightarrow> string \<Rightarrow> int" where
  "HeaderBytesEstimate h host =
     2 + sum_list (map (\<lambda>(name, values).
           if canonical_key name = ''Host'' then 0
           else sum_list (map (header_line_bytes name) values)) h)
       + (if host \<noteq> [] then header_line_bytes ''Host'' host else 0)"

definition hex_digit :: "nat \<Rightarrow> char" where
  "hex_digit n = (''0123456789abcdef'' ! n)"

definition hex_encode :: "8 word list \<Rightarrow> string" where
  "hex_encode bs = concat (map (\<lambda>b. [hex_digit (unat b div 16), hex_digit (unat b mod 16)]) bs)"

text \<open>\<open>NewID\<close> hex-encodes the 16 random bytes, \<open>None\<close> when the random source failed.\<close>

definition NewID :: "8 word list option \<Rightarrow> go_error + string" where
  "NewID random = (case random of
     None \<Rightarrow> Inl (Plain ''generate exchange ID'')
   | Some bs \<Rightarrow> Inr (hex_encode bs))"

section \<open>Newest-first order\<close>

definition ordering_time :: "exchange \<Rightarrow> gotime" where
  "ordering_time e = (if \<not> is_zero (ex_completed e) then ex_completed e else ex_started e)"

text \<open>The comparison passed to \<open>sort.SliceStable\<close>.\<close>

definition newer :: "exchange \<Rightarrow> exchange \<Rightarrow> bool" where
  "newer l r =
     (if time_equal (ordering_time l) (ordering_time r) then ex_id r < ex_id l
      else time_after (ordering_time l) (ordering_time r))"

definition sort_newest_first :: "exchange list \<Rightarrow> exchange list" where
  "sort_newest_first xs = slice_stable newer xs"

text \<open>
  The order as a linear order on keys: the later wall-clock instant first, then the greater ID.
  With it the library's facts about \<open>sorted\<close> and \<open>sort_key\<close> apply to history lists.
\<close>

datatype order_key = OrderKey (key_instant: int) (key_id: string)

instantiation order_key :: linorder
begin

definition less_order_key :: "order_key \<Rightarrow> order_key \<Rightarrow> bool" where
  "less_order_key a b \<longleftrightarrow> key_instant b < key_instant a
     \<or> key_instant a = key_instant b \<and> key_id b < key_id a"

definition less_eq_order_key :: "order_key \<Rightarrow> order_key \<Rightarrow> bool" where
  "less_eq_order_key a b \<longleftrightarrow> a = b \<or> a < b"

instance
proof
  fix x y z :: order_key
  show "x < y \<longleftrightarrow> x \<le> y \<and> \<not> y \<le> x"
    by (auto simp: less_eq_order_key_def less_order_key_def)
  show "x \<le> x"
    by (simp add: less_eq_order_key_def)
  show "x \<le> y \<Longrightarrow> y \<le> z \<Longrightarrow> x \<le> z"
    by (auto simp: less_eq_order_key_def less_order_key_def)
  show "x \<le> y \<Longrightarrow> y \<le> x \<Longrightarrow> x = y"
    by (auto simp: less_eq_order_key_def less_order_key_def)
  show "x \<le> y \<or> y \<le> x"
    by (cases x; cases y) (auto simp: less_eq_order_key_def less_order_key_def)
qed

end

definition exchange_key :: "exchange \<Rightarrow> order_key" where
  "exchange_key e = OrderKey (wall_ns (ordering_time e)) (ex_id e)"

text \<open>The comparisons of a list of exchanges are those of the wall clock.\<close>

definition clocks_coherent :: "exchange list \<Rightarrow> bool" where
  "clocks_coherent xs \<longleftrightarrow>
     (\<forall>a \<in> set xs. \<forall>b \<in> set xs. clocks_agree (ordering_time a) (ordering_time b))"

lemma newer_key:
  "clocks_agree (ordering_time a) (ordering_time b) \<Longrightarrow> newer a b \<longleftrightarrow> exchange_key a < exchange_key b"
  by (auto simp: newer_def exchange_key_def less_order_key_def clocks_agree_equal clocks_agree_after)

lemma clocks_coherent_subset: "clocks_coherent ys \<Longrightarrow> set xs \<subseteq> set ys \<Longrightarrow> clocks_coherent xs"
  unfolding clocks_coherent_def by blast

lemma clocks_coherent_no_mono:
  "(\<And>e. e \<in> set xs \<Longrightarrow> mono_ns (ordering_time e) = None) \<Longrightarrow> clocks_coherent xs"
  by (auto simp: clocks_coherent_def intro: clocks_agree_no_mono)

lemma sort_newest_first_key:
  "clocks_coherent xs \<Longrightarrow> sort_newest_first xs = sort_key exchange_key xs"
  unfolding sort_newest_first_def
  by (rule slice_stable_sort_key) (auto simp: newer_key clocks_coherent_def)

lemma sort_newest_first_set [simp]:
  "set (sort_newest_first xs) = set xs" "mset (sort_newest_first xs) = mset xs"
  "length (sort_newest_first xs) = length xs"
  by (simp_all add: sort_newest_first_def)

lemma sort_newest_first_sorted:
  "clocks_coherent xs \<Longrightarrow> sorted (map exchange_key (sort_newest_first xs))"
  by (simp add: sort_newest_first_key)

lemma distinct_ids_sort: "distinct (map ex_id (sort_newest_first xs)) = distinct (map ex_id xs)"
  by (rule distinct_map_mset) simp

section \<open>Copies are complete\<close>

lemma clone_headers_id [simp]: "clone_headers h = h"
  by (induction h) (auto simp: clone_headers_def)

lemma clone_atoms [simp]: "clone_int64 v = v" "clone_time w = w"
  by (simp_all add: clone_int64_def clone_time_def split: option.splits)

lemma clone_parts [simp]:
  "clone_snapshot s = s" "clone_request r = r" "clone_response p = p"
  "clone_datagram d = d" "clone_timing t = t"
  by (simp_all add: clone_snapshot_def clone_request_def clone_response_def clone_datagram_def
      clone_timing_def split: option.splits)

lemma clone_exchange_id [simp]: "clone_exchange e = e"
  by (simp add: clone_exchange_def split: option.splits)

section \<open>Transitions\<close>

lemma Transition_Inr:
  assumes "Transition e s at = Inr e'"
  shows "validTransition (ex_state e) s" and "ex_state e' = s"
    and "ex_revision e' = ex_revision e + 1" and "ex_id e' = ex_id e"
    and "ex_request e' = ex_request e" and "ex_mode e' = ex_mode e" and "ex_error e' = ex_error e"
    and "ex_started e' = ex_started e" and "ex_response e' = ex_response e"
    and "ex_persistence e' = ex_persistence e" and "ex_started_mono e' = ex_started_mono e"
  using assms by (auto simp: Transition_def Let_def split: if_splits)

lemma Transition_ok:
  assumes "validTransition (ex_state e) s"
  obtains e' where "Transition e s at = Inr e'"
  using assms that by (cases "Transition e s at") (auto simp: Transition_def Let_def split: if_splits)

lemma Transition_terminal:
  assumes "Transition e s at = Inr e'" and "IsTerminal s"
  shows "ex_completed e' = utc at" and "0 \<le> ex_duration e'"
  using assms by (auto simp: Transition_def Let_def split: if_splits)

lemma Transition_from_terminal [simp]:
  "IsTerminal (ex_state e) \<Longrightarrow> Transition e s at = Inl (InvalidTransition (ex_state e) s)"
  by (auto simp: Transition_def IsTerminal.simps)

section \<open>Identifiers\<close>

lemma hex_encode_length: "length (hex_encode bs) = 2 * length bs"
  by (induction bs) (auto simp: hex_encode_def)

lemma hex_encode_chars: "list_all (\<lambda>c. c \<in> set ''0123456789abcdef'') (hex_encode bs)"
proof -
  have digit: "n < 16 \<Longrightarrow> hex_digit n \<in> set ''0123456789abcdef''" for n
    unfolding hex_digit_def by (rule nth_mem) simp
  have "unat b div 16 < 16" for b :: "8 word"
    using unsigned_less [of b, where 'a = nat] by simp
  then show ?thesis
    by (induction bs) (simp_all add: hex_encode_def digit del: set_simps list.set)
qed

lemma hex_digit_inj: "m < 16 \<Longrightarrow> n < 16 \<Longrightarrow> hex_digit m = hex_digit n \<Longrightarrow> m = n"
proof -
  have d: "distinct ''0123456789abcdef''" by simp
  assume "m < 16" "n < 16" "hex_digit m = hex_digit n"
  then show "m = n"
    unfolding hex_digit_def using nth_eq_iff_index_eq [OF d, of m n] by simp
qed

lemma hex_byte_inj:
  assumes "hex_digit (unat a div 16) = hex_digit (unat b div 16)"
    and "hex_digit (unat a mod 16) = hex_digit (unat b mod 16)"
  shows "(a :: 8 word) = b"
proof -
  have "unat a < 256" "unat b < 256"
    using unsigned_less [of a, where 'a = nat] unsigned_less [of b, where 'a = nat] by simp_all
  then have "unat a div 16 = unat b div 16" and "unat a mod 16 = unat b mod 16"
    using hex_digit_inj [OF _ _ assms(1)] hex_digit_inj [OF _ _ assms(2)] by simp_all
  then have "unat a = unat b" by (metis div_mult_mod_eq)
  then show ?thesis by (simp add: word_unat_eq_iff)
qed

lemma hex_encode_inj: "hex_encode as = hex_encode bs \<Longrightarrow> as = bs"
proof (induction as arbitrary: bs)
  case Nil
  then show ?case by (cases bs) (auto simp: hex_encode_def)
next
  case (Cons a as)
  then obtain b bs' where bs: "bs = b # bs'"
    by (cases bs) (auto simp: hex_encode_def)
  with Cons.prems have "a = b" and "hex_encode as = hex_encode bs'"
    by (auto simp: hex_encode_def intro: hex_byte_inj)
  with Cons.IH bs show ?case by simp
qed

section \<open>Runs of transitions\<close>

text \<open>\<open>life_run e ss e'\<close>: successful calls of \<open>Transition\<close> to the states \<open>ss\<close> take \<open>e\<close> to \<open>e'\<close>.\<close>

inductive life_run :: "exchange \<Rightarrow> xstate list \<Rightarrow> exchange \<Rightarrow> bool" where
  life_done: "life_run e [] e"
| life_next: "Transition e s at = Inr e1 \<Longrightarrow> life_run e1 ss e2 \<Longrightarrow> life_run e (s # ss) e2"

inductive_cases life_run_NilE: "life_run e [] e'"
inductive_cases life_run_ConsE: "life_run e (s # ss) e'"

lemma life_run_terminal: "life_run e ss e' \<Longrightarrow> IsTerminal (ex_state e) \<Longrightarrow> ss = [] \<and> e' = e"
  by (induction rule: life_run.induct) auto

lemma life_run_revision: "life_run e ss e' \<Longrightarrow> ex_revision e' = ex_revision e + of_nat (length ss)"
  by (induction rule: life_run.induct) (auto simp: Transition_Inr)

lemma life_run_state: "life_run e ss e' \<Longrightarrow> ex_state e' = (if ss = [] then ex_state e else last ss)"
  by (induction rule: life_run.induct) (auto simp: Transition_Inr)

lemma life_run_forwarding:
  assumes "life_run e ss e'" and "ex_state e = StateForwarding"
  shows "length ss \<le> 1 \<and> (ss \<noteq> [] \<longrightarrow> IsTerminal (ex_state e') \<and> 0 \<le> ex_duration e' \<and> mono_ns (ex_completed e') = None)"
  using assms(1)
proof (cases rule: life_run.cases)
  case (life_next s at e1 ss1)
  then have "validTransition StateForwarding s"
    using Transition_Inr(1) [OF life_next(2)] assms(2) by simp
  then have fin: "IsTerminal s" by auto
  then have "IsTerminal (ex_state e1)"
    using Transition_Inr(2) [OF life_next(2)] by simp
  with life_run_terminal [OF life_next(3)] have "ss1 = []" "e' = e1" by simp_all
  with Transition_terminal [OF life_next(2) fin] \<open>IsTerminal (ex_state e1)\<close> life_next(1)
  show ?thesis by simp
qed (simp add: assms)

lemma life_run_receiving:
  assumes "life_run e ss e'" and "ex_state e = StateReceiving"
  shows "length ss \<le> 2 \<and> (ss \<noteq> [] \<and> ss \<noteq> [StateForwarding] \<longrightarrow>
    IsTerminal (ex_state e') \<and> 0 \<le> ex_duration e' \<and> mono_ns (ex_completed e') = None)"
  using assms(1)
proof (cases rule: life_run.cases)
  case (life_next s at e1 ss1)
  note st = Transition_Inr(2) [OF life_next(2)]
  show ?thesis
  proof (cases "s = StateForwarding")
    case True
    with st life_run_forwarding [OF life_next(3)] life_next(1) show ?thesis by auto
  next
    case False
    with Transition_Inr(1) [OF life_next(2)] assms(2) have fin: "IsTerminal s" by auto
    with st life_run_terminal [OF life_next(3)] have "ss1 = []" "e' = e1" by simp_all
    with Transition_terminal [OF life_next(2) fin] fin st life_next(1) show ?thesis by simp
  qed
qed (simp add: assms)

section \<open>Sample values for the witnesses\<close>

definition sample_config :: config where
  "sample_config = Defaults\<lparr>cf_upstream := \<lparr>up_url = ''http://u'', up_timeout = second_ns\<rparr>\<rparr>"

definition blank_request :: request where
  "blank_request = \<lparr>rq_method = ''GET'', rq_scheme = ''http'', rq_protocol = ''HTTP/1.1'',
     rq_host = ''h'', rq_target = ''/'', rq_path = ''/'', rq_raw_query = [], rq_remote_address = [],
     rq_headers = [], rq_content_type = [], rq_body = [], rq_observed = 0, rq_complete = False,
     rq_header_bytes = 0, rq_preview = [], rq_preview_truncated = False,
     rq_decoded_preview = None, rq_preview_error = []\<rparr>"

definition sample_exchange :: "string \<Rightarrow> xstate \<Rightarrow> int \<Rightarrow> int \<Rightarrow> exchange" where
  "sample_exchange i s started completed = \<lparr>ex_id = i, ex_transport = TransportHTTP,
     ex_mode = ModeCapture, ex_config_revision = 1,
     ex_configuration = NewConfigSnapshot sample_config 1, ex_revision = 1, ex_state = s,
     ex_started = wall_time started, ex_completed = wall_time completed, ex_duration = 0,
     ex_request = blank_request, ex_datagram = None, ex_response = None, ex_upstream = [],
     ex_upstream_header_bytes = 0, ex_upstream_body_bytes = 0, ex_timing = None, ex_error = None,
     ex_delivery = \<lparr>dd_status = 0, dd_body_bytes = 0, dd_error = []\<rparr>, ex_persistence = None,
     ex_started_mono = zero_time\<rparr>"

lemma sample_exchange_sel [simp]:
  "ex_id (sample_exchange i s a c) = i" "ex_state (sample_exchange i s a c) = s"
  "ex_started (sample_exchange i s a c) = wall_time a"
  "ex_completed (sample_exchange i s a c) = wall_time c"
  "ex_started_mono (sample_exchange i s a c) = zero_time"
  by (simp_all add: sample_exchange_def)

section \<open>Properties\<close>

text \<open>
  C30. Life cycle: any sequence of accepted \<open>Transition\<close> calls on an exchange that is receiving
  has at most two steps; unless it only moved to forwarding it ends in a terminal state with a
  UTC completion time and a non-negative duration; the revision counts the steps; and a
  terminal exchange accepts no further transition.
\<close>

theorem exchange_lifecycle:
  assumes "life_run e ss e'" and "ex_state e = StateReceiving"
  shows "length ss \<le> 2 \<and> ex_revision e' = ex_revision e + of_nat (length ss) \<and>
    (ss = [] \<or> ss = [StateForwarding] \<or>
      IsTerminal (ex_state e') \<and> 0 \<le> ex_duration e' \<and> mono_ns (ex_completed e') = None
        \<and> (\<forall>s at. Transition e' s at = Inl (InvalidTransition (ex_state e') s)))"
  using life_run_receiving [OF assms] life_run_revision [OF assms(1)] by auto

theorem exchange_lifecycle_witness:
  "\<exists>e'. life_run (sample_exchange ''a'' StateReceiving 1 0) [StateForwarding, StateCompleted] e'
     \<and> length [StateForwarding, StateCompleted] \<le> 2"
proof -
  let ?e = "sample_exchange ''a'' StateReceiving 1 0"
  obtain e1 where e1: "Transition ?e StateForwarding (wall_time 5) = Inr e1"
    using Transition_ok [of ?e StateForwarding "wall_time 5"] by auto
  obtain e2 where e2: "Transition e1 StateCompleted (wall_time 7) = Inr e2"
    using Transition_ok [of e1 StateCompleted "wall_time 7"] Transition_Inr(2) [OF e1] by auto
  have run: "life_run ?e [StateForwarding, StateCompleted] e2"
    using e1 e2 by (blast intro: life_run.intros)
  with exchange_lifecycle [OF run] show ?thesis by auto
qed

text \<open>
  The duration of an exchange is measured on the monotonic clock: when the start and the end
  both carry a monotonic reading, the recorded duration depends on nothing but their difference
  (clipped to \<open>0 \<dots> MaxInt64\<close>), whatever the wall clock shows at the end.
\<close>

theorem duration_is_monotonic:
  assumes "Transition e s at = Inr e'" and "IsTerminal s"
    and "\<not> is_zero (ex_started_mono e)"
    and "mono_ns (ex_started_mono e) = Some m0" and "mono_ns at = Some m1"
  shows "ex_duration e' = min max_i64 (max 0 (m1 - m0))"
  using assms
  by (auto simp: Transition_def Let_def time_sub_def time_diff_def clamp_i64_def max_i64_def min_i64_def
      split: if_splits)

theorem duration_is_monotonic_witness:
  "\<exists>e'. Transition ((sample_exchange ''a'' StateReceiving 9 0)\<lparr>ex_started_mono := \<lparr>wall_ns = 9, mono_ns = Some 5\<rparr>\<rparr>)
      StateFailed \<lparr>wall_ns = 2, mono_ns = Some 8\<rparr> = Inr e' \<and> ex_duration e' = 3"
proof -
  let ?e = "(sample_exchange ''a'' StateReceiving 9 0)\<lparr>ex_started_mono := \<lparr>wall_ns = 9, mono_ns = Some 5\<rparr>\<rparr>"
  let ?at = "\<lparr>wall_ns = 2, mono_ns = Some 8\<rparr> :: gotime"
  obtain e' where t: "Transition ?e StateFailed ?at = Inr e'"
    using Transition_ok [of ?e StateFailed ?at] by auto
  have "ex_duration e' = min max_i64 (max 0 (8 - 5))"
    by (rule duration_is_monotonic [OF t]) (simp_all add: is_zero_def)
  with t show ?thesis by (auto simp: max_i64_def)
qed

text \<open>
  Copies are faithful: \<open>Exchange.Clone\<close> (with the copies of the snapshot, the request, the
  datagram, the response and the eleven timing fields it is made of) loses and swaps nothing.
\<close>

theorem clone_is_faithful: "clone_exchange e = e"
  by simp

text \<open>
  Exchange IDs: \<open>NewID\<close> turns 16 random bytes into 32 lower-case hexadecimal digits, and
  different random bytes into different IDs.
\<close>

theorem new_id_injective:
  assumes "length as = 16" and "length bs = 16"
    and "NewID (Some as) = Inr i" and "NewID (Some bs) = Inr j"
  shows "length i = 32 \<and> list_all (\<lambda>c. c \<in> set ''0123456789abcdef'') i \<and> (i = j \<longleftrightarrow> as = bs)"
  using assms hex_encode_chars [of as] by (auto simp: NewID_def hex_encode_length dest: hex_encode_inj)

theorem new_id_injective_witness:
  "\<exists>i j. NewID (Some (replicate 16 0)) = Inr i \<and> NewID (Some (replicate 16 1)) = Inr j
     \<and> length i = 32 \<and> i \<noteq> j"
proof -
  have i: "NewID (Some (replicate 16 0)) = Inr (hex_encode (replicate 16 0))"
    and j: "NewID (Some (replicate 16 1)) = Inr (hex_encode (replicate 16 1))"
    by (simp_all add: NewID_def)
  have "(replicate 16 0 :: 8 word list) \<noteq> replicate 16 1" by simp
  with new_id_injective [OF _ _ i j] i j show ?thesis by auto
qed

end
