(* ===== verification/Capture_Body.thy ===== *)
theory Capture_Body
  imports Exchange_Model
begin

text \<open>
  The parts of \<open>internal/capture\<close> around a request and its response: \<open>ReadBody\<close> of
  \<open>body.go\<close>, the previews, the response writer and the capture mode handler of \<open>handler.go\<close>.

  An \<open>io.Reader\<close> is the bytes it delivers and how it ends: \<open>None\<close> for end of file, or an error
  reported by a later call than the last byte. An \<open>http.ResponseWriter\<close> follows \<open>net/http\<close>: the
  first final status wins and fixes the headers, an informational status (100 to 199, except
  101) is sent and does not count, and the connection takes a limited number of body bytes
  (\<open>None\<close> for any number) before a write fails.
\<close>

section \<open>Reading a body\<close>

record reader =
  rd_data :: bytes
  rd_error :: "string option"

text \<open>\<open>io.ReadAll(io.LimitReader(reader, n))\<close>.\<close>

definition limited_read_all :: "reader \<Rightarrow> int \<Rightarrow> bytes \<times> string option" where
  "limited_read_all rd n =
     (if n \<le> 0 then ([], None)
      else if n \<le> int (length (rd_data rd)) then (take (nat n) (rd_data rd), None)
      else (rd_data rd, rd_error rd))"

definition ReadBody :: "reader \<Rightarrow> int \<Rightarrow> bytes \<times> int \<times> go_error option" where
  "ReadBody rd limit =
     (if limit \<le> 0 then ([], 0, Some (Plain ''body limit must be positive''))
      else case limited_read_all rd (wrap_i64 (limit + 1)) of
          (data, Some err) \<Rightarrow> ([], int (length data), Some (Wrapped ''read request body'' (Plain err)))
        | (data, None) \<Rightarrow>
            let observed = int (length data)
            in if observed > limit then (take (nat limit) data, observed, Some BodyTooLarge)
               else (data, observed, None))"

definition preview :: "bytes \<Rightarrow> preview_settings \<Rightarrow> bytes \<times> bool" where
  "preview body settings =
     (if \<not> pv_enabled settings \<or> int (length body) \<le> pv_bytes settings then ([] @ body, False)
      else ([] @ take (nat (pv_bytes settings)) body, True))"

section \<open>Writing a response\<close>

record downstream_response =
  dr_status :: int
  dr_headers :: header
  dr_body :: bytes

record response_writer =
  rw_header :: header
  rw_informational :: "int list"
  rw_sent :: "(int \<times> header) option"
  rw_output :: bytes
  rw_capacity :: "nat option"

definition fresh_writer :: "nat option \<Rightarrow> response_writer" where
  "fresh_writer capacity = \<lparr>rw_header = [], rw_informational = [], rw_sent = None, rw_output = [], rw_capacity = capacity\<rparr>"

definition add_header :: "response_writer \<Rightarrow> string \<Rightarrow> string \<Rightarrow> response_writer" where
  "add_header w name value = w\<lparr>rw_header := hdr_add (rw_header w) name value\<rparr>"

definition WriteHeader :: "response_writer \<Rightarrow> int \<Rightarrow> response_writer" where
  "WriteHeader w status =
     (if rw_sent w \<noteq> None then w
      else if 100 \<le> status \<and> status \<le> 199 \<and> status \<noteq> 101
      then w\<lparr>rw_informational := rw_informational w @ [status]\<rparr>
      else w\<lparr>rw_sent := Some (status, rw_header w)\<rparr>)"

definition Write :: "response_writer \<Rightarrow> bytes \<Rightarrow> response_writer \<times> int \<times> string option" where
  "Write w0 data =
     (let w = (if rw_sent w0 = None then WriteHeader w0 200 else w0)
      in case rw_capacity w of
           None \<Rightarrow> (w\<lparr>rw_output := rw_output w @ data\<rparr>, int (length data), None)
         | Some room \<Rightarrow>
             let n = min room (length data)
             in (w\<lparr>rw_output := rw_output w @ take n data, rw_capacity := Some (room - n)\<rparr>, int n,
                 if n < length data then Some ''short write'' else None))"

definition normalizedStatus :: "int \<Rightarrow> int" where
  "normalizedStatus status = (if status < 100 \<or> status > 599 then 200 else status)"

definition bodiless :: "int \<Rightarrow> bool" where
  "bodiless status \<longleftrightarrow> status = 204 \<or> status = 205 \<or> status = 304 \<or> status \<ge> 100 \<and> status < 200"

fun add_headers :: "response_writer \<Rightarrow> header \<Rightarrow> response_writer" where
  "add_headers w [] = w"
| "add_headers w ((name, values) # h) = add_headers (foldl (\<lambda>w value. add_header w name value) w values) h"

definition writeDownstream :: "response_writer \<Rightarrow> downstream_response \<Rightarrow> response_writer \<times> int \<times> string option" where
  "writeDownstream w0 response =
     (let w1 = add_headers w0 (dr_headers response);
          status = normalizedStatus (dr_status response);
          w2 = WriteHeader w1 status
      in if dr_body response = [] \<or> bodiless status then (w2, 0, None)
         else case Write w2 (dr_body response) of
             (w3, written, Some err) \<Rightarrow> (w3, written, Some (''write downstream response: '' @ err))
           | (w3, written, None) \<Rightarrow> (w3, written, None))"

text \<open>The JSON text of a string, as \<open>encoding/json\<close> writes it (valid UTF-8, HTML characters escaped).\<close>

definition json_char :: "char \<Rightarrow> string" where
  "json_char c =
     (if code_of c = 34 then [CHR 92, CHR 34] else if code_of c = 92 then [CHR 92, CHR 92]
      else if code_of c = 10 then CHR 92 # ''n'' else if code_of c = 13 then CHR 92 # ''r''
      else if code_of c = 9 then CHR 92 # ''t'' else if code_of c = 8 then CHR 92 # ''b''
      else if code_of c = 12 then CHR 92 # ''f''
      else if code_of c < 32 \<or> c \<in> set ''<>&''
      then CHR 92 # ''u00'' @ [hex_digit (code_of c div 16), hex_digit (code_of c mod 16)]
      else [c])"

definition json_string :: "string \<Rightarrow> string" where
  "json_string s = [CHR 34] @ concat (map json_char s) @ [CHR 34]"

definition pipelineErrorResponse :: "int \<Rightarrow> string \<Rightarrow> string \<Rightarrow> downstream_response" where
  "pipelineErrorResponse status code message =
     \<lparr>dr_status = status, dr_headers = [(''Content-Type'', [''application/json''])],
      dr_body = ''{'' @ json_string ''code'' @ '':'' @ json_string code @ '','' @
        json_string ''message'' @ '':'' @ json_string message @ ''}'' @ [CHR 10]\<rparr>"

definition writePipelineError :: "response_writer \<Rightarrow> int \<Rightarrow> string \<Rightarrow> string \<Rightarrow> response_writer" where
  "writePipelineError w status code message = fst (writeDownstream w (pipelineErrorResponse status code message))"

section \<open>Mode results and the capture handler\<close>

record inspection =
  in_preview :: bytes
  in_truncated :: bool
  in_decoded :: "int option"
  in_error :: string

record mode_result =
  mr_response :: downstream_response
  mr_captured :: "response option"
  mr_upstream :: string
  mr_timing :: "proxy_timing option"
  mr_inspection :: "inspection option"
  mr_header_bytes :: int
  mr_body_bytes :: int

definition captureResponseAllowsBody :: "string \<Rightarrow> int \<Rightarrow> bool" where
  "captureResponseAllowsBody method status =
     (if method = ''HEAD'' then False else status \<noteq> 204 \<and> status \<noteq> 205 \<and> status \<noteq> 304)"

definition CaptureHandler_Handle :: "request \<Rightarrow> config_snapshot \<Rightarrow> mode_result \<times> go_error option" where
  "CaptureHandler_Handle rq snapshot =
     (let body = cap_body (cs_capture snapshot);
          body = (if \<not> captureResponseAllowsBody (rq_method rq) (cap_status (cs_capture snapshot)) then [] else body)
      in (\<lparr>mr_response = \<lparr>dr_status = cap_status (cs_capture snapshot),
             dr_headers = clone_headers (cap_headers (cs_capture snapshot)), dr_body = body\<rparr>,
           mr_captured = None, mr_upstream = [], mr_timing = None, mr_inspection = None,
           mr_header_bytes = 0, mr_body_bytes = 0\<rparr>, None))"

section \<open>Lemmas\<close>

lemma wrap_Suc_limit: "0 < limit \<Longrightarrow> limit < max_i64 \<Longrightarrow> wrap_i64 (limit + 1) = limit + 1"
  by (rule wrap_i64_id) (simp add: in_i64_def min_i64_def)

lemma ReadBody_cases:
  assumes "0 < limit" and "limit < max_i64"
  shows "ReadBody rd limit =
    (if limit < int (length (rd_data rd)) then (take (nat limit) (rd_data rd), limit + 1, Some BodyTooLarge)
     else case rd_error rd of
         None \<Rightarrow> (rd_data rd, int (length (rd_data rd)), None)
       | Some err \<Rightarrow> ([], int (length (rd_data rd)), Some (Wrapped ''read request body'' (Plain err))))"
  using assms
  by (auto simp: ReadBody_def limited_read_all_def wrap_Suc_limit Let_def min_def split: option.splits)

lemma preview_prefix: "fst (preview body s) = take (length (fst (preview body s))) body"
  by (auto simp: preview_def min_def)

lemma normalizedStatus_range [simp]: "100 \<le> normalizedStatus s" "normalizedStatus s \<le> 599"
  by (simp_all add: normalizedStatus_def)

lemma normalizedStatus_id: "100 \<le> s \<Longrightarrow> s \<le> 599 \<Longrightarrow> normalizedStatus s = s"
  by (simp add: normalizedStatus_def)

lemma pipelineErrorResponse_sel [simp]:
  "dr_status (pipelineErrorResponse s c m) = s" "dr_body (pipelineErrorResponse s c m) \<noteq> []"
  by (simp_all add: pipelineErrorResponse_def)

lemma add_headers_sel [simp]:
  "rw_sent (foldl (\<lambda>w value. add_header w name value) w vs) = rw_sent w"
  "rw_capacity (foldl (\<lambda>w value. add_header w name value) w vs) = rw_capacity w"
  "rw_output (foldl (\<lambda>w value. add_header w name value) w vs) = rw_output w"
  by (induction vs arbitrary: w) (simp_all add: add_header_def)

lemma add_all_headers_sel [simp]:
  "rw_sent (add_headers w hs) = rw_sent w"
  "rw_capacity (add_headers w hs) = rw_capacity w"
  "rw_output (add_headers w hs) = rw_output w"
  by (induction w hs rule: add_headers.induct) simp_all

text \<open>What a first response puts on the connection.\<close>

definition fits :: "response_writer \<Rightarrow> downstream_response \<Rightarrow> bool" where
  "fits w response \<longleftrightarrow> bodiless (normalizedStatus (dr_status response))
     \<or> (case rw_capacity w of None \<Rightarrow> True | Some room \<Rightarrow> length (dr_body response) \<le> room)"

lemma writeDownstream_error: "snd (snd (writeDownstream w response)) = None \<longleftrightarrow> fits w response"
  by (auto simp: writeDownstream_def Write_def WriteHeader_def fits_def Let_def split: option.splits)

lemma writeDownstream_sent:
  assumes "rw_sent w = None" and "200 \<le> normalizedStatus (dr_status response)"
  shows "map_option fst (rw_sent (fst (writeDownstream w response))) = Some (normalizedStatus (dr_status response))"
  using assms
  by (auto simp: writeDownstream_def Write_def WriteHeader_def Let_def split: option.splits)

lemma writeDownstream_keeps_sent:
  "rw_sent w = Some x \<Longrightarrow> rw_sent (fst (writeDownstream w response)) = Some x"
  by (auto simp: writeDownstream_def Write_def WriteHeader_def Let_def split: option.splits)

lemma WriteHeader_sel [simp]:
  "rw_output (WriteHeader w n) = rw_output w" "rw_capacity (WriteHeader w n) = rw_capacity w"
  by (simp_all add: WriteHeader_def)

lemma Write_output:
  assumes "Write w data = (w', n, err)"
  shows "rw_output w' = rw_output w @ take (nat n) data \<and> 0 \<le> n \<and> n \<le> int (length data)
    \<and> (err = None \<longleftrightarrow> n = int (length data))"
proof -
  define v where "v = (if rw_sent w = None then WriteHeader w 200 else w)"
  then have v: "rw_output v = rw_output w" by simp
  show ?thesis
    using assms v by (cases "rw_capacity v") (auto simp: Write_def v_def [symmetric] Let_def min_def split: if_splits)
qed

lemma writeDownstream_output:
  assumes "writeDownstream w response = (w', n, err)"
  shows "rw_output w' = rw_output w @ take (nat n) (dr_body response) \<and> 0 \<le> n \<and> n \<le> int (length (dr_body response))
    \<and> (err = None \<and> \<not> bodiless (normalizedStatus (dr_status response)) \<longrightarrow> n = int (length (dr_body response)))"
proof -
  define v where "v = WriteHeader (add_headers w (dr_headers response)) (normalizedStatus (dr_status response))"
  then have v: "rw_output v = rw_output w" by simp
  obtain x n' err' where x: "Write v (dr_body response) = (x, n', err')" by (cases "Write v (dr_body response)")
  from Write_output [OF x] v x assms show ?thesis
    by (auto simp: writeDownstream_def Let_def v_def [symmetric] split: option.splits if_splits)
qed

end
