(* ===== verification/Event_Bus.thy ===== *)
theory Event_Bus
  imports Exchange_Model
begin

text \<open>
  The event bus of \<open>internal/events/bus.go\<close>: numbered envelopes, a replay window bounded by
  count and bytes, and subscribers with bounded queues that are disconnected, never waited for.

  Subscriber objects live in a heap indexed by their pointer; the Go map \<open>subscribers\<close> is the
  list of the pointers it holds, in an arbitrary order. Each subscriber has a forwarding
  goroutine, modelled by the steps \<open>Take\<close>, \<open>Deliver\<close>, \<open>Ack\<close> and \<open>Exit\<close> that interleave with the
  operations under the mutex. The JSON encoder, of which the bus uses only the length of its
  output, is the parameter \<open>marshal\<close> (\<open>None\<close> for an encoding error).
\<close>

section \<open>Data\<close>

datatype event_type =
    ExchangeStarted | RequestCompleted | ResponseCompleted | ExchangeFailed | ExchangeEvicted
  | ExchangeDeleted | HistoryCleared | ConfigChanged

text \<open>The payloads the program puts into \<open>Envelope.Data\<close>.\<close>

datatype event_data =
    NoData
  | RequestData int int bytes bool
  | ResponseData int int "proxy_timing option"
  | ErrorData "exchange_error option"
  | RemovedData int
  | DatagramData int
  | DeliveryData string

record envelope =
  ev_schema :: int
  ev_id :: string
  ev_timestamp :: gotime
  ev_type :: event_type
  ev_exchange_id :: string
  ev_revision :: u64
  ev_data :: event_data

record bus_limits =
  bl_replay_count :: int
  bl_replay_bytes :: int
  bl_subscriber_count :: int
  bl_subscriber_bytes :: int

record queued_envelope =
  qe_envelope :: envelope
  qe_size :: int

text \<open>
  \<open>sub_held\<close> is the envelope the forwarder has received and not yet passed on, \<open>sub_unacked\<close>
  one it has passed on and not yet taken off the pending counters, \<open>sub_events\<close> all it passed on.
\<close>

record subscriber =
  sub_queue :: "queued_envelope list"
  sub_held :: "queued_envelope option"
  sub_unacked :: "queued_envelope option"
  sub_events :: "envelope list"
  sub_done :: bool
  sub_exited :: bool
  sub_pending_count :: int
  sub_pending_bytes :: int

record bus =
  bus_limits :: bus_limits
  bus_next_id :: u64
  bus_replay :: "queued_envelope list"
  bus_replay_bytes :: int
  bus_subscribers :: "nat list"
  bus_heap :: "nat \<Rightarrow> subscriber"
  bus_fresh :: nat

record subscription =
  sc_target :: nat
  sc_replay :: "envelope list"
  sc_reset :: bool

section \<open>Operations\<close>

definition SchemaVersion :: int where
  "SchemaVersion = 1"

definition normalizedLimits :: "bus_limits \<Rightarrow> bus_limits" where
  "normalizedLimits l = l\<lparr>
     bl_replay_count := (if bl_replay_count l < 1 then 1 else bl_replay_count l),
     bl_replay_bytes := (if bl_replay_bytes l < 1 then 1 else bl_replay_bytes l),
     bl_subscriber_count := (if bl_subscriber_count l < 1 then 1 else bl_subscriber_count l),
     bl_subscriber_bytes := (if bl_subscriber_bytes l < 1 then 1 else bl_subscriber_bytes l)\<rparr>"

definition new_subscriber :: subscriber where
  "new_subscriber = \<lparr>sub_queue = [], sub_held = None, sub_unacked = None, sub_events = [],
     sub_done = False, sub_exited = False, sub_pending_count = 0, sub_pending_bytes = 0\<rparr>"

definition NewBus :: "bus_limits \<Rightarrow> bus" where
  "NewBus l = \<lparr>bus_limits = normalizedLimits l, bus_next_id = 0, bus_replay = [],
     bus_replay_bytes = 0, bus_subscribers = [], bus_heap = (\<lambda>_. new_subscriber), bus_fresh = 0\<rparr>"

definition envelopeSize :: "(envelope \<Rightarrow> nat option) \<Rightarrow> envelope \<Rightarrow> int" where
  "envelopeSize marshal e = (case marshal e of None \<Rightarrow> 1 | Some n \<Rightarrow> int n)"

fun trim_loop :: "bus_limits \<Rightarrow> queued_envelope list \<Rightarrow> int \<Rightarrow> queued_envelope list \<times> int" where
  "trim_loop l [] bytes = ([], bytes)"
| "trim_loop l (q # qs) bytes =
     (if int (length (q # qs)) > bl_replay_count l \<or> bytes > bl_replay_bytes l
      then trim_loop l qs (bytes - qe_size q)
      else (q # qs, bytes))"

definition trimReplay :: "bus \<Rightarrow> bus" where
  "trimReplay b = (let (r, n) = trim_loop (bus_limits b) (bus_replay b) (bus_replay_bytes b)
                   in b\<lparr>bus_replay := r, bus_replay_bytes := n\<rparr>)"

definition disconnect :: "nat \<Rightarrow> bus \<Rightarrow> bus" where
  "disconnect i b =
     (if i \<notin> set (bus_subscribers b) then b
      else b\<lparr>bus_subscribers := remove1 i (bus_subscribers b),
             bus_heap := (bus_heap b)(i := (bus_heap b i)\<lparr>sub_done := True\<rparr>)\<rparr>)"

text \<open>The body of \<open>Publish\<close>'s loop over the subscribers.\<close>

definition offer :: "queued_envelope \<Rightarrow> bus \<Rightarrow> nat \<Rightarrow> bus" where
  "offer q b i =
     (let s = bus_heap b i; l = bus_limits b; size = qe_size q
      in if size > bl_subscriber_bytes l \<or> sub_pending_count s \<ge> bl_subscriber_count l
            \<or> sub_pending_bytes s + size > bl_subscriber_bytes l
         then disconnect i b
         else
           let s1 = s\<lparr>sub_pending_count := sub_pending_count s + 1,
                      sub_pending_bytes := sub_pending_bytes s + size\<rparr>
           in if int (length (sub_queue s1)) < bl_subscriber_count l
              then b\<lparr>bus_heap := (bus_heap b)(i := s1\<lparr>sub_queue := sub_queue s1 @ [q]\<rparr>)\<rparr>
              else disconnect i (b\<lparr>bus_heap := (bus_heap b)(i := s1)\<rparr>))"

definition stamp :: "bus \<Rightarrow> gotime \<Rightarrow> envelope \<Rightarrow> envelope" where
  "stamp b now e = e\<lparr>ev_schema := SchemaVersion,
     ev_id := format_nat (unat (bus_next_id b + 1)), ev_timestamp := utc now\<rparr>"

definition Publish :: "(envelope \<Rightarrow> nat option) \<Rightarrow> bus \<Rightarrow> gotime \<Rightarrow> envelope \<Rightarrow> bus \<times> envelope" where
  "Publish marshal b now e =
     (let envelope = stamp b now e;
          queued = \<lparr>qe_envelope = envelope, qe_size = envelopeSize marshal envelope\<rparr>;
          b1 = b\<lparr>bus_next_id := bus_next_id b + 1,
                 bus_replay := bus_replay b @ [queued],
                 bus_replay_bytes := bus_replay_bytes b + qe_size queued\<rparr>;
          b2 = trimReplay b1
      in (foldl (offer queued) b2 (bus_subscribers b2), envelope))"

fun replay_from :: "string \<Rightarrow> queued_envelope list \<Rightarrow> envelope list option" where
  "replay_from after [] = None"
| "replay_from after (q # qs) =
     (if ev_id (qe_envelope q) = after then Some (map qe_envelope qs) else replay_from after qs)"

definition replayAfter :: "bus \<Rightarrow> string \<Rightarrow> envelope list \<times> bool" where
  "replayAfter b after =
     (if after = [] then (map qe_envelope (bus_replay b), False)
      else (case replay_from after (bus_replay b) of
              Some r \<Rightarrow> (r, False)
            | None \<Rightarrow> ([], True)))"

definition Subscribe :: "bus \<Rightarrow> string \<Rightarrow> bus \<times> subscription" where
  "Subscribe b after =
     (let (replay, reset) = replayAfter b after; i = bus_fresh b
      in (b\<lparr>bus_subscribers := i # bus_subscribers b,
            bus_heap := (bus_heap b)(i := new_subscriber),
            bus_fresh := i + 1\<rparr>,
          \<lparr>sc_target = i, sc_replay = replay, sc_reset = reset\<rparr>))"

text \<open>
  \<open>SubscribeWithSnapshot\<close> reads the snapshot, the cursor and the subscription under one lock.
\<close>

definition SubscribeWithSnapshot :: "bus \<Rightarrow> 'a \<Rightarrow> bus \<times> subscription \<times> 'a \<times> string" where
  "SubscribeWithSnapshot b snapshot =
     (let cursor = (if bus_replay b \<noteq> [] then ev_id (qe_envelope (last (bus_replay b))) else []);
          (b1, sc) = Subscribe b cursor
      in (b1, sc, snapshot, cursor))"

section \<open>The forwarding goroutine\<close>

definition heap_update :: "nat \<Rightarrow> (subscriber \<Rightarrow> subscriber) \<Rightarrow> bus \<Rightarrow> bus" where
  "heap_update i f b = b\<lparr>bus_heap := (bus_heap b)(i := f (bus_heap b i))\<rparr>"

definition idle :: "subscriber \<Rightarrow> bool" where
  "idle s \<longleftrightarrow> sub_held s = None \<and> sub_unacked s = None \<and> \<not> sub_exited s"

inductive forward_step :: "nat \<Rightarrow> bus \<Rightarrow> bus \<Rightarrow> bool" where
  Take: "idle (bus_heap b i) \<Longrightarrow> sub_queue (bus_heap b i) = q # qs \<Longrightarrow>
    forward_step i b (heap_update i (\<lambda>s. s\<lparr>sub_queue := qs, sub_held := Some q\<rparr>) b)"
| Deliver: "sub_held (bus_heap b i) = Some q \<Longrightarrow> sub_unacked (bus_heap b i) = None \<Longrightarrow>
    forward_step i b (heap_update i (\<lambda>s. s\<lparr>sub_held := None, sub_unacked := Some q,
      sub_events := sub_events s @ [qe_envelope q]\<rparr>) b)"
| Ack: "sub_unacked (bus_heap b i) = Some q \<Longrightarrow>
    forward_step i b (heap_update i (\<lambda>s. s\<lparr>sub_unacked := None,
      sub_pending_count := sub_pending_count s - 1,
      sub_pending_bytes := sub_pending_bytes s - qe_size q\<rparr>) b)"
| Exit: "sub_done (bus_heap b i) \<Longrightarrow> sub_unacked (bus_heap b i) = None \<Longrightarrow> \<not> sub_exited (bus_heap b i) \<Longrightarrow>
    forward_step i b (heap_update i (\<lambda>s. s\<lparr>sub_held := None, sub_exited := True\<rparr>) b)"

inductive_cases forward_stepE: "forward_step i b b'"

section \<open>Publication in closed form\<close>

definition admits :: "bus_limits \<Rightarrow> queued_envelope \<Rightarrow> subscriber \<Rightarrow> bool" where
  "admits l q s \<longleftrightarrow> qe_size q \<le> bl_subscriber_bytes l \<and> sub_pending_count s < bl_subscriber_count l
     \<and> sub_pending_bytes s + qe_size q \<le> bl_subscriber_bytes l"

definition enqueue :: "queued_envelope \<Rightarrow> subscriber \<Rightarrow> subscriber" where
  "enqueue q s = s\<lparr>sub_pending_count := sub_pending_count s + 1,
     sub_pending_bytes := sub_pending_bytes s + qe_size q, sub_queue := sub_queue s @ [q]\<rparr>"

text \<open>The queue holds no more than the pending count says: the channel cannot be full.\<close>

definition queue_counted :: "subscriber \<Rightarrow> bool" where
  "queue_counted s \<longleftrightarrow> int (length (sub_queue s)) \<le> sub_pending_count s"

lemma offer_admits:
  assumes "admits (bus_limits b) q (bus_heap b i)" and "queue_counted (bus_heap b i)"
  shows "offer q b i = b\<lparr>bus_heap := (bus_heap b)(i := enqueue q (bus_heap b i))\<rparr>"
  using assms by (auto simp: offer_def Let_def admits_def enqueue_def queue_counted_def)

lemma offer_rejects:
  "\<not> admits (bus_limits b) q (bus_heap b i) \<Longrightarrow> offer q b i = disconnect i b"
  by (auto simp: offer_def Let_def admits_def)

definition offered :: "bus_limits \<Rightarrow> queued_envelope \<Rightarrow> subscriber \<Rightarrow> subscriber" where
  "offered l q s = (if admits l q s then enqueue q s else s\<lparr>sub_done := True\<rparr>)"

lemma foldl_offer:
  assumes "distinct xs" and "set xs \<subseteq> set (bus_subscribers b)" and "distinct (bus_subscribers b)"
    and "\<And>i. i \<in> set xs \<Longrightarrow> queue_counted (bus_heap b i)"
  shows "foldl (offer q) b xs = b\<lparr>
    bus_subscribers := filter (\<lambda>i. i \<in> set xs \<longrightarrow> admits (bus_limits b) q (bus_heap b i)) (bus_subscribers b),
    bus_heap := (\<lambda>i. if i \<in> set xs then offered (bus_limits b) q (bus_heap b i) else bus_heap b i)\<rparr>"
  using assms
proof (induction xs arbitrary: b)
  case Nil
  show ?case by simp
next
  case (Cons i xs)
  show ?case
  proof (cases "admits (bus_limits b) q (bus_heap b i)")
    case True
    with Cons.prems have o: "offer q b i = b\<lparr>bus_heap := (bus_heap b)(i := enqueue q (bus_heap b i))\<rparr>"
      by (intro offer_admits) auto
    have "foldl (offer q) (offer q b i) xs = (offer q b i)\<lparr>
      bus_subscribers := filter (\<lambda>j. j \<in> set xs \<longrightarrow> admits (bus_limits (offer q b i)) q (bus_heap (offer q b i) j)) (bus_subscribers (offer q b i)),
      bus_heap := (\<lambda>j. if j \<in> set xs then offered (bus_limits (offer q b i)) q (bus_heap (offer q b i) j) else bus_heap (offer q b i) j)\<rparr>"
      using Cons.prems by (intro Cons.IH) (auto simp: o)
    with True Cons.prems(1) show ?thesis
      by (auto simp: o offered_def fun_eq_iff intro!: bus.equality filter_cong)
  next
    case False
    with Cons.prems have o: "offer q b i = b\<lparr>bus_subscribers := filter ((\<noteq>) i) (bus_subscribers b),
        bus_heap := (bus_heap b)(i := (bus_heap b i)\<lparr>sub_done := True\<rparr>)\<rparr>"
      by (simp add: offer_rejects disconnect_def distinct_remove1_removeAll removeAll_filter_not_eq)
    have "foldl (offer q) (offer q b i) xs = (offer q b i)\<lparr>
      bus_subscribers := filter (\<lambda>j. j \<in> set xs \<longrightarrow> admits (bus_limits (offer q b i)) q (bus_heap (offer q b i) j)) (bus_subscribers (offer q b i)),
      bus_heap := (\<lambda>j. if j \<in> set xs then offered (bus_limits (offer q b i)) q (bus_heap (offer q b i) j) else bus_heap (offer q b i) j)\<rparr>"
      using Cons.prems by (intro Cons.IH) (auto simp: o)
    with False Cons.prems(1) show ?thesis
      by (auto simp: o offered_def fun_eq_iff intro!: bus.equality filter_cong)
  qed
qed

text \<open>The trimmed window is the longest suffix within both bounds.\<close>

definition total_size :: "queued_envelope list \<Rightarrow> int" where
  "total_size qs = sum_list (map qe_size qs)"

lemma total_size_simps [simp]:
  "total_size [] = 0" "total_size (q # qs) = qe_size q + total_size qs"
  "total_size (qs @ rs) = total_size qs + total_size rs"
  by (simp_all add: total_size_def)

definition within :: "bus_limits \<Rightarrow> queued_envelope list \<Rightarrow> bool" where
  "within l qs \<longleftrightarrow> qs = [] \<or> int (length qs) \<le> bl_replay_count l \<and> total_size qs \<le> bl_replay_bytes l"

lemma trim_loop_spec:
  assumes "trim_loop l qs (total_size qs) = (r, n)"
  shows "n = total_size r \<and> within l r \<and> (\<exists>k \<le> length qs. r = drop k qs \<and> (\<forall>j < k. \<not> within l (drop j qs)))"
  using assms
proof (induction qs arbitrary: r n)
  case Nil
  then show ?case by (auto simp: within_def)
next
  case (Cons q qs)
  show ?case
  proof (cases "int (length (q # qs)) > bl_replay_count l \<or> total_size (q # qs) > bl_replay_bytes l")
    case True
    with Cons.prems have "trim_loop l qs (total_size qs) = (r, n)" by simp
    from Cons.IH [OF this] obtain k where
      k: "n = total_size r" "within l r" "k \<le> length qs" "r = drop k qs" "\<forall>j < k. \<not> within l (drop j qs)"
      by blast
    have "\<forall>j < Suc k. \<not> within l (drop j (q # qs))"
    proof (intro allI impI)
      fix j assume "j < Suc k"
      with k(5) True show "\<not> within l (drop j (q # qs))"
        by (cases j) (auto simp: within_def)
    qed
    with k show ?thesis by (intro conjI exI [of _ "Suc k"]) auto
  next
    case False
    with Cons.prems have "r = q # qs" "n = total_size (q # qs)" by (auto split: if_splits)
    with False show ?thesis by (auto simp: within_def intro!: exI [of _ 0])
  qed
qed

lemma Publish_closed:
  assumes "distinct (bus_subscribers b)"
    and "\<And>i. i \<in> set (bus_subscribers b) \<Longrightarrow> queue_counted (bus_heap b i)"
    and "q = \<lparr>qe_envelope = stamp b now e, qe_size = envelopeSize marshal (stamp b now e)\<rparr>"
    and "trim_loop (bus_limits b) (bus_replay b @ [q]) (bus_replay_bytes b + qe_size q) = (r, n)"
  shows "Publish marshal b now e = (b\<lparr>bus_next_id := bus_next_id b + 1, bus_replay := r, bus_replay_bytes := n,
      bus_subscribers := filter (\<lambda>i. admits (bus_limits b) q (bus_heap b i)) (bus_subscribers b),
      bus_heap := (\<lambda>i. if i \<in> set (bus_subscribers b) then offered (bus_limits b) q (bus_heap b i) else bus_heap b i)\<rparr>,
    qe_envelope q)"
proof -
  let ?b1 = "b\<lparr>bus_next_id := bus_next_id b + 1, bus_replay := bus_replay b @ [q],
                 bus_replay_bytes := bus_replay_bytes b + qe_size q\<rparr>"
  let ?b2 = "b\<lparr>bus_next_id := bus_next_id b + 1, bus_replay := r, bus_replay_bytes := n\<rparr>"
  have t: "trimReplay ?b1 = ?b2"
    using assms(4) by (simp add: trimReplay_def)
  have f: "foldl (offer q) ?b2 (bus_subscribers ?b2) = ?b2\<lparr>
    bus_subscribers := filter (\<lambda>i. i \<in> set (bus_subscribers ?b2) \<longrightarrow> admits (bus_limits ?b2) q (bus_heap ?b2 i)) (bus_subscribers ?b2),
    bus_heap := (\<lambda>i. if i \<in> set (bus_subscribers ?b2) then offered (bus_limits ?b2) q (bus_heap ?b2 i) else bus_heap ?b2 i)\<rparr>"
    by (rule foldl_offer) (use assms(1,2) in auto)
  have "Publish marshal b now e = (foldl (offer q) (trimReplay ?b1) (bus_subscribers (trimReplay ?b1)), qe_envelope q)"
    by (simp add: Publish_def Let_def assms(3))
  also have "\<dots> = (foldl (offer q) ?b2 (bus_subscribers ?b2), qe_envelope q)" by (simp only: t)
  also note f
  finally show ?thesis
    by (simp cong: filter_cong if_cong)
qed

section \<open>The bus with its history\<close>

text \<open>
  For the statements about order and loss the bus is paired with all events published so far and,
  per subscription, with what \<open>Subscribe\<close> was asked and answered and how many events had been
  published by then. The additional components are never read by the bus.
\<close>

record sub_ghost =
  sg_after :: string
  sg_replay :: "envelope list"
  sg_reset :: bool
  sg_start :: nat

record bus_sys =
  sys_bus :: bus
  sys_history :: "queued_envelope list"
  sys_ghost :: "nat \<Rightarrow> sub_ghost"

definition sys_init :: "bus_limits \<Rightarrow> bus_sys" where
  "sys_init l = \<lparr>sys_bus = NewBus l, sys_history = [],
     sys_ghost = (\<lambda>_. \<lparr>sg_after = [], sg_replay = [], sg_reset = False, sg_start = 0\<rparr>)\<rparr>"

inductive bus_step :: "(envelope \<Rightarrow> nat option) \<Rightarrow> bus_sys \<Rightarrow> bus_sys \<Rightarrow> bool" for marshal where
  sys_publish: "Publish marshal (sys_bus s) now e = (b, env) \<Longrightarrow>
    bus_step marshal s (s\<lparr>sys_bus := b,
      sys_history := sys_history s @ [\<lparr>qe_envelope = env, qe_size = envelopeSize marshal env\<rparr>]\<rparr>)"
| sys_subscribe: "Subscribe (sys_bus s) after = (b, sc) \<Longrightarrow>
    bus_step marshal s (s\<lparr>sys_bus := b, sys_ghost := (sys_ghost s)(sc_target sc :=
      \<lparr>sg_after = after, sg_replay = sc_replay sc, sg_reset = sc_reset sc,
       sg_start = length (sys_history s)\<rparr>)\<rparr>)"
| sys_close: "bus_step marshal s (s\<lparr>sys_bus := disconnect i (sys_bus s)\<rparr>)"
| sys_forward: "forward_step i (sys_bus s) b \<Longrightarrow> bus_step marshal s (s\<lparr>sys_bus := b\<rparr>)"

inductive bus_reachable :: "(envelope \<Rightarrow> nat option) \<Rightarrow> bus_limits \<Rightarrow> bus_sys \<Rightarrow> bool" for marshal l where
  bus_start: "bus_reachable marshal l (sys_init l)"
| bus_next: "bus_reachable marshal l s \<Longrightarrow> bus_step marshal s t \<Longrightarrow> bus_reachable marshal l t"

definition held_list :: "subscriber \<Rightarrow> queued_envelope list" where
  "held_list s = (case sub_held s of None \<Rightarrow> [] | Some q \<Rightarrow> [q])"

definition unacked_list :: "subscriber \<Rightarrow> queued_envelope list" where
  "unacked_list s = (case sub_unacked s of None \<Rightarrow> [] | Some q \<Rightarrow> [q])"

definition pending :: "subscriber \<Rightarrow> queued_envelope list" where
  "pending s = unacked_list s @ held_list s @ sub_queue s"

text \<open>What a subscriber has received or will receive without a further publication.\<close>

definition flow :: "subscriber \<Rightarrow> envelope list" where
  "flow s = sub_events s @ map qe_envelope (held_list s @ sub_queue s)"

definition event_id :: "nat \<Rightarrow> string" where
  "event_id n = format_nat (unat (of_nat n :: u64))"

definition numbered :: "queued_envelope list \<Rightarrow> bool" where
  "numbered h \<longleftrightarrow> (\<forall>n < length h. ev_id (qe_envelope (h ! n)) = event_id (Suc n)) \<and> (\<forall>q \<in> set h. 0 \<le> qe_size q)"

definition window_inv :: "bus \<Rightarrow> queued_envelope list \<Rightarrow> bool" where
  "window_inv b h \<longleftrightarrow> bus_next_id b = of_nat (length h) \<and> (\<exists>k. bus_replay b = drop k h)
     \<and> bus_replay_bytes b = total_size (bus_replay b) \<and> within (bus_limits b) (bus_replay b)"

definition counted :: "bus_limits \<Rightarrow> subscriber \<Rightarrow> bool" where
  "counted l s \<longleftrightarrow> sub_pending_count s = int (length (pending s)) \<and> sub_pending_bytes s = total_size (pending s)
     \<and> sub_pending_count s \<le> bl_subscriber_count l \<and> sub_pending_bytes s \<le> bl_subscriber_bytes l
     \<and> (\<forall>q \<in> set (pending s). 0 \<le> qe_size q) \<and> \<not> sub_done s \<and> \<not> sub_exited s"

definition replayed :: "queued_envelope list \<Rightarrow> sub_ghost \<Rightarrow> bool" where
  "replayed h g \<longleftrightarrow> sg_start g \<le> length h \<and> (\<not> sg_reset g \<longrightarrow>
     (\<exists>n \<le> sg_start g. sg_replay g = map qe_envelope (drop n (take (sg_start g) h))
        \<and> (sg_after g \<noteq> [] \<longrightarrow> 1 \<le> n \<and> sg_after g = event_id n)))"

definition connected_inv :: "bus_limits \<Rightarrow> queued_envelope list \<Rightarrow> sub_ghost \<Rightarrow> subscriber \<Rightarrow> bool" where
  "connected_inv l h g s \<longleftrightarrow> counted l s \<and> replayed h g
     \<and> flow s = map qe_envelope (drop (sg_start g) h)"

definition sys_inv :: "bus_sys \<Rightarrow> bool" where
  "sys_inv s \<longleftrightarrow> numbered (sys_history s) \<and> window_inv (sys_bus s) (sys_history s)
     \<and> distinct (bus_subscribers (sys_bus s))
     \<and> (\<forall>i \<in> set (bus_subscribers (sys_bus s)). i < bus_fresh (sys_bus s)
          \<and> connected_inv (bus_limits (sys_bus s)) (sys_history s) (sys_ghost s i) (bus_heap (sys_bus s) i))"

lemmas sub_view_defs = held_list_def unacked_list_def pending_def flow_def

lemma counted_queue_counted: "counted l s \<Longrightarrow> queue_counted s"
  by (simp add: counted_def queue_counted_def pending_def)

lemma envelopeSize_nonneg [simp]: "0 \<le> envelopeSize marshal e"
  by (simp add: envelopeSize_def split: option.split)

lemma sys_inv_init: "sys_inv (sys_init l)"
  by (simp add: sys_inv_def sys_init_def numbered_def window_inv_def NewBus_def within_def)

lemma replayed_extend: "replayed h g \<Longrightarrow> replayed (h @ [q]) g"
  by (fastforce simp: replayed_def)

lemma connected_enqueue:
  assumes "connected_inv l h g s" and "admits l q s" and "0 \<le> qe_size q"
  shows "connected_inv l (h @ [q]) g (enqueue q s)"
  using assms
  by (auto simp: connected_inv_def counted_def admits_def enqueue_def sub_view_defs replayed_extend replayed_def)

lemma numbered_snoc:
  "numbered h \<Longrightarrow> ev_id (qe_envelope q) = event_id (Suc (length h)) \<Longrightarrow> 0 \<le> qe_size q \<Longrightarrow> numbered (h @ [q])"
  by (auto simp: numbered_def nth_append less_Suc_eq)

lemma sys_inv_publish:
  assumes "sys_inv s" and "Publish marshal (sys_bus s) now e = (b', env)"
  shows "sys_inv (s\<lparr>sys_bus := b', sys_history := sys_history s @ [\<lparr>qe_envelope = env, qe_size = envelopeSize marshal env\<rparr>]\<rparr>)"
proof -
  let ?b = "sys_bus s" and ?h = "sys_history s"
  define q where "q = \<lparr>qe_envelope = stamp ?b now e, qe_size = envelopeSize marshal (stamp ?b now e)\<rparr>"
  obtain r n where t: "trim_loop (bus_limits ?b) (bus_replay ?b @ [q]) (bus_replay_bytes ?b + qe_size q) = (r, n)"
    by fastforce
  have d: "distinct (bus_subscribers ?b)"
    and c: "\<And>i. i \<in> set (bus_subscribers ?b) \<Longrightarrow> i < bus_fresh ?b \<and> connected_inv (bus_limits ?b) ?h (sys_ghost s i) (bus_heap ?b i)"
    and w: "window_inv ?b ?h" and num: "numbered ?h"
    using assms(1) by (auto simp: sys_inv_def)
  have qc: "i \<in> set (bus_subscribers ?b) \<Longrightarrow> queue_counted (bus_heap ?b i)" for i
    using c counted_queue_counted by (auto simp: connected_inv_def)
  have pub: "b' = ?b\<lparr>bus_next_id := bus_next_id ?b + 1, bus_replay := r, bus_replay_bytes := n,
      bus_subscribers := filter (\<lambda>i. admits (bus_limits ?b) q (bus_heap ?b i)) (bus_subscribers ?b),
      bus_heap := (\<lambda>i. if i \<in> set (bus_subscribers ?b) then offered (bus_limits ?b) q (bus_heap ?b i) else bus_heap ?b i)\<rparr>"
    and env: "env = qe_envelope q"
    using Publish_closed [OF d qc q_def t] assms(2) by auto
  from w obtain k where k: "bus_replay ?b = drop k ?h" by (auto simp: window_inv_def)
  have "trim_loop (bus_limits ?b) (bus_replay ?b @ [q]) (total_size (bus_replay ?b @ [q])) = (r, n)"
    using t w by (simp add: window_inv_def)
  from trim_loop_spec [OF this] obtain j where
    tr: "n = total_size r" "within (bus_limits ?b) r" "r = drop j (bus_replay ?b @ [q])" by blast
  have "drop j (drop k ?h @ [q]) = drop (j + min k (length ?h)) (?h @ [q])"
    by (simp add: drop_append min_def)
  with tr k have "\<exists>k. r = drop k (?h @ [q])" by metis
  moreover have "numbered (?h @ [q])"
    using num w by (intro numbered_snoc) (simp_all add: q_def stamp_def event_id_def window_inv_def add.commute)
  ultimately show ?thesis
    using d c w tr(1,2)
    by (simp add: sys_inv_def pub env window_inv_def add.commute offered_def connected_enqueue)
      (simp add: q_def connected_enqueue)
qed

text \<open>Subscribing: what is replayed is the published history from the requested point on.\<close>

lemma replay_from_Some:
  "replay_from after qs = Some r \<Longrightarrow>
    \<exists>j < length qs. ev_id (qe_envelope (qs ! j)) = after \<and> r = map qe_envelope (drop (Suc j) qs)"
proof (induction qs)
  case (Cons q qs)
  show ?case
  proof (cases "ev_id (qe_envelope q) = after")
    case True
    with Cons.prems show ?thesis by (intro exI [of _ 0]) auto
  next
    case False
    with Cons obtain j where "j < length qs" "ev_id (qe_envelope (qs ! j)) = after"
      "r = map qe_envelope (drop (Suc j) qs)" by auto
    then show ?thesis by (intro exI [of _ "Suc j"]) auto
  qed
qed simp

lemma replay_from_None:
  "replay_from after qs = None \<longleftrightarrow> (\<forall>q \<in> set qs. ev_id (qe_envelope q) \<noteq> after)"
  by (induction qs) auto

lemma replayAfter_replayed:
  assumes "window_inv b h" and "numbered h" and "replayAfter b after = (r, reset)"
  shows "replayed h \<lparr>sg_after = after, sg_replay = r, sg_reset = reset, sg_start = length h\<rparr>"
proof (cases "after = []")
  case True
  with assms(1,3) obtain k where "r = map qe_envelope (drop k h)"
    by (auto simp: replayAfter_def window_inv_def)
  then have "r = map qe_envelope (drop (min k (length h)) h)" by (simp add: min_def)
  with True show ?thesis
    by (auto simp: replayed_def intro!: exI [of _ "min k (length h)"])
next
  case False
  show ?thesis
  proof (cases reset)
    case True
    then show ?thesis by (simp add: replayed_def)
  next
    case unreset: False
    with False assms(3) have "replay_from after (bus_replay b) = Some r"
      by (auto simp: replayAfter_def split: option.splits)
    then obtain j where j: "j < length (bus_replay b)" "ev_id (qe_envelope (bus_replay b ! j)) = after"
      "r = map qe_envelope (drop (Suc j) (bus_replay b))"
      using replay_from_Some by blast
    from assms(1) obtain k where k: "bus_replay b = drop k h" by (auto simp: window_inv_def)
    have "after = event_id (Suc (k + j))"
      using j(1,2) assms(2) by (simp add: k numbered_def)
    with j k show ?thesis
      by (auto simp: replayed_def add.commute intro!: exI [of _ "Suc (k + j)"])
  qed
qed

lemma sys_inv_subscribe:
  assumes "sys_inv s" and "Subscribe (sys_bus s) after = (b, sc)" and "1 \<le> bl_subscriber_count (bus_limits (sys_bus s))"
    and "1 \<le> bl_subscriber_bytes (bus_limits (sys_bus s))"
  shows "sys_inv (s\<lparr>sys_bus := b, sys_ghost := (sys_ghost s)(sc_target sc :=
      \<lparr>sg_after = after, sg_replay = sc_replay sc, sg_reset = sc_reset sc, sg_start = length (sys_history s)\<rparr>)\<rparr>)"
proof -
  let ?b = "sys_bus s"
  obtain r reset where ra: "replayAfter ?b after = (r, reset)" by fastforce
  with assms(2) have b: "b = ?b\<lparr>bus_subscribers := bus_fresh ?b # bus_subscribers ?b,
      bus_heap := (bus_heap ?b)(bus_fresh ?b := new_subscriber), bus_fresh := bus_fresh ?b + 1\<rparr>"
    and sc: "sc = \<lparr>sc_target = bus_fresh ?b, sc_replay = r, sc_reset = reset\<rparr>"
    by (auto simp: Subscribe_def Let_def)
  have rep: "replayed (sys_history s) \<lparr>sg_after = after, sg_replay = r, sg_reset = reset, sg_start = length (sys_history s)\<rparr>"
    using assms(1) ra by (intro replayAfter_replayed) (auto simp: sys_inv_def)
  have fresh: "bus_fresh ?b \<notin> set (bus_subscribers ?b)"
    using assms(1) by (auto simp: sys_inv_def)
  have new: "connected_inv (bus_limits ?b) (sys_history s)
     \<lparr>sg_after = after, sg_replay = r, sg_reset = reset, sg_start = length (sys_history s)\<rparr> new_subscriber"
    using assms(3,4) rep by (simp add: connected_inv_def counted_def sub_view_defs new_subscriber_def)
  show ?thesis
    using assms(1) fresh new
    by (auto simp: sys_inv_def b sc window_inv_def less_Suc_eq)
qed

lemma sys_inv_close: "sys_inv s \<Longrightarrow> sys_inv (s\<lparr>sys_bus := disconnect i (sys_bus s)\<rparr>)"
  by (auto simp: sys_inv_def disconnect_def window_inv_def)

lemma connected_forward:
  assumes "forward_step i b b'" and "connected_inv l h g (bus_heap b i)"
  shows "connected_inv l h g (bus_heap b' i)"
  using assms(1)
proof cases
  case (Take q qs)
  then show ?thesis using assms(2)
    by (auto simp: connected_inv_def counted_def sub_view_defs idle_def heap_update_def)
next
  case (Deliver q)
  then show ?thesis using assms(2)
    by (auto simp: connected_inv_def counted_def sub_view_defs heap_update_def)
qed (use assms(2) in \<open>auto simp: connected_inv_def counted_def sub_view_defs heap_update_def\<close>)

lemma forward_step_frame:
  assumes "forward_step i b b'"
  shows "bus_subscribers b' = bus_subscribers b" "bus_fresh b' = bus_fresh b" "bus_limits b' = bus_limits b"
    "bus_replay b' = bus_replay b" "bus_replay_bytes b' = bus_replay_bytes b" "bus_next_id b' = bus_next_id b"
    "j \<noteq> i \<Longrightarrow> bus_heap b' j = bus_heap b j"
  using assms by (auto simp: heap_update_def elim!: forward_stepE)

lemma sys_inv_forward:
  assumes "sys_inv s" and "forward_step i (sys_bus s) b"
  shows "sys_inv (s\<lparr>sys_bus := b\<rparr>)"
proof -
  have "connected_inv l h g (bus_heap (sys_bus s) j) \<Longrightarrow> connected_inv l h g (bus_heap b j)" for l h g j
    using connected_forward [OF assms(2)] forward_step_frame(7) [OF assms(2), of j] by (cases "j = i") auto
  with assms(1) show ?thesis
    by (auto simp: sys_inv_def window_inv_def forward_step_frame [OF assms(2)])
qed

lemma Publish_limits: "Publish marshal b now e = (b', env) \<Longrightarrow> bus_limits b' = bus_limits b"
proof -
  have o: "bus_limits (foldl (offer q) c xs) = bus_limits c" for q c xs
    by (induction xs arbitrary: c) (auto simp: offer_def Let_def disconnect_def)
  show "Publish marshal b now e = (b', env) \<Longrightarrow> bus_limits b' = bus_limits b"
    by (auto simp: Publish_def Let_def o trimReplay_def split: prod.splits)
qed

lemma bus_step_limits: "bus_step marshal s t \<Longrightarrow> bus_limits (sys_bus t) = bus_limits (sys_bus s)"
  by (induction rule: bus_step.induct)
    (auto simp: Publish_limits Subscribe_def Let_def disconnect_def forward_step_frame split: prod.splits)

lemma normalizedLimits_pos:
  "1 \<le> bl_replay_count (normalizedLimits l)" "1 \<le> bl_replay_bytes (normalizedLimits l)"
  "1 \<le> bl_subscriber_count (normalizedLimits l)" "1 \<le> bl_subscriber_bytes (normalizedLimits l)"
  by (simp_all add: normalizedLimits_def)

lemma reachable_limits: "bus_reachable marshal l s \<Longrightarrow> bus_limits (sys_bus s) = normalizedLimits l"
  by (induction rule: bus_reachable.induct) (auto simp: sys_init_def NewBus_def bus_step_limits)

lemma reachable_sys_inv: "bus_reachable marshal l s \<Longrightarrow> sys_inv s"
proof (induction rule: bus_reachable.induct)
  case bus_start
  show ?case by (rule sys_inv_init)
next
  case (bus_next s t)
  note pos = normalizedLimits_pos [of l] reachable_limits [OF bus_next.hyps(1)]
  from bus_next.hyps(2) bus_next.IH show ?case
  proof (cases rule: bus_step.cases)
    case (sys_subscribe after b sc)
    with bus_next.IH pos show ?thesis by (auto intro!: sys_inv_subscribe)
  qed (auto intro: sys_inv_publish sys_inv_close sys_inv_forward)
qed

lemma event_id_inj:
  assumes "event_id m = event_id n" and "m < 2 ^ 64" and "n < 2 ^ 64"
  shows "m = n"
proof -
  have "unat (of_nat m :: u64) = unat (of_nat n :: u64)"
    using assms(1) unfolding event_id_def by (rule format_nat_inj)
  then have "(of_nat m :: u64) = of_nat n" by (simp add: word_unat_eq_iff)
  then show ?thesis
    using assms(2,3) by (simp add: of_nat_eq_iff word_of_nat_eq_iff take_bit_nat_eq_self)
qed

lemma numbered_index:
  assumes "numbered h" and "length h < 2 ^ 64" and "n < length h" and "ev_id (qe_envelope (h ! n)) = event_id k"
    and "k \<le> length h"
  shows "k = Suc n"
proof -
  have "event_id (Suc n) = event_id k" using assms by (simp add: numbered_def)
  then show ?thesis using assms(2,3,5) by (auto dest!: event_id_inj)
qed

text \<open>The replay and what followed it, of a connected subscriber.\<close>

lemma connected_flow:
  assumes "connected_inv l h g s" and "\<not> sg_reset g"
  shows "\<exists>n \<le> length h. sg_replay g @ flow s = map qe_envelope (drop n h) \<and> (sg_after g \<noteq> [] \<longrightarrow> sg_after g = event_id n)"
proof -
  obtain n where n: "n \<le> sg_start g" "sg_start g \<le> length h"
      "sg_replay g = map qe_envelope (drop n (take (sg_start g) h))"
      "sg_after g \<noteq> [] \<longrightarrow> sg_after g = event_id n"
    using assms by (auto simp: connected_inv_def replayed_def)
  have "drop n (take (sg_start g) h) @ drop (sg_start g) h = drop n h"
    using n(1,2) by (metis append_take_drop_id drop_append diff_is_0_eq drop_0 length_take min.absorb2)
  with n assms(1) show ?thesis
    by (auto simp: connected_inv_def simp flip: map_append intro!: exI [of _ n])
qed

section \<open>A sample run for the witnesses\<close>

definition sample_limits :: bus_limits where
  "sample_limits = \<lparr>bl_replay_count = 2, bl_replay_bytes = 100, bl_subscriber_count = 2, bl_subscriber_bytes = 100\<rparr>"

definition sample_marshal :: "envelope \<Rightarrow> nat option" where
  "sample_marshal e = Some 10"

definition sample_envelope :: envelope where
  "sample_envelope = \<lparr>ev_schema = 0, ev_id = [], ev_timestamp = zero_time, ev_type = ExchangeStarted,
     ev_exchange_id = ''a'', ev_revision = 1, ev_data = NoData\<rparr>"

definition sys_do_publish :: "bus_sys \<Rightarrow> bus_sys" where
  "sys_do_publish s = (let (b, env) = Publish sample_marshal (sys_bus s) (wall_time 1) sample_envelope
     in s\<lparr>sys_bus := b, sys_history := sys_history s @ [\<lparr>qe_envelope = env, qe_size = envelopeSize sample_marshal env\<rparr>]\<rparr>)"

definition sys_do_subscribe :: "string \<Rightarrow> bus_sys \<Rightarrow> bus_sys" where
  "sys_do_subscribe after s = (let (b, sc) = Subscribe (sys_bus s) after
     in s\<lparr>sys_bus := b, sys_ghost := (sys_ghost s)(sc_target sc := \<lparr>sg_after = after, sg_replay = sc_replay sc,
       sg_reset = sc_reset sc, sg_start = length (sys_history s)\<rparr>)\<rparr>)"

lemma reachable_publish: "bus_reachable sample_marshal l s \<Longrightarrow> bus_reachable sample_marshal l (sys_do_publish s)"
  by (cases "Publish sample_marshal (sys_bus s) (wall_time 1) sample_envelope")
    (auto simp: sys_do_publish_def intro: bus_reachable.intros bus_step.intros)

lemma reachable_subscribe: "bus_reachable sample_marshal l s \<Longrightarrow> bus_reachable sample_marshal l (sys_do_subscribe after s)"
  by (cases "Subscribe (sys_bus s) after")
    (auto simp: sys_do_subscribe_def intro: bus_reachable.intros bus_step.intros)

text \<open>Two events, a reader who has seen the first, then a third event.\<close>

definition sample_sys :: bus_sys where
  "sample_sys = sys_do_publish (sys_do_subscribe ''1'' (sys_do_publish (sys_do_publish (sys_init sample_limits))))"

lemma sample_sys_reachable: "bus_reachable sample_marshal sample_limits sample_sys"
  unfolding sample_sys_def by (intro reachable_publish reachable_subscribe bus_start)

lemmas bus_eval = sample_sys_def sys_do_publish_def sys_do_subscribe_def sys_init_def NewBus_def
  Publish_def Subscribe_def replayAfter_def trimReplay_def stamp_def envelopeSize_def sample_marshal_def
  sample_limits_def normalizedLimits_def Let_def offer_def SchemaVersion_def new_subscriber_def
  format_nat.simps digit_char_eval

lemma sample_sys_subscribed:
  "bus_subscribers (sys_bus sample_sys) = [0]" "sg_reset (sys_ghost sample_sys 0) = False"
  "sg_after (sys_ghost sample_sys 0) = ''1''" "length (sys_history sample_sys) = 3"
  by (simp_all add: bus_eval)

section \<open>Properties\<close>

text \<open>
  C3. No gap, no duplicate, no reordering: take any interleaving of publications, subscriptions,
  disconnections and forwarder steps. For a subscriber that is still connected and was not told to
  resynchronise, the replay it got followed by what it received and by what its forwarder holds or
  has queued is exactly the published history from one point on; when it asked for the events
  after the one with ID \<open>n\<close>, that point is \<open>n\<close>.
\<close>

theorem subscriber_sees_every_event:
  assumes "bus_reachable marshal l s" and "i \<in> set (bus_subscribers (sys_bus s))"
    and "\<not> sg_reset (sys_ghost s i)"
  shows "\<exists>n \<le> length (sys_history s).
      sg_replay (sys_ghost s i) @ flow (bus_heap (sys_bus s) i) = map qe_envelope (drop n (sys_history s))
    \<and> (sg_after (sys_ghost s i) \<noteq> [] \<longrightarrow> sg_after (sys_ghost s i) = event_id n)"
proof -
  have "connected_inv (bus_limits (sys_bus s)) (sys_history s) (sys_ghost s i) (bus_heap (sys_bus s) i)"
    using reachable_sys_inv [OF assms(1)] assms(2) by (simp add: sys_inv_def)
  then show ?thesis using assms(3) by (rule connected_flow)
qed

theorem subscriber_sees_every_event_witness:
  "\<exists>n \<le> 3. sg_replay (sys_ghost sample_sys 0) @ flow (bus_heap (sys_bus sample_sys) 0)
      = map qe_envelope (drop n (sys_history sample_sys)) \<and> ''1'' = event_id n"
proof -
  have "\<exists>n \<le> length (sys_history sample_sys).
      sg_replay (sys_ghost sample_sys 0) @ flow (bus_heap (sys_bus sample_sys) 0)
        = map qe_envelope (drop n (sys_history sample_sys))
    \<and> (sg_after (sys_ghost sample_sys 0) \<noteq> [] \<longrightarrow> sg_after (sys_ghost sample_sys 0) = event_id n)"
    by (rule subscriber_sees_every_event [OF sample_sys_reachable]) (simp_all add: sample_sys_subscribed)
  then show ?thesis by (simp add: sample_sys_subscribed)
qed

text \<open>
  C31. Memory bounds: in every reachable state the replay window is a suffix of the published
  history within its count and byte bounds (empty when one event alone exceeds them), and every
  connected subscriber has at most its bound of undelivered events and bytes queued.
\<close>

theorem bus_bounded:
  assumes "bus_reachable marshal l s"
  shows "(\<exists>k. bus_replay (sys_bus s) = drop k (sys_history s))
    \<and> int (length (bus_replay (sys_bus s))) \<le> max 1 (bl_replay_count l)
    \<and> total_size (bus_replay (sys_bus s)) \<le> max 1 (bl_replay_bytes l)
    \<and> (\<forall>i \<in> set (bus_subscribers (sys_bus s)).
         int (length (pending (bus_heap (sys_bus s) i))) \<le> max 1 (bl_subscriber_count l)
       \<and> total_size (pending (bus_heap (sys_bus s) i)) \<le> max 1 (bl_subscriber_bytes l))"
proof -
  have "sys_inv s" by (rule reachable_sys_inv [OF assms])
  moreover note reachable_limits [OF assms]
  ultimately show ?thesis
    by (auto simp: sys_inv_def window_inv_def within_def connected_inv_def counted_def normalizedLimits_def
        split: if_splits)
qed

theorem bus_bounded_witness:
  "int (length (bus_replay (sys_bus sample_sys))) \<le> 2 \<and> bus_subscribers (sys_bus sample_sys) = [0]"
  using bus_bounded [OF sample_sys_reachable] by (simp add: sample_sys_subscribed sample_limits_def)

text \<open>
  Resuming after event \<open>n\<close>: while fewer than \<open>2 ^ 64\<close> events were published, \<open>Subscribe\<close> with
  the ID of the \<open>n\<close>-th event answers with exactly the events after it when that event is still in
  the replay window, and otherwise with no events and the order to resynchronise.
\<close>

theorem resume_exact:
  assumes "bus_reachable marshal l s" and "length (sys_history s) < 2 ^ 64"
    and "1 \<le> n" and "n \<le> length (sys_history s)"
  shows "(let (replay, reset) = replayAfter (sys_bus s) (event_id n)
      in if sys_history s ! (n - 1) \<in> set (bus_replay (sys_bus s))
         then \<not> reset \<and> replay = map qe_envelope (drop n (sys_history s))
         else reset \<and> replay = [])"
proof -
  let ?h = "sys_history s" and ?b = "sys_bus s"
  have num: "numbered ?h" and w: "window_inv ?b ?h"
    using reachable_sys_inv [OF assms(1)] by (simp_all add: sys_inv_def)
  from w obtain k where k: "bus_replay ?b = drop k ?h" by (auto simp: window_inv_def)
  have ne: "event_id n \<noteq> []" by (simp add: event_id_def)
  show ?thesis
  proof (cases "replay_from (event_id n) (bus_replay ?b)")
    case None
    have "ev_id (qe_envelope (?h ! (n - 1))) = event_id n"
      using num assms(3,4) by (cases n) (auto simp: numbered_def)
    with None have "?h ! (n - 1) \<notin> set (bus_replay ?b)" by (auto simp: replay_from_None)
    with None ne show ?thesis by (simp add: replayAfter_def)
  next
    case (Some r)
    then obtain j where j: "j < length (drop k ?h)" "ev_id (qe_envelope (drop k ?h ! j)) = event_id n"
      "r = map qe_envelope (drop (Suc j) (drop k ?h))"
      using replay_from_Some k by metis
    then have "n = Suc (k + j)"
      using num assms(2,4) by (intro numbered_index [of ?h]) (auto simp: add.commute)
    with j k Some ne show ?thesis
      by (auto simp: replayAfter_def add.commute in_set_conv_nth intro!: exI [of _ j])
  qed
qed

theorem resume_exact_witness:
  "(let (replay, reset) = replayAfter (sys_bus sample_sys) (event_id 1)
      in if sys_history sample_sys ! 0 \<in> set (bus_replay (sys_bus sample_sys))
         then \<not> reset \<and> replay = map qe_envelope (drop 1 (sys_history sample_sys))
         else reset \<and> replay = [])"
  using resume_exact [OF sample_sys_reachable, of 1] by (simp add: sample_sys_subscribed)

text \<open>
  A snapshot subscription is gap free: whatever was published before, the subscription that
  \<open>SubscribeWithSnapshot\<close> opens under the bus lock replays nothing and is never told to
  resynchronise, so it continues exactly at the snapshot; and the cursor it returns with a
  non-empty window is the ID of the last published event.
\<close>

theorem snapshot_subscription_gap_free:
  assumes "bus_reachable marshal l s" and "length (sys_history s) < 2 ^ 64"
  shows "(let (b, sc, value, cursor) = SubscribeWithSnapshot (sys_bus s) snapshot
     in sc_replay sc = [] \<and> \<not> sc_reset sc \<and> value = snapshot
      \<and> bus_heap b (sc_target sc) = new_subscriber \<and> sc_target sc \<in> set (bus_subscribers b)
      \<and> (cursor \<noteq> [] \<longrightarrow> cursor = event_id (length (sys_history s))))"
proof (cases "bus_replay (sys_bus s) = []")
  case True
  then show ?thesis
    by (simp add: SubscribeWithSnapshot_def Subscribe_def replayAfter_def Let_def)
next
  case False
  let ?h = "sys_history s" and ?b = "sys_bus s"
  have num: "numbered ?h" and w: "window_inv ?b ?h"
    using reachable_sys_inv [OF assms(1)] by (simp_all add: sys_inv_def)
  from w False obtain k where k: "bus_replay ?b = drop k ?h" "k < length ?h"
    by (auto simp: window_inv_def)
  then have last: "last (bus_replay ?b) = ?h ! (length ?h - 1)"
    by (simp add: last_drop last_conv_nth)
  have id: "ev_id (qe_envelope (last (bus_replay ?b))) = event_id (length ?h)"
    using num k(2) by (cases "length ?h") (auto simp: last numbered_def)
  obtain r where r: "replay_from (event_id (length ?h)) (bus_replay ?b) = Some r"
    using replay_from_None [of "event_id (length ?h)" "bus_replay ?b"] id last_in_set [OF False] by (metis not_Some_eq)
  from replay_from_Some [OF this] obtain j where
    j: "j < length (drop k ?h)" "ev_id (qe_envelope (drop k ?h ! j)) = event_id (length ?h)"
      "r = map qe_envelope (drop (Suc j) (drop k ?h))"
    using k(1) by metis
  then have "length ?h = Suc (k + j)"
    using num assms(2) by (intro numbered_index [of ?h]) (auto simp: add.commute)
  with j(3) have "r = []" by simp
  with r id False show ?thesis
    by (simp add: SubscribeWithSnapshot_def Subscribe_def replayAfter_def Let_def event_id_def)
qed

theorem snapshot_subscription_gap_free_witness:
  "(let (b, sc, value, cursor) = SubscribeWithSnapshot (sys_bus sample_sys) (7 :: nat)
     in sc_replay sc = [] \<and> \<not> sc_reset sc \<and> value = 7)"
  using snapshot_subscription_gap_free [OF sample_sys_reachable, of "7 :: nat"]
  by (simp add: sample_sys_subscribed split: prod.splits)

end
