(* ===== verification/Capture_Pipeline.thy ===== *)
theory Capture_Pipeline
  imports Capture_Body Event_Bus
begin

text \<open>
  The HTTP pipeline of \<open>internal/capture/pipeline.go\<close>: admission, persistence reservation, the
  capture of the request, the mode handler, the delivery of its response and the exchange's way
  through its states, on every path.

  \<open>'s\<close> is the state of the collaborators the pipeline is given (repository, publisher, writer
  queue, clock, ID source); their methods are the functions of \<open>pipeline_options\<close>, so another
  request may act on the shared state whenever one of them is called. A run holds the counters
  of the pipeline, that state, the response writer of the request, and in \<open>rn_log\<close> the calls the
  request has made, in their order. Deferred calls are the last ones, the latest first.
\<close>

section \<open>State\<close>

record pipeline =
  pl_in_flight :: int
  pl_admission_rejected :: u64
  pl_body_too_large :: u64

datatype call =
    CAdmit bool
  | CRelease
  | CReject
  | CTooLarge
  | CReserve int "nat option" bool
  | CSave exchange
  | CPublish envelope
  | CHandle request config_snapshot
  | CCommit nat exchange "string option"
  | CCancel nat

record 's pipeline_options =
  po_snapshot :: "'s \<Rightarrow> config_snapshot"
  po_save :: "'s \<Rightarrow> exchange \<Rightarrow> 's \<times> exchange list"
  po_reserving :: bool
  po_reserve :: "'s \<Rightarrow> int \<Rightarrow> 's \<times> nat option \<times> bool"
  po_commit :: "'s \<Rightarrow> nat \<Rightarrow> exchange \<Rightarrow> 's \<times> string option"
  po_cancel :: "'s \<Rightarrow> nat \<Rightarrow> 's"
  po_publish :: "'s \<Rightarrow> envelope \<Rightarrow> 's"
  po_handlers :: "string \<Rightarrow> (request \<Rightarrow> config_snapshot \<Rightarrow> mode_result \<times> go_error option) option"
  po_id :: "'s \<Rightarrow> 's \<times> (go_error + string)"
  po_now :: "'s \<Rightarrow> 's \<times> gotime"

record 's run =
  rn_pipeline :: pipeline
  rn_shared :: 's
  rn_writer :: response_writer
  rn_log :: "call list"

record http_request =
  hq_method :: string
  hq_tls :: bool
  hq_proto :: string
  hq_host :: string
  hq_uri :: string
  hq_escaped_path :: string
  hq_raw_query :: string
  hq_remote :: string
  hq_header :: header
  hq_body :: reader
  hq_context_err :: "go_error option"

section \<open>Counters\<close>

definition admit :: "pipeline \<Rightarrow> int \<Rightarrow> pipeline \<times> bool" where
  "admit pl limit =
     (let limit = (if limit < 1 then 1 else limit)
      in if pl_in_flight pl \<ge> limit
         then (pl\<lparr>pl_admission_rejected := pl_admission_rejected pl + 1\<rparr>, False)
         else (pl\<lparr>pl_in_flight := pl_in_flight pl + 1\<rparr>, True))"

definition pl_release :: "pipeline \<Rightarrow> pipeline" where
  "pl_release pl = pl\<lparr>pl_in_flight := pl_in_flight pl - 1\<rparr>"

definition rejectAdmission :: "pipeline \<Rightarrow> pipeline" where
  "rejectAdmission pl = pl\<lparr>pl_admission_rejected := pl_admission_rejected pl + 1\<rparr>"

definition recordBodyTooLarge :: "pipeline \<Rightarrow> pipeline" where
  "recordBodyTooLarge pl = pl\<lparr>pl_body_too_large := pl_body_too_large pl + 1\<rparr>"

definition log_call :: "call \<Rightarrow> 's run \<Rightarrow> 's run" where
  "log_call c r = r\<lparr>rn_log := rn_log r @ [c]\<rparr>"

definition do_admit :: "int \<Rightarrow> 's run \<Rightarrow> 's run \<times> bool" where
  "do_admit limit r = (let (pl, ok) = admit (rn_pipeline r) limit
     in (log_call (CAdmit ok) (r\<lparr>rn_pipeline := pl\<rparr>), ok))"

definition do_release :: "'s run \<Rightarrow> 's run" where
  "do_release r = log_call CRelease (r\<lparr>rn_pipeline := pl_release (rn_pipeline r)\<rparr>)"

definition do_reject :: "'s run \<Rightarrow> 's run" where
  "do_reject r = log_call CReject (r\<lparr>rn_pipeline := rejectAdmission (rn_pipeline r)\<rparr>)"

definition do_too_large :: "'s run \<Rightarrow> 's run" where
  "do_too_large r = log_call CTooLarge (r\<lparr>rn_pipeline := recordBodyTooLarge (rn_pipeline r)\<rparr>)"

section \<open>Calls on the collaborators\<close>

definition do_publish :: "'s pipeline_options \<Rightarrow> envelope \<Rightarrow> 's run \<Rightarrow> 's run" where
  "do_publish p e r = log_call (CPublish e) (r\<lparr>rn_shared := po_publish p (rn_shared r) e\<rparr>)"

definition event :: "event_type \<Rightarrow> string \<Rightarrow> u64 \<Rightarrow> event_data \<Rightarrow> envelope" where
  "event t i n d = \<lparr>ev_schema = 0, ev_id = [], ev_timestamp = zero_time, ev_type = t,
     ev_exchange_id = i, ev_revision = n, ev_data = d\<rparr>"

text \<open>\<open>Pipeline.save\<close>: one \<open>exchange.evicted\<close> event per exchange the repository evicted.\<close>

definition do_save :: "'s pipeline_options \<Rightarrow> exchange \<Rightarrow> 's run \<Rightarrow> 's run" where
  "do_save p e r =
     (let (s, evicted) = po_save p (rn_shared r) e;
          r1 = log_call (CSave e) (r\<lparr>rn_shared := s\<rparr>)
      in foldl (\<lambda>r x. do_publish p (event ExchangeEvicted (ex_id x) (ex_revision x) NoData) r) r1 evicted)"

definition do_now :: "'s pipeline_options \<Rightarrow> 's run \<Rightarrow> 's run \<times> gotime" where
  "do_now p r = (let (s, t) = po_now p (rn_shared r) in (r\<lparr>rn_shared := s\<rparr>, t))"

definition do_id :: "'s pipeline_options \<Rightarrow> 's run \<Rightarrow> 's run \<times> (go_error + string)" where
  "do_id p r = (let (s, i) = po_id p (rn_shared r) in (r\<lparr>rn_shared := s\<rparr>, i))"

definition reservationBytes :: "int \<Rightarrow> int \<Rightarrow> int" where
  "reservationBytes acc v =
     (if v \<le> 0 then acc else if acc > max_i64 - v then max_i64 else acc + v)"

definition reservation_size :: "config_snapshot \<Rightarrow> int" where
  "reservation_size snapshot =
     (let l = cs_limits snapshot;
          bytes = reservationBytes 0 (lim_request_body l);
          bytes = reservationBytes bytes (lim_request_header l)
      in if cs_mode snapshot = ModeProxy then
           let bytes = reservationBytes bytes (lim_response_body l)
           in reservationBytes bytes (lim_response_header l)
         else bytes)"

definition reservePersistence :: "'s pipeline_options \<Rightarrow> config_snapshot \<Rightarrow> 's run \<Rightarrow> 's run \<times> nat option \<times> bool" where
  "reservePersistence p snapshot r =
     (if \<not> po_reserving p then (r, None, True)
      else
        let bytes = reservation_size snapshot;
            (s, res, ok) = po_reserve p (rn_shared r) bytes
        in (log_call (CReserve bytes res ok) (r\<lparr>rn_shared := s\<rparr>), res, ok))"

definition do_commit :: "'s pipeline_options \<Rightarrow> nat \<Rightarrow> exchange \<Rightarrow> 's run \<Rightarrow> 's run \<times> string option" where
  "do_commit p res e r = (let (s, err) = po_commit p (rn_shared r) res e
     in (log_call (CCommit res e err) (r\<lparr>rn_shared := s\<rparr>), err))"

definition do_cancel :: "'s pipeline_options \<Rightarrow> nat \<Rightarrow> 's run \<Rightarrow> 's run" where
  "do_cancel p res r = log_call (CCancel res) (r\<lparr>rn_shared := po_cancel p (rn_shared r) res\<rparr>)"

definition respond_error :: "int \<Rightarrow> string \<Rightarrow> string \<Rightarrow> 's run \<Rightarrow> 's run" where
  "respond_error status code message r = r\<lparr>rn_writer := writePipelineError (rn_writer r) status code message\<rparr>"

section \<open>The exchange of a request\<close>

definition requestScheme :: "http_request \<Rightarrow> string" where
  "requestScheme incoming = (if hq_tls incoming then ''https'' else ''http'')"

definition incoming_request :: "http_request \<Rightarrow> request" where
  "incoming_request incoming = \<lparr>rq_method = hq_method incoming, rq_scheme = requestScheme incoming,
     rq_protocol = hq_proto incoming, rq_host = hq_host incoming, rq_target = hq_uri incoming,
     rq_path = hq_escaped_path incoming, rq_raw_query = hq_raw_query incoming,
     rq_remote_address = hq_remote incoming, rq_headers = clone_headers (hq_header incoming),
     rq_content_type = hdr_get (hq_header incoming) ''Content-Type'', rq_body = [],
     rq_observed = 0, rq_complete = False,
     rq_header_bytes = HeaderBytesEstimate (hq_header incoming) (hq_host incoming),
     rq_preview = [], rq_preview_truncated = False, rq_decoded_preview = None, rq_preview_error = []\<rparr>"

definition startExchange ::
    "'s pipeline_options \<Rightarrow> http_request \<Rightarrow> config_snapshot \<Rightarrow> 's run \<Rightarrow> 's run \<times> (go_error + exchange)" where
  "startExchange p incoming snapshot r =
     (let (r1, startedMonotonic) = do_now p r;
          (r2, generated) = do_id p r1
      in case generated of
           Inl err \<Rightarrow> (r2, Inl err)
         | Inr i \<Rightarrow>
             let e = \<lparr>ex_id = i, ex_transport = TransportHTTP, ex_mode = cs_mode snapshot,
                 ex_config_revision = cs_revision snapshot, ex_configuration = snapshot,
                 ex_revision = 1, ex_state = StateReceiving, ex_started = utc startedMonotonic,
                 ex_completed = zero_time, ex_duration = 0,
                 ex_request = incoming_request incoming,
                 ex_datagram = None, ex_response = None, ex_upstream = [], ex_upstream_header_bytes = 0,
                 ex_upstream_body_bytes = 0, ex_timing = None, ex_error = None,
                 ex_delivery = \<lparr>dd_status = 0, dd_body_bytes = 0, dd_error = []\<rparr>,
                 ex_persistence = None, ex_started_mono = startedMonotonic\<rparr>;
               r3 = do_save p e r2
             in (do_publish p (event ExchangeStarted (ex_id e) (ex_revision e) NoData) r3, Inr e))"

definition set_error :: "string \<Rightarrow> string \<Rightarrow> exchange \<Rightarrow> exchange" where
  "set_error category message e = e\<lparr>ex_error := Some \<lparr>ee_category = category, ee_message = message\<rparr>\<rparr>"

definition fail :: "'s pipeline_options \<Rightarrow> exchange \<Rightarrow> xstate \<Rightarrow> 's run \<Rightarrow> 's run \<times> exchange" where
  "fail p e state r =
     (let (r1, at) = do_now p r;
          e1 = (case Transition e state at of Inl _ \<Rightarrow> e\<lparr>ex_state := StateFailed\<rparr> | Inr e1 \<Rightarrow> e1);
          r2 = do_save p e1 r1
      in (do_publish p (event ExchangeFailed (ex_id e1) (ex_revision e1) (ErrorData (ex_error e1))) r2, e1))"

definition internalFailure :: "'s pipeline_options \<Rightarrow> exchange \<Rightarrow> string \<Rightarrow> 's run \<Rightarrow> 's run \<times> exchange" where
  "internalFailure p e cause r =
     (let (r1, e1) = fail p (set_error ''pipeline_state_failed'' cause e) StateFailed r
      in (respond_error 500 ''pipeline_state_failed'' ''Request state could not be updated.'' r1, e1))"

definition applyModeResult :: "exchange \<Rightarrow> mode_result \<Rightarrow> exchange" where
  "applyModeResult e result =
     (let e1 = e\<lparr>
          ex_response := clone_response (mr_captured result),
          ex_upstream := mr_upstream result,
          ex_timing := clone_timing (mr_timing result),
          ex_upstream_header_bytes := mr_header_bytes result,
          ex_upstream_body_bytes := mr_body_bytes result\<rparr>
      in case mr_inspection result of
           None \<Rightarrow> e1
         | Some i \<Rightarrow> e1\<lparr>ex_request := (ex_request e1)\<lparr>
               rq_preview := [] @ in_preview i,
               rq_preview_truncated := in_truncated i,
               rq_decoded_preview := clone_int64 (in_decoded i),
               rq_preview_error := in_error i\<rparr>\<rparr>)"

fun as_mode_error :: "go_error \<Rightarrow> (int \<times> string \<times> string) option" where
  "as_mode_error (ModeError status category message cause) = Some (status, category, message)"
| "as_mode_error (Wrapped m e) = as_mode_error e"
| "as_mode_error _ = None"

definition modeFailure :: "go_error \<Rightarrow> go_error option \<Rightarrow> xstate \<times> int \<times> string \<times> string" where
  "modeFailure err context_err =
     (if errors_is err Canceled \<or> (case context_err of None \<Rightarrow> False | Some c \<Rightarrow> errors_is c Canceled)
      then (StateCancelled, 502, ''request_cancelled'', ''Request was cancelled.'')
      else case as_mode_error err of
          Some (status, category, message) \<Rightarrow> (StateFailed, normalizedStatus status, category, message)
        | None \<Rightarrow> (StateFailed, 502, ''mode_handler_failed'', ''Request processing failed.''))"

definition capturedProxyError :: "downstream_response \<Rightarrow> preview_settings \<Rightarrow> response" where
  "capturedProxyError response settings =
     (let (previewBody, truncated) = preview (dr_body response) settings
      in \<lparr>rs_status = dr_status response, rs_headers = clone_headers (dr_headers response),
          rs_body = [] @ dr_body response, rs_observed = int (length (dr_body response)),
          rs_complete = True, rs_header_bytes = HeaderBytesEstimate (dr_headers response) [],
          rs_origin = ''proxy_error'', rs_preview = previewBody, rs_preview_truncated = truncated,
          rs_decoded_preview = None, rs_preview_error = []\<rparr>)"

definition durationMicroseconds :: "gotime \<Rightarrow> gotime \<Rightarrow> int option" where
  "durationMicroseconds started completed =
     (if is_zero started \<or> time_before completed started then None
      else Some (microseconds (time_sub completed started)))"

definition empty_timing :: proxy_timing where
  "empty_timing = \<lparr>pt_upstream_started = None, pt_request_written = None, pt_first_byte = None,
     pt_captured = None, pt_downstream_completed = None, pt_dispatch_us = None, pt_wait_us = None,
     pt_receive_us = None, pt_upstream_total_us = None, pt_downstream_write_us = None, pt_proxy_total_us = None\<rparr>"

definition writeResponse ::
    "'s pipeline_options \<Rightarrow> exchange \<Rightarrow> downstream_response \<Rightarrow> 's run \<Rightarrow> 's run \<times> exchange \<times> int \<times> string option" where
  "writeResponse p e response r =
     (let (r1, started) = do_now p r;
          (rw, written, err) = writeDownstream (rn_writer r1) response;
          (r2, completed) = do_now p (r1\<lparr>rn_writer := rw\<rparr>);
          e1 = (if ex_mode e = ModeProxy then
                  let t = (case ex_timing e of None \<Rightarrow> empty_timing | Some t \<Rightarrow> t)
                  in e\<lparr>ex_timing := Some (t\<lparr>
                       pt_downstream_completed := Some (utc completed),
                       pt_downstream_write_us := durationMicroseconds started completed,
                       pt_proxy_total_us := durationMicroseconds (ex_started_mono e) completed\<rparr>)\<rparr>
                else e)
      in (r2, e1, written, err))"

section \<open>ServeHTTP\<close>

text \<open>The save and the event of a response that came from the upstream.\<close>

definition announce_response :: "'s pipeline_options \<Rightarrow> config_snapshot \<Rightarrow> exchange \<Rightarrow> 's run \<Rightarrow> 's run \<times> exchange" where
  "announce_response p snapshot e r = (case ex_response e of
      Some rs \<Rightarrow> if cs_mode snapshot = ModeProxy \<and> rs_origin rs = ''upstream'' then
          let e1 = e\<lparr>ex_revision := ex_revision e + 1\<rparr>;
              r1 = do_save p e1 r
          in (do_publish p (event ResponseCompleted (ex_id e1) (ex_revision e1)
                (ResponseData (rs_header_bytes rs) (int (length (rs_body rs))) (clone_timing (ex_timing e1)))) r1, e1)
        else (r, e)
    | None \<Rightarrow> (r, e))"

text \<open>From the response of the handler to the end: delivery and completion.\<close>

definition deliver ::
    "'s pipeline_options \<Rightarrow> config_snapshot \<Rightarrow> mode_result \<Rightarrow> exchange \<Rightarrow> 's run \<Rightarrow> 's run \<times> exchange" where
  "deliver p snapshot result e r =
     (let (r1, e1) = announce_response p snapshot e r;
          (r2, e2, written, writeError) = writeResponse p e1 (mr_response result) r1;
          e3 = e2\<lparr>ex_delivery := (ex_delivery e2)\<lparr>dd_status := normalizedStatus (dr_status (mr_response result)),
                 dd_body_bytes := written\<rparr>\<rparr>
      in case writeError of
           Some msg \<Rightarrow>
             let e4 = e3\<lparr>ex_delivery := (ex_delivery e3)\<lparr>dd_error := msg\<rparr>\<rparr>;
                 e5 = set_error ''downstream_write_failed'' ''Response could not be delivered completely.'' e4
             in fail p e5 StateFailed r2
         | None \<Rightarrow>
             let (r3, at) = do_now p r2
             in case Transition e3 StateCompleted at of
                  Inl err \<Rightarrow> internalFailure p e3 (transition_error err) r3
                | Inr e4 \<Rightarrow> (do_save p e4 r3, e4))"

text \<open>The branch of a handler that returned an error.\<close>

definition handler_failed ::
    "'s pipeline_options \<Rightarrow> http_request \<Rightarrow> config_snapshot \<Rightarrow> go_error \<Rightarrow> exchange \<Rightarrow> 's run \<Rightarrow> 's run \<times> exchange" where
  "handler_failed p incoming snapshot handleError e r =
     (let (state, status, category, message) = modeFailure handleError (hq_context_err incoming);
          e1 = set_error category message e;
          response = pipelineErrorResponse status category message;
          e2 = (if cs_mode snapshot = ModeProxy \<and> state \<noteq> StateCancelled
                then e1\<lparr>ex_response := Some (capturedProxyError response (cs_preview snapshot))\<rparr> else e1);
          (r1, e3, written, writeError) = writeResponse p e2 response r;
          e4 = e3\<lparr>ex_delivery := \<lparr>dd_status = status, dd_body_bytes = written, dd_error = []\<rparr>\<rparr>;
          e5 = (case writeError of None \<Rightarrow> e4
                | Some msg \<Rightarrow> e4\<lparr>ex_delivery := (ex_delivery e4)\<lparr>dd_error := msg\<rparr>\<rparr>)
      in fail p e5 state r1)"

text \<open>From the complete request to the handler.\<close>

definition dispatch ::
    "'s pipeline_options \<Rightarrow> http_request \<Rightarrow> config_snapshot \<Rightarrow> exchange \<Rightarrow> 's run \<Rightarrow> 's run \<times> exchange" where
  "dispatch p incoming snapshot e r =
     (let forwarded =
            (if cs_mode snapshot = ModeProxy then
               let (r1, at) = do_now p r
               in case Transition e StateForwarding at of
                    Inl err \<Rightarrow> Inl (internalFailure p e (transition_error err) r1)
                  | Inr e1 \<Rightarrow> Inr (do_save p e1 r1, e1)
             else Inr (r, e))
      in case forwarded of
           Inl stopped \<Rightarrow> stopped
         | Inr (r1, e1) \<Rightarrow>
             (case po_handlers p (cs_mode snapshot) of
                None \<Rightarrow>
                  let (r2, e2) = fail p (set_error ''mode_handler_unavailable'' ''Configured mode is unavailable.'' e1) StateFailed r1
                  in (respond_error 501 ''mode_handler_unavailable'' ''Configured mode is unavailable.'' r2, e2)
              | Some handle \<Rightarrow>
                  let rq = clone_request (ex_request e1); sn = clone_snapshot snapshot;
                      (result, handleError) = handle rq sn;
                      r2 = log_call (CHandle rq sn) r1;
                      e2 = applyModeResult e1 result
                  in case handleError of
                       Some err \<Rightarrow> handler_failed p incoming snapshot err e2 r2
                     | None \<Rightarrow> deliver p snapshot result e2 r2))"

text \<open>From the new exchange to the complete request: header limit, body, preview.\<close>

definition receive ::
    "'s pipeline_options \<Rightarrow> http_request \<Rightarrow> config_snapshot \<Rightarrow> exchange \<Rightarrow> 's run \<Rightarrow> 's run \<times> exchange" where
  "receive p incoming snapshot e r =
     (if rq_header_bytes (ex_request e) > lim_request_header (cs_limits snapshot) then
        let (r1, e1) = fail p (set_error ''request_headers_too_large'' ''Request headers exceed configured limit.'' e) StateFailed r
        in (respond_error 431 ''request_headers_too_large'' ''Request headers exceed configured limit.'' r1, e1)
      else
        let (body, observed, readError) = ReadBody (hq_body incoming) (lim_request_body (cs_limits snapshot));
            (pre, truncated) = preview body (cs_preview snapshot);
            e1 = e\<lparr>ex_request := (ex_request e)\<lparr>rq_body := body, rq_observed := observed,
                   rq_complete := (readError = None), rq_preview := pre, rq_preview_truncated := truncated\<rparr>\<rparr>
        in case readError of
             Some err \<Rightarrow>
               let (r1, category, status, message) =
                     (if errors_is err BodyTooLarge
                      then (do_too_large r, ''request_body_too_large'', 413, ''Request body exceeds configured limit.'')
                      else (r, ''request_body_read_failed'', 400, ''Request body could not be read.''));
                   (r2, e2) = fail p (set_error category message e1) StateFailed r1
               in (respond_error status category message r2, e2)
           | None \<Rightarrow>
               let e2 = e1\<lparr>ex_revision := ex_revision e1 + 1\<rparr>;
                   r1 = do_save p e2 r;
                   r2 = do_publish p (event RequestCompleted (ex_id e2) (ex_revision e2)
                          (RequestData (rq_header_bytes (ex_request e2)) (int (length (rq_body (ex_request e2))))
                             (rq_preview (ex_request e2)) (rq_preview_truncated (ex_request e2)))) r1
               in dispatch p incoming snapshot e2 r2)"

text \<open>The deferred closure that commits a finished exchange to the reservation.\<close>

definition commit_finished :: "'s pipeline_options \<Rightarrow> nat option \<Rightarrow> exchange \<Rightarrow> 's run \<Rightarrow> 's run" where
  "commit_finished p reservation e r =
     (case reservation of
        None \<Rightarrow> r
      | Some res \<Rightarrow>
          if IsTerminal (ex_state e) then
            let e1 = e\<lparr>ex_persistence := Some \<lparr>ps_state = ''queued'', ps_error = []\<rparr>\<rparr>;
                r1 = do_save p e1 r;
                (r2, err) = do_commit p res e1 r1
            in case err of
                 None \<Rightarrow> r2
               | Some msg \<Rightarrow> do_save p (e1\<lparr>ex_persistence := Some \<lparr>ps_state = ''failed'', ps_error = msg\<rparr>\<rparr>) r2
          else r)"

definition cancel_deferred :: "'s pipeline_options \<Rightarrow> nat option \<Rightarrow> 's run \<Rightarrow> 's run" where
  "cancel_deferred p reservation r = (case reservation of None \<Rightarrow> r | Some res \<Rightarrow> do_cancel p res r)"

definition ServeHTTP :: "'s pipeline_options \<Rightarrow> http_request \<Rightarrow> 's run \<Rightarrow> 's run" where
  "ServeHTTP p incoming r =
     (let snapshot = clone_snapshot (po_snapshot p (rn_shared r));
          (r1, admitted) = do_admit (lim_concurrent (cs_limits snapshot)) r
      in if \<not> admitted
         then respond_error 503 ''capacity_exhausted'' ''Concurrent exchange capacity is exhausted.'' r1
         else
           let (r2, reservation, reserved) = reservePersistence p snapshot r1
           in if \<not> reserved
              then do_release (respond_error 503 ''persistence_capacity_exhausted''
                     ''Persistence writer capacity is exhausted.'' (do_reject r2))
              else
                let (r3, started) = startExchange p incoming snapshot r2;
                    r5 = (case started of
                        Inl err \<Rightarrow> respond_error 500 ''exchange_id_failed'' ''Exchange could not be created.'' r3
                      | Inr e \<Rightarrow>
                          let (r4, e1) = receive p incoming snapshot e r3
                          in commit_finished p reservation e1 r4)
                in do_release (cancel_deferred p reservation r5))"

definition Metrics :: "pipeline \<Rightarrow> int \<times> u64 \<times> u64" where
  "Metrics pl = (pl_in_flight pl, pl_admission_rejected pl, pl_body_too_large pl)"

section \<open>Stages\<close>

text \<open>The saves among the calls of a request.\<close>

definition saved :: "call \<Rightarrow> exchange list" where
  "saved c = (case c of CSave e \<Rightarrow> [e] | _ \<Rightarrow> [])"

definition saves :: "call list \<Rightarrow> exchange list" where
  "saves cs = concat (map saved cs)"

lemma saves_simps [simp]:
  "saves [] = []" "saves (c # cs) = saved c @ saves cs" "saves (as @ bs) = saves as @ saves bs"
  by (simp_all add: saves_def)

lemma saved_simps [simp]:
  "saved (CSave e) = [e]" "saved (CPublish v) = []" "saved (CAdmit ok) = []" "saved CRelease = []"
  "saved CReject = []" "saved CTooLarge = []" "saved (CReserve n x y) = []" "saved (CHandle q c) = []"
  "saved (CCommit i e z) = []" "saved (CCancel i) = []"
  by (simp_all add: saved_def)

text \<open>
  What two consecutive saves of one exchange may differ in: the revision grows by one with each
  change of state and with a completed request or response, and a state changes only as
  \<open>validTransition\<close> allows.
\<close>

definition step_ok :: "exchange \<Rightarrow> exchange \<Rightarrow> bool" where
  "step_ok a b \<longleftrightarrow> ex_id b = ex_id a \<and>
     (ex_state b = ex_state a \<and> (ex_revision b = ex_revision a \<or> ex_revision b = ex_revision a + 1)
      \<or> validTransition (ex_state a) (ex_state b) \<and> ex_revision b = ex_revision a + 1)"

fun chain :: "exchange \<Rightarrow> exchange list \<Rightarrow> bool" where
  "chain e [] = True"
| "chain e (x # xs) = (step_ok e x \<and> chain x xs)"

definition sig :: "exchange \<Rightarrow> string \<times> u64 \<times> xstate" where
  "sig e = (ex_id e, ex_revision e, ex_state e)"

text \<open>
  Events do not run ahead of the history: an event about the exchange carries the ID and the
  revision of its latest save.
\<close>

fun announced :: "(string \<times> u64) option \<Rightarrow> call list \<Rightarrow> bool" where
  "announced cur [] = True"
| "announced cur (CSave e # cs) = announced (Some (ex_id e, ex_revision e)) cs"
| "announced cur (CPublish v # cs) =
     ((ev_type v = ExchangeEvicted \<or> cur = Some (ev_exchange_id v, ev_revision v)) \<and> announced cur cs)"
| "announced cur (_ # cs) = announced cur cs"

definition inner :: "call \<Rightarrow> bool" where
  "inner c = (case c of CSave _ \<Rightarrow> True | CPublish _ \<Rightarrow> True | CTooLarge \<Rightarrow> True | CHandle _ _ \<Rightarrow> True | _ \<Rightarrow> False)"

definition stage :: "exchange \<Rightarrow> 's run \<Rightarrow> exchange \<Rightarrow> 's run \<Rightarrow> bool" where
  "stage e r e' r' \<longleftrightarrow> (\<exists>cs. rn_log r' = rn_log r @ cs \<and> chain e (saves cs)
     \<and> sig (last (e # saves cs)) = sig e' \<and> announced (Some (ex_id e, ex_revision e)) cs \<and> list_all inner cs)"

lemma chain_append: "chain e (xs @ ys) \<longleftrightarrow> chain e xs \<and> chain (last (e # xs)) ys"
  by (induction xs arbitrary: e) auto

lemma chain_sig: "sig e = sig f \<Longrightarrow> chain e xs = chain f xs"
  by (cases xs) (auto simp: sig_def step_ok_def)

fun current :: "(string \<times> u64) option \<Rightarrow> call list \<Rightarrow> (string \<times> u64) option" where
  "current cur [] = cur"
| "current cur (c # cs) = current (case c of CSave e \<Rightarrow> Some (ex_id e, ex_revision e) | _ \<Rightarrow> cur) cs"

lemma announced_append: "announced cur (as @ bs) \<longleftrightarrow> announced cur as \<and> announced (current cur as) bs"
  by (induction cur as rule: announced.induct) auto

lemma current_saves: "current (Some (ex_id e, ex_revision e)) cs
    = Some (ex_id (last (e # saves cs)), ex_revision (last (e # saves cs)))"
  by (induction cs arbitrary: e) (auto simp: saved_def split: call.splits)

lemma stage_trans [trans]:
  assumes "stage e r e1 r1" and "stage e1 r1 e2 r2"
  shows "stage e r e2 r2"
proof -
  obtain as where as: "rn_log r1 = rn_log r @ as" "chain e (saves as)" "sig (last (e # saves as)) = sig e1"
    "announced (Some (ex_id e, ex_revision e)) as" "list_all inner as"
    using assms(1) by (auto simp: stage_def)
  obtain bs where bs: "rn_log r2 = rn_log r1 @ bs" "chain e1 (saves bs)" "sig (last (e1 # saves bs)) = sig e2"
    "announced (Some (ex_id e1, ex_revision e1)) bs" "list_all inner bs"
    using assms(2) by (auto simp: stage_def)
  have "chain (last (e # saves as)) (saves bs)" using chain_sig [OF as(3)] bs(2) by simp
  moreover have "sig (last (e # saves (as @ bs))) = sig e2"
    using bs(3) as(3) by (cases "saves bs = []") (auto simp: last_append)
  moreover have "announced (current (Some (ex_id e, ex_revision e)) as) bs"
    using bs(4) as(3) by (simp only: current_saves) (simp add: sig_def)
  ultimately show ?thesis
    unfolding stage_def using as bs by (intro exI [of _ "as @ bs"]) (simp add: chain_append announced_append)
qed

lemma stage_local: "rn_log r' = rn_log r \<Longrightarrow> sig e' = sig e \<Longrightarrow> stage e r e' r'"
  unfolding stage_def by (intro exI [of _ "[]"]) simp

lemma stage_trans_sig: "stage e r e1 r1 \<Longrightarrow> sig e1 = sig e2 \<Longrightarrow> stage e r e2 r1"
  by (auto simp: stage_def)

lemma stage_from_sig: "stage e r e1 r1 \<Longrightarrow> sig e = sig f \<Longrightarrow> stage f r e1 r1"
  using stage_trans [OF stage_local [of r r e f]] by simp

section \<open>Effects of the primitive calls\<close>

lemma log_call_sel [simp]:
  "rn_log (log_call c r) = rn_log r @ [c]" "rn_pipeline (log_call c r) = rn_pipeline r"
  "rn_writer (log_call c r) = rn_writer r" "rn_shared (log_call c r) = rn_shared r"
  by (simp_all add: log_call_def)

lemma do_publish_sel [simp]:
  "rn_log (do_publish p v r) = rn_log r @ [CPublish v]" "rn_pipeline (do_publish p v r) = rn_pipeline r"
  "rn_writer (do_publish p v r) = rn_writer r"
  by (simp_all add: do_publish_def)

lemma do_now_sel:
  assumes "do_now p r = (r', t)"
  shows "rn_log r' = rn_log r" "rn_pipeline r' = rn_pipeline r" "rn_writer r' = rn_writer r"
  using assms by (auto simp: do_now_def split: prod.splits)

lemma do_id_sel:
  assumes "do_id p r = (r', i)"
  shows "rn_log r' = rn_log r" "rn_pipeline r' = rn_pipeline r" "rn_writer r' = rn_writer r"
  using assms by (auto simp: do_id_def split: prod.splits)

lemma respond_error_sel [simp]:
  "rn_log (respond_error n c m r) = rn_log r" "rn_pipeline (respond_error n c m r) = rn_pipeline r"
  "rn_shared (respond_error n c m r) = rn_shared r"
  "rn_writer (respond_error n c m r) = writePipelineError (rn_writer r) n c m"
  by (simp_all add: respond_error_def)

lemma publish_evicted_log:
  "rn_log (foldl (\<lambda>r x. do_publish p (event ExchangeEvicted (ex_id x) (ex_revision x) NoData) r) r es)
     = rn_log r @ map (\<lambda>x. CPublish (event ExchangeEvicted (ex_id x) (ex_revision x) NoData)) es"
  by (induction es arbitrary: r) simp_all

lemma publish_evicted_sel:
  "rn_pipeline (foldl (\<lambda>r x. do_publish p (event ExchangeEvicted (ex_id x) (ex_revision x) NoData) r) r es) = rn_pipeline r"
  "rn_writer (foldl (\<lambda>r x. do_publish p (event ExchangeEvicted (ex_id x) (ex_revision x) NoData) r) r es) = rn_writer r"
  by (induction es arbitrary: r) simp_all

lemma do_save_sel [simp]:
  "rn_pipeline (do_save p e r) = rn_pipeline r" "rn_writer (do_save p e r) = rn_writer r"
  by (simp_all add: do_save_def Let_def publish_evicted_sel split: prod.splits)

lemma do_save_log:
  obtains es :: "exchange list" where "rn_log (do_save p e r) = rn_log r @ CSave e #
    map (\<lambda>x. CPublish (event ExchangeEvicted (ex_id x) (ex_revision x) NoData)) es"
proof -
  obtain s es where "po_save p (rn_shared r) e = (s, es)" by fastforce
  then show ?thesis by (intro that [of es]) (simp add: do_save_def publish_evicted_log)
qed

lemma event_sel [simp]:
  "ev_type (event t i n d) = t" "ev_exchange_id (event t i n d) = i" "ev_revision (event t i n d) = n"
  by (simp_all add: event_def)

lemma saves_events [simp]: "saves (map (\<lambda>x. CPublish (f x)) es) = []"
  by (induction es) simp_all

lemma announced_evictions [simp]:
  "announced cur (map (\<lambda>x. CPublish (event ExchangeEvicted (ex_id x) (ex_revision x) NoData)) es)"
  by (induction es) simp_all

lemma inner_events [simp]: "list_all inner (map (\<lambda>x. CPublish (f x)) es)"
  by (induction es) (simp_all add: inner_def)

lemma inner_simps [simp]: "inner (CSave e)" "inner (CPublish v)" "inner CTooLarge" "inner (CHandle q c)"
  by (simp_all add: inner_def)

lemma do_save_saves [simp]: "saves (rn_log (do_save p e r)) = saves (rn_log r) @ [e]"
proof -
  obtain es :: "exchange list" where "rn_log (do_save p e r) = rn_log r @ CSave e #
    map (\<lambda>x. CPublish (event ExchangeEvicted (ex_id x) (ex_revision x) NoData)) es"
    by (rule do_save_log)
  then show ?thesis by simp
qed

lemma stage_save:
  assumes "step_ok e e1"
  shows "stage e r e1 (do_save p e1 r)"
proof -
  obtain es :: "exchange list" where "rn_log (do_save p e1 r) = rn_log r @ CSave e1 #
    map (\<lambda>x. CPublish (event ExchangeEvicted (ex_id x) (ex_revision x) NoData)) es"
    by (rule do_save_log)
  with assms show ?thesis unfolding stage_def by (intro exI conjI) (assumption, simp_all)
qed

lemma stage_publish: "stage e r e (do_publish p (event t (ex_id e) (ex_revision e) d) r)"
  unfolding stage_def by (intro exI [of _ "[CPublish (event t (ex_id e) (ex_revision e) d)]"]) simp

lemma stage_handle: "stage e r e (log_call (CHandle q c) r)"
  unfolding stage_def by (intro exI [of _ "[CHandle q c]"]) simp

lemma stage_too_large: "stage e r e (do_too_large r)"
  unfolding stage_def do_too_large_def by (intro exI [of _ "[CTooLarge]"]) simp

lemma sig_update [simp]:
  "sig (e\<lparr>ex_error := a\<rparr>) = sig e" "sig (e\<lparr>ex_request := b\<rparr>) = sig e" "sig (e\<lparr>ex_response := c\<rparr>) = sig e"
  "sig (e\<lparr>ex_timing := d\<rparr>) = sig e" "sig (e\<lparr>ex_delivery := f\<rparr>) = sig e" "sig (e\<lparr>ex_persistence := g\<rparr>) = sig e"
  "sig (set_error k m e) = sig e"
  by (simp_all add: sig_def set_error_def)

lemma sig_apply [simp]: "sig (applyModeResult e res) = sig e"
  by (simp add: applyModeResult_def Let_def sig_def split: option.splits)

lemma applyModeResult_sel [simp]:
  "ex_mode (applyModeResult e res) = ex_mode e" "ex_error (applyModeResult e res) = ex_error e"
  "ex_state (applyModeResult e res) = ex_state e" "ex_id (applyModeResult e res) = ex_id e"
  "ex_response (applyModeResult e res) = mr_captured res"
  "rq_body (ex_request (applyModeResult e res)) = rq_body (ex_request e)"
  "rq_observed (ex_request (applyModeResult e res)) = rq_observed (ex_request e)"
  "rq_complete (ex_request (applyModeResult e res)) = rq_complete (ex_request e)"
  by (simp_all add: applyModeResult_def Let_def split: option.splits)

lemma set_error_sel [simp]:
  "ex_error (set_error k m e) = Some \<lparr>ee_category = k, ee_message = m\<rparr>" "ex_state (set_error k m e) = ex_state e"
  "ex_request (set_error k m e) = ex_request e" "ex_id (set_error k m e) = ex_id e"
  "ex_mode (set_error k m e) = ex_mode e" "ex_response (set_error k m e) = ex_response e"
  "ex_delivery (set_error k m e) = ex_delivery e"
  by (simp_all add: set_error_def)

lemma step_ok_Transition: "Transition e s t = Inr e1 \<Longrightarrow> step_ok e e1"
  by (auto simp: step_ok_def dest: Transition_Inr)

section \<open>Stages of the request\<close>

lemma fail_spec:
  assumes "fail p e st r = (r', e')" and "validTransition (ex_state e) st"
  shows "stage e r e' r'" and "ex_state e' = st" and "ex_error e' = ex_error e"
    and "ex_request e' = ex_request e" and "rn_pipeline r' = rn_pipeline r" and "rn_writer r' = rn_writer r"
    and "\<exists>at. Transition e st at = Inr e'" and "saves (rn_log r') = saves (rn_log r) @ [e']"
proof -
  obtain r1 at where n: "do_now p r = (r1, at)" by fastforce
  obtain e1 where t: "Transition e st at = Inr e1" using Transition_ok [OF assms(2)] by blast
  have e': "e' = e1" and r': "r' = do_publish p (event ExchangeFailed (ex_id e1) (ex_revision e1) (ErrorData (ex_error e1))) (do_save p e1 r1)"
    using assms(1) by (auto simp: fail_def n t Let_def)
  have "stage e r e r1" by (rule stage_local) (simp_all add: do_now_sel [OF n])
  also have "stage e r1 e1 (do_save p e1 r1)" by (rule stage_save [OF step_ok_Transition [OF t]])
  also have "stage e1 (do_save p e1 r1) e1 r'" unfolding r' by (rule stage_publish)
  finally show "stage e r e' r'" by (simp add: e')
  show "ex_state e' = st" "ex_error e' = ex_error e" "ex_request e' = ex_request e"
    using Transition_Inr [OF t] by (simp_all add: e')
  show "rn_pipeline r' = rn_pipeline r" "rn_writer r' = rn_writer r" "saves (rn_log r') = saves (rn_log r) @ [e']"
    by (simp_all add: r' e' do_now_sel [OF n])
  show "\<exists>at. Transition e st at = Inr e'" using t e' by blast
qed

lemma writeResponse_spec:
  assumes "writeResponse p e response r = (r', e', written, err)"
  shows "stage e r e' r'" and "rn_pipeline r' = rn_pipeline r" and "saves (rn_log r') = saves (rn_log r)"
    and "writeDownstream (rn_writer r) response = (rn_writer r', written, err)"
    and "ex_state e' = ex_state e" and "ex_error e' = ex_error e" and "ex_request e' = ex_request e"
    and "ex_mode e' = ex_mode e" and "ex_response e' = ex_response e" and "ex_delivery e' = ex_delivery e"
proof -
  obtain r1 started where n1: "do_now p r = (r1, started)" by fastforce
  obtain rw w er where d: "writeDownstream (rn_writer r1) response = (rw, w, er)"
    by (cases "writeDownstream (rn_writer r1) response")
  obtain r2 completed where n2: "do_now p (r1\<lparr>rn_writer := rw\<rparr>) = (r2, completed)" by fastforce
  note all = assms [unfolded writeResponse_def n1 Let_def d n2 prod.case]
  have r2: "rn_log r2 = rn_log r" "rn_pipeline r2 = rn_pipeline r" "rn_writer r2 = rw"
    by (simp_all add: do_now_sel [OF n2] do_now_sel [OF n1])
  show "stage e r e' r'" using all r2 by (intro stage_local) (auto split: if_splits)
  show "rn_pipeline r' = rn_pipeline r" "saves (rn_log r') = saves (rn_log r)"
    "writeDownstream (rn_writer r) response = (rn_writer r', written, err)"
    using all r2 d by (auto simp: do_now_sel [OF n1])
  show "ex_state e' = ex_state e" "ex_error e' = ex_error e" "ex_request e' = ex_request e"
    "ex_mode e' = ex_mode e" "ex_response e' = ex_response e" "ex_delivery e' = ex_delivery e"
    using all by (auto split: if_splits)
qed

text \<open>How a request ends: the state of its exchange, the category of its error, its HTTP status.\<close>

type_synonym verdict = "xstate \<times> string option \<times> int"

definition finished :: "verdict \<Rightarrow> exchange \<Rightarrow> 's run \<Rightarrow> exchange \<Rightarrow> 's run \<Rightarrow> bool" where
  "finished v e r e' r' \<longleftrightarrow> (case v of (state, category, status) \<Rightarrow>
     stage e r e' r' \<and> ex_state e' = state \<and> IsTerminal state \<and> map_option ee_category (ex_error e') = category
     \<and> (\<exists>at e0. Transition e0 state at = Inr e')
     \<and> (\<exists>xs. saves (rn_log r') = saves (rn_log r) @ xs @ [e'])
     \<and> rn_pipeline r' = rn_pipeline r
     \<and> (rw_sent (rn_writer r) = None \<and> 200 \<le> status \<longrightarrow> map_option fst (rw_sent (rn_writer r')) = Some status)
     \<and> rq_body (ex_request e') = rq_body (ex_request e)
     \<and> rq_observed (ex_request e') = rq_observed (ex_request e)
     \<and> rq_complete (ex_request e') = rq_complete (ex_request e))"

text \<open>What a stage that precedes the end leaves alone.\<close>

definition quiet :: "exchange \<Rightarrow> 's run \<Rightarrow> exchange \<Rightarrow> 's run \<Rightarrow> bool" where
  "quiet e r e1 r1 \<longleftrightarrow> stage e r e1 r1 \<and> (\<exists>xs. saves (rn_log r1) = saves (rn_log r) @ xs)
     \<and> rn_pipeline r1 = rn_pipeline r \<and> rn_writer r1 = rn_writer r
     \<and> rq_body (ex_request e1) = rq_body (ex_request e)
     \<and> rq_observed (ex_request e1) = rq_observed (ex_request e)
     \<and> rq_complete (ex_request e1) = rq_complete (ex_request e)"

lemma quiet_finished: "quiet e r e1 r1 \<Longrightarrow> finished v e1 r1 e' r' \<Longrightarrow> finished v e r e' r'"
  by (auto simp: quiet_def finished_def intro: stage_trans)

lemma quiet_local:
  assumes "rn_log r1 = rn_log r" and "rn_pipeline r1 = rn_pipeline r" and "rn_writer r1 = rn_writer r"
    and "sig e1 = sig e" and "rq_body (ex_request e1) = rq_body (ex_request e)"
    and "rq_observed (ex_request e1) = rq_observed (ex_request e)"
    and "rq_complete (ex_request e1) = rq_complete (ex_request e)"
  shows "quiet e r e1 r1"
  using assms by (simp add: quiet_def stage_local)

lemma quiet_trans [trans]: "quiet e r e1 r1 \<Longrightarrow> quiet e1 r1 e2 r2 \<Longrightarrow> quiet e r e2 r2"
  by (auto simp: quiet_def intro: stage_trans)

lemma quiet_save:
  assumes "step_ok e e1" and "ex_request e1 = ex_request e"
  shows "quiet e r e1 (do_save p e1 r)"
  using assms by (simp add: quiet_def stage_save)

lemma quiet_publish: "quiet e r e (do_publish p (event t (ex_id e) (ex_revision e) d) r)"
  by (simp add: quiet_def stage_publish)

lemma quiet_now: "do_now p r = (r1, t) \<Longrightarrow> quiet e r e r1"
  by (rule quiet_local) (simp_all add: do_now_sel)

lemma fail_finished:
  assumes "fail p (set_error category message e) st r = (r', e')"
    and "validTransition (ex_state e) st" and "IsTerminal st" and "status \<le> 599"
  shows "finished (st, Some category, status) e r e' (respond_error status code message' r')"
proof -
  have v: "validTransition (ex_state (set_error category message e)) st" using assms(2) by simp
  note f = fail_spec [OF assms(1) v]
  have "stage e r e' r'" by (rule stage_from_sig [OF f(1)]) simp
  then have "stage e r e' (respond_error status code message' r')" by (auto simp: stage_def)
  moreover have "map_option fst (rw_sent (writePipelineError (rn_writer r) status code message')) = Some status"
    if "rw_sent (rn_writer r) = None" "200 \<le> status"
    using that assms(4) writeDownstream_sent [of "rn_writer r" "pipelineErrorResponse status code message'"]
    by (simp add: writePipelineError_def normalizedStatus_id)
  ultimately show ?thesis
    using f assms(3) by (auto simp: finished_def)
qed

lemma fail_finished_written:
  assumes "fail p e st r1 = (r', e')" and "quiet e0 r e r1 \<or> rn_pipeline r1 = rn_pipeline r \<and> stage e0 r e r1
      \<and> saves (rn_log r1) = saves (rn_log r) \<and> ex_request e = ex_request e0"
    and "validTransition (ex_state e) st" and "IsTerminal st" and "map_option ee_category (ex_error e) = category"
    and "rw_sent (rn_writer r) = None \<Longrightarrow> 200 \<le> status \<Longrightarrow> map_option fst (rw_sent (rn_writer r1)) = Some status"
  shows "finished (st, category, status) e0 r e' r'"
proof -
  note f = fail_spec [OF assms(1,3)]
  have "stage e0 r e' r'" using assms(2) f(1) by (auto simp: quiet_def intro: stage_trans)
  moreover have "\<exists>xs. saves (rn_log r1) = saves (rn_log r) @ xs"
    using assms(2) by (auto simp: quiet_def)
  ultimately show ?thesis
    using f assms(2,4-6) by (auto simp: finished_def quiet_def)
qed

lemma applyModeResult_quiet: "quiet e r (applyModeResult e res) r"
  by (rule quiet_local) simp_all

lemma handler_failed_spec:
  assumes "handler_failed p incoming snapshot err e r = (r', e')"
    and "validTransition (ex_state e) StateFailed" and "validTransition (ex_state e) StateCancelled"
    and "modeFailure err (hq_context_err incoming) = (st, status, category, message)"
  shows "finished (st, Some category, status) e r e' r'"
proof -
  have st: "st = StateFailed \<or> st = StateCancelled" and status: "100 \<le> status" "status \<le> 599"
    using assms(4) by (auto simp: modeFailure_def split: if_splits option.splits prod.splits)
  let ?response = "pipelineErrorResponse status category message"
  define e2 where "e2 = (if cs_mode snapshot = ModeProxy \<and> st \<noteq> StateCancelled
      then (set_error category message e)\<lparr>ex_response := Some (capturedProxyError ?response (cs_preview snapshot))\<rparr>
      else set_error category message e)"
  have e2: "sig e2 = sig e" "ex_error e2 = Some \<lparr>ee_category = category, ee_message = message\<rparr>"
    "ex_request e2 = ex_request e" "ex_state e2 = ex_state e"
    by (simp_all add: e2_def)
  obtain r1 e3 written we where w: "writeResponse p e2 ?response r = (r1, e3, written, we)"
    by (cases "writeResponse p e2 ?response r")
  note ws = writeResponse_spec [OF w]
  define e5 where "e5 = (case we of
      None \<Rightarrow> e3\<lparr>ex_delivery := \<lparr>dd_status = status, dd_body_bytes = written, dd_error = []\<rparr>\<rparr>
    | Some msg \<Rightarrow> (e3\<lparr>ex_delivery := \<lparr>dd_status = status, dd_body_bytes = written, dd_error = []\<rparr>\<rparr>)
        \<lparr>ex_delivery := (ex_delivery (e3\<lparr>ex_delivery := \<lparr>dd_status = status, dd_body_bytes = written, dd_error = []\<rparr>\<rparr>))\<lparr>dd_error := msg\<rparr>\<rparr>)"
  have e5: "sig e5 = sig e3" "ex_error e5 = ex_error e3" "ex_request e5 = ex_request e3" "ex_state e5 = ex_state e3"
    by (auto simp: e5_def split: option.splits)
  have f: "fail p e5 st r1 = (r', e')"
    using assms(1) by (simp add: handler_failed_def assms(4) e2_def [symmetric] w e5_def [symmetric] Let_def)
  have "stage e r e5 r1"
    by (rule stage_trans_sig [OF stage_from_sig [OF ws(1)]]) (simp_all add: e5 e2)
  then have q: "rn_pipeline r1 = rn_pipeline r \<and> stage e r e5 r1 \<and> saves (rn_log r1) = saves (rn_log r)
      \<and> ex_request e5 = ex_request e"
    using ws e2 e5 by simp
  show ?thesis
  proof (rule fail_finished_written [OF f disjI2 [OF q]])
    show "validTransition (ex_state e5) st" "IsTerminal st" using st assms(2,3) ws(5) e2 e5 by auto
    show "map_option ee_category (ex_error e5) = Some category" using e5 e2 ws by simp
    show "rw_sent (rn_writer r) = None \<Longrightarrow> 200 \<le> status \<Longrightarrow> map_option fst (rw_sent (rn_writer r1)) = Some status"
      using writeDownstream_sent [of "rn_writer r" ?response] ws(4) status by (simp add: normalizedStatus_id)
  qed
qed

lemma quiet_refl: "quiet e r e r"
  by (rule quiet_local) simp_all

lemma announce_response_quiet:
  assumes "announce_response p snapshot e r = (r1, e1)"
  shows "quiet e r e1 r1" and "ex_error e1 = ex_error e" and "ex_state e1 = ex_state e"
proof -
  let ?e = "e\<lparr>ex_revision := ex_revision e + 1\<rparr>"
  have "quiet e r ?e (do_save p ?e r)" by (rule quiet_save) (simp_all add: step_ok_def)
  from quiet_trans [OF this quiet_publish] assms show "quiet e r e1 r1"
    by (auto simp: announce_response_def Let_def quiet_refl split: option.splits if_splits)
  show "ex_error e1 = ex_error e" "ex_state e1 = ex_state e"
    using assms by (auto simp: announce_response_def Let_def split: option.splits if_splits)
qed

lemma deliver_spec:
  assumes "deliver p snapshot result e r = (r', e')" and "ex_error e = None"
    and v: "validTransition (ex_state e) StateCompleted" "validTransition (ex_state e) StateFailed"
  shows "finished (if fits (rn_writer r) (mr_response result)
      then (StateCompleted, None, normalizedStatus (dr_status (mr_response result)))
      else (StateFailed, Some ''downstream_write_failed'', normalizedStatus (dr_status (mr_response result)))) e r e' r'"
proof -
  let ?status = "normalizedStatus (dr_status (mr_response result))"
  obtain r1 e1 where a: "announce_response p snapshot e r = (r1, e1)" by fastforce
  note q1 = announce_response_quiet [OF a]
  have w1: "rn_writer r1 = rn_writer r" using q1(1) by (simp add: quiet_def)
  obtain r2 e2 written we where w: "writeResponse p e1 (mr_response result) r1 = (r2, e2, written, we)"
    by (cases "writeResponse p e1 (mr_response result) r1")
  note ws = writeResponse_spec [OF w]
  define e3 where "e3 = e2\<lparr>ex_delivery := (ex_delivery e2)\<lparr>dd_status := ?status, dd_body_bytes := written\<rparr>\<rparr>"
  have e3: "sig e3 = sig e2" "ex_state e3 = ex_state e" "ex_error e3 = None" "ex_request e3 = ex_request e1"
    using ws q1 assms(2) by (simp_all add: e3_def)
  have sent: "map_option fst (rw_sent (rn_writer r2)) = Some ?status" if "rw_sent (rn_writer r1) = None" "200 \<le> ?status"
    using writeDownstream_sent [OF that] ws(4) by simp
  have fit: "we = None \<longleftrightarrow> fits (rn_writer r) (mr_response result)"
    using writeDownstream_error [of "rn_writer r1" "mr_response result"] ws(4) w1 by simp
  have d: "deliver p snapshot result e r = (case we of
         Some msg \<Rightarrow> fail p (set_error ''downstream_write_failed'' ''Response could not be delivered completely.''
             (e3\<lparr>ex_delivery := (ex_delivery e3)\<lparr>dd_error := msg\<rparr>\<rparr>)) StateFailed r2
       | None \<Rightarrow> (let (r3, at) = do_now p r2
             in case Transition e3 StateCompleted at of
                  Inl err \<Rightarrow> internalFailure p e3 (transition_error err) r3
                | Inr e4 \<Rightarrow> (do_save p e4 r3, e4)))"
    unfolding deliver_def a Let_def prod.case w e3_def by (rule refl)
  show ?thesis
  proof (cases we)
    case None
    obtain r3 at where n: "do_now p r2 = (r3, at)" by fastforce
    obtain e4 where t: "Transition e3 StateCompleted at = Inr e4" using Transition_ok v(1) e3(2) by metis
    have e': "e' = e4" "r' = do_save p e4 r3" using d assms(1) None n t by auto
    have "stage e1 r1 e3 r3"
      by (rule stage_trans_sig [OF stage_trans [OF ws(1) stage_local [of r3 r2 e2 e2]]])
        (simp_all add: do_now_sel [OF n] e3)
    also have "stage e3 r3 e4 (do_save p e4 r3)" by (rule stage_save [OF step_ok_Transition [OF t]])
    finally have "stage e1 r1 e' r'" by (simp add: e')
    then have "finished (StateCompleted, None, ?status) e1 r1 e' r'"
      using sent ws e3 t unfolding finished_def
      by (auto simp: e' do_now_sel [OF n] Transition_Inr [OF t])
    from quiet_finished [OF q1(1) this] None fit show ?thesis by simp
  next
    case (Some msg)
    let ?e5 = "set_error ''downstream_write_failed'' ''Response could not be delivered completely.''
             (e3\<lparr>ex_delivery := (ex_delivery e3)\<lparr>dd_error := msg\<rparr>\<rparr>)"
    have f: "fail p ?e5 StateFailed r2 = (r', e')" using d assms(1) Some by simp
    have "stage e1 r1 ?e5 r2" by (rule stage_trans_sig [OF ws(1)]) (simp add: e3)
    then have "rn_pipeline r2 = rn_pipeline r1 \<and> stage e1 r1 ?e5 r2 \<and> saves (rn_log r2) = saves (rn_log r1)
      \<and> ex_request ?e5 = ex_request e1" using ws e3 by simp
    from fail_finished_written [OF f disjI2 [OF this], of "Some ''downstream_write_failed''" ?status]
    have "finished (StateFailed, Some ''downstream_write_failed'', ?status) e1 r1 e' r'"
      using e3 v sent by simp
    from quiet_finished [OF q1(1) this] Some fit show ?thesis by simp
  qed
qed

section \<open>The outcome of a request, without its effects\<close>

definition received_request :: "http_request \<Rightarrow> config_snapshot \<Rightarrow> request" where
  "received_request incoming snapshot =
     (let (body, observed, readError) = ReadBody (hq_body incoming) (lim_request_body (cs_limits snapshot));
          (pre, truncated) = preview body (cs_preview snapshot)
      in (incoming_request incoming)\<lparr>rq_body := body, rq_observed := observed,
           rq_complete := (readError = None), rq_preview := pre, rq_preview_truncated := truncated\<rparr>)"

definition mode_outcome :: "'s pipeline_options \<Rightarrow> http_request \<Rightarrow> config_snapshot \<Rightarrow> request \<Rightarrow> response_writer \<Rightarrow> verdict" where
  "mode_outcome p incoming snapshot rq w =
     (case po_handlers p (cs_mode snapshot) of
        None \<Rightarrow> (StateFailed, Some ''mode_handler_unavailable'', 501)
      | Some handle \<Rightarrow> (case handle rq snapshot of
            (result, Some err) \<Rightarrow>
              (let (state, status, category, message) = modeFailure err (hq_context_err incoming)
               in (state, Some category, status))
          | (result, None) \<Rightarrow>
              if fits w (mr_response result)
              then (StateCompleted, None, normalizedStatus (dr_status (mr_response result)))
              else (StateFailed, Some ''downstream_write_failed'', normalizedStatus (dr_status (mr_response result)))))"

definition outcome :: "'s pipeline_options \<Rightarrow> http_request \<Rightarrow> config_snapshot \<Rightarrow> response_writer \<Rightarrow> verdict" where
  "outcome p incoming snapshot w =
     (if HeaderBytesEstimate (hq_header incoming) (hq_host incoming) > lim_request_header (cs_limits snapshot)
      then (StateFailed, Some ''request_headers_too_large'', 431)
      else case ReadBody (hq_body incoming) (lim_request_body (cs_limits snapshot)) of
          (body, observed, Some err) \<Rightarrow>
            if errors_is err BodyTooLarge then (StateFailed, Some ''request_body_too_large'', 413)
            else (StateFailed, Some ''request_body_read_failed'', 400)
        | (body, observed, None) \<Rightarrow> mode_outcome p incoming snapshot (received_request incoming snapshot) w)"

lemma finished_cong: "finished v e r e' r' \<Longrightarrow> v = v' \<Longrightarrow> finished v' e r e' r'"
  by simp

lemma dispatch_spec:
  assumes "dispatch p incoming snapshot e r = (r', e')" and "ex_state e = StateReceiving" and "ex_error e = None"
  shows "finished (mode_outcome p incoming snapshot (ex_request e) (rn_writer r)) e r e' r'"
proof -
  obtain r1 e1 where q: "quiet e r e1 r1" "ex_error e1 = None" "ex_request e1 = ex_request e"
      "validTransition (ex_state e1) StateCompleted" "validTransition (ex_state e1) StateFailed"
      "validTransition (ex_state e1) StateCancelled"
    and d: "dispatch p incoming snapshot e r =
      (case po_handlers p (cs_mode snapshot) of
         None \<Rightarrow>
           let (r2, e2) = fail p (set_error ''mode_handler_unavailable'' ''Configured mode is unavailable.'' e1) StateFailed r1
           in (respond_error 501 ''mode_handler_unavailable'' ''Configured mode is unavailable.'' r2, e2)
       | Some handle \<Rightarrow>
           let rq = clone_request (ex_request e1); sn = clone_snapshot snapshot;
               (result, handleError) = handle rq sn;
               r2 = log_call (CHandle rq sn) r1;
               e2 = applyModeResult e1 result
           in case handleError of
                Some err \<Rightarrow> handler_failed p incoming snapshot err e2 r2
              | None \<Rightarrow> deliver p snapshot result e2 r2)"
  proof (cases "cs_mode snapshot = ModeProxy")
    case True
    obtain r0 at where n: "do_now p r = (r0, at)" by fastforce
    obtain e1 where t: "Transition e StateForwarding at = Inr e1"
      using Transition_ok [of e StateForwarding at] assms(2) by auto
    have "quiet e r e r0" by (rule quiet_now [OF n])
    also have "quiet e r0 e1 (do_save p e1 r0)"
      by (rule quiet_save [OF step_ok_Transition [OF t]]) (simp add: Transition_Inr [OF t])
    finally have "quiet e r e1 (do_save p e1 r0)" .
    then show ?thesis
      by (rule that) (use True n t assms(3) in \<open>simp_all add: dispatch_def Transition_Inr [OF t]\<close>)
  next
    case False
    show ?thesis
      by (rule that [OF quiet_refl]) (use False assms in \<open>simp_all add: dispatch_def\<close>)
  qed
  have w: "rn_writer r1 = rn_writer r" using q(1) by (simp add: quiet_def)
  show ?thesis
  proof (cases "po_handlers p (cs_mode snapshot)")
    case None
    obtain r2 e2 where f: "fail p (set_error ''mode_handler_unavailable'' ''Configured mode is unavailable.'' e1) StateFailed r1 = (r2, e2)"
      by fastforce
    from fail_finished [OF f q(5), of 501] d None assms(1) f
    have "finished (StateFailed, Some ''mode_handler_unavailable'', 501) e1 r1 e' r'" by simp
    from quiet_finished [OF q(1) this] None show ?thesis by (simp add: mode_outcome_def)
  next
    case (Some handle)
    obtain result handleError where h: "handle (ex_request e) snapshot = (result, handleError)" by fastforce
    let ?r2 = "log_call (CHandle (ex_request e) snapshot) r1"
    let ?e2 = "applyModeResult e1 result"
    have "stage e1 r1 ?e2 ?r2" by (rule stage_trans_sig [OF stage_handle]) simp
    then have q2: "quiet e1 r1 ?e2 ?r2" by (simp add: quiet_def)
    have q12: "quiet e r ?e2 ?r2" by (rule quiet_trans [OF q(1) q2])
    show ?thesis
    proof (cases handleError)
      case None
      have "deliver p snapshot result ?e2 ?r2 = (r', e')" using d assms(1) Some h None q(3) by simp
      from deliver_spec [OF this] q
      have "finished (if fits (rn_writer r) (mr_response result)
          then (StateCompleted, None, normalizedStatus (dr_status (mr_response result)))
          else (StateFailed, Some ''downstream_write_failed'', normalizedStatus (dr_status (mr_response result)))) ?e2 ?r2 e' r'"
        by (simp add: w)
      from quiet_finished [OF q12 this] Some h None show ?thesis by (simp add: mode_outcome_def)
    next
      case (Some err)
      obtain st status category message where m: "modeFailure err (hq_context_err incoming) = (st, status, category, message)"
        by (cases "modeFailure err (hq_context_err incoming)")
      have "handler_failed p incoming snapshot err ?e2 ?r2 = (r', e')"
        using d assms(1) \<open>po_handlers p (cs_mode snapshot) = Some handle\<close> h Some q(3) by simp
      from handler_failed_spec [OF this _ _ m] q
      have "finished (st, Some category, status) ?e2 ?r2 e' r'" by simp
      from quiet_finished [OF q12 this] \<open>po_handlers p (cs_mode snapshot) = Some handle\<close> h Some m
      show ?thesis by (simp add: mode_outcome_def)
    qed
  qed
qed

definition headers_fit :: "http_request \<Rightarrow> config_snapshot \<Rightarrow> bool" where
  "headers_fit incoming snapshot \<longleftrightarrow>
     HeaderBytesEstimate (hq_header incoming) (hq_host incoming) \<le> lim_request_header (cs_limits snapshot)"

definition body_too_large :: "http_request \<Rightarrow> config_snapshot \<Rightarrow> bool" where
  "body_too_large incoming snapshot \<longleftrightarrow> headers_fit incoming snapshot
     \<and> (\<exists>err. snd (snd (ReadBody (hq_body incoming) (lim_request_body (cs_limits snapshot)))) = Some err
            \<and> errors_is err BodyTooLarge)"

definition same_body :: "request \<Rightarrow> request \<Rightarrow> bool" where
  "same_body a b \<longleftrightarrow> rq_body a = rq_body b \<and> rq_observed a = rq_observed b \<and> rq_complete a = rq_complete b"

lemma incoming_request_header_bytes [simp]:
  "rq_header_bytes (incoming_request incoming) = HeaderBytesEstimate (hq_header incoming) (hq_host incoming)"
  by (simp add: incoming_request_def)

lemma do_too_large_sel [simp]:
  "rn_writer (do_too_large r) = rn_writer r" "rn_pipeline (do_too_large r) = recordBodyTooLarge (rn_pipeline r)"
  "saves (rn_log (do_too_large r)) = saves (rn_log r)"
  by (simp_all add: do_too_large_def)

lemma receive_spec:
  assumes rec: "receive p incoming snapshot e r = (r', e')" and st: "ex_state e = StateReceiving"
    and noerr: "ex_error e = None" and rq: "ex_request e = incoming_request incoming"
  shows "\<exists>e0 r0. stage e r e0 r0 \<and> rn_writer r0 = rn_writer r \<and> (\<exists>xs. saves (rn_log r0) = saves (rn_log r) @ xs)
    \<and> rn_pipeline r0 = (if body_too_large incoming snapshot then recordBodyTooLarge (rn_pipeline r) else rn_pipeline r)
    \<and> finished (outcome p incoming snapshot (rn_writer r)) e0 r0 e' r'
    \<and> (headers_fit incoming snapshot \<longrightarrow> same_body (ex_request e0) (received_request incoming snapshot))"
proof (cases "headers_fit incoming snapshot")
  case False
  have o: "outcome p incoming snapshot (rn_writer r) = (StateFailed, Some ''request_headers_too_large'', 431)"
    and nb: "\<not> body_too_large incoming snapshot"
    using False by (simp_all add: outcome_def headers_fit_def body_too_large_def)
  obtain r1 e1 where f: "fail p (set_error ''request_headers_too_large'' ''Request headers exceed configured limit.'' e) StateFailed r = (r1, e1)"
    by fastforce
  with rec False rq have "r' = respond_error 431 ''request_headers_too_large'' ''Request headers exceed configured limit.'' r1" "e' = e1"
    by (auto simp: receive_def headers_fit_def)
  with fail_finished [OF f, of 431] st
  have "finished (StateFailed, Some ''request_headers_too_large'', 431) e r e' r'" by simp
  with o nb False show ?thesis by (intro exI [of _ e] exI [of _ r]) (simp add: stage_local)
next
  case True
  obtain body observed readError where b: "ReadBody (hq_body incoming) (lim_request_body (cs_limits snapshot)) = (body, observed, readError)"
    by (cases "ReadBody (hq_body incoming) (lim_request_body (cs_limits snapshot))")
  obtain pre truncated where pv: "preview body (cs_preview snapshot) = (pre, truncated)" by fastforce
  let ?e1 = "e\<lparr>ex_request := received_request incoming snapshot\<rparr>"
  have rr: "received_request incoming snapshot = (incoming_request incoming)\<lparr>rq_body := body, rq_observed := observed,
           rq_complete := (readError = None), rq_preview := pre, rq_preview_truncated := truncated\<rparr>"
    by (simp add: received_request_def b pv)
  have ok: "\<not> HeaderBytesEstimate (hq_header incoming) (hq_host incoming) > lim_request_header (cs_limits snapshot)"
    using True by (simp add: headers_fit_def)
  have s1: "stage e r ?e1 r" by (rule stage_local) simp_all
  show ?thesis
  proof (cases readError)
    case None
    let ?e2 = "?e1\<lparr>ex_revision := ex_revision ?e1 + 1\<rparr>"
    define r2 where "r2 = do_publish p (event RequestCompleted (ex_id ?e2) (ex_revision ?e2)
        (RequestData (rq_header_bytes (ex_request ?e2)) (int (length (rq_body (ex_request ?e2))))
           (rq_preview (ex_request ?e2)) (rq_preview_truncated (ex_request ?e2)))) (do_save p ?e2 r)"
    have q: "quiet ?e1 r ?e2 r2"
      unfolding r2_def by (rule quiet_trans [OF quiet_save quiet_publish]) (simp_all add: step_ok_def)
    have d: "dispatch p incoming snapshot ?e2 r2 = (r', e')"
      using rec ok by (simp add: receive_def rq b pv None rr r2_def Let_def)
    have o: "outcome p incoming snapshot (rn_writer r) = mode_outcome p incoming snapshot (received_request incoming snapshot) (rn_writer r)"
      using ok by (simp add: outcome_def b None)
    have w2: "rn_writer r2 = rn_writer r" using q by (simp add: quiet_def)
    from dispatch_spec [OF d] st noerr
    have "finished (mode_outcome p incoming snapshot (received_request incoming snapshot) (rn_writer r)) ?e2 r2 e' r'"
      by (simp add: w2)
    from quiet_finished [OF q this] o s1 b None show ?thesis
      by (intro exI [of _ ?e1] exI [of _ r]) (simp add: body_too_large_def same_body_def)
  next
    case (Some err)
    let ?large = "errors_is err BodyTooLarge"
    define cat where "cat = (if ?large then ''request_body_too_large'' else ''request_body_read_failed'')"
    define msg where "msg = (if ?large then ''Request body exceeds configured limit.'' else ''Request body could not be read.'')"
    define status :: int where "status = (if ?large then 413 else 400)"
    define r1 where "r1 = (if ?large then do_too_large r else r)"
    obtain r2 e2 where f: "fail p (set_error cat msg ?e1) StateFailed r1 = (r2, e2)" by fastforce
    have "receive p incoming snapshot e r = (respond_error status cat msg r2, e2)"
      using ok f by (cases ?large) (simp_all add: receive_def rq b pv Some rr cat_def msg_def status_def r1_def)
    with rec have e': "e' = e2" "r' = respond_error status cat msg r2" by auto
    have o: "outcome p incoming snapshot (rn_writer r) = (StateFailed, Some cat, status)"
      using ok by (simp add: outcome_def b Some cat_def status_def)
    have l: "body_too_large incoming snapshot \<longleftrightarrow> ?large" using True by (simp add: body_too_large_def b Some)
    have "stage ?e1 r ?e1 r1" by (auto simp: r1_def stage_too_large stage_local)
    then have s2: "stage e r ?e1 r1" by (rule stage_trans [OF s1])
    have "finished (StateFailed, Some cat, status) ?e1 r1 e' r'"
      using fail_finished [OF f, of status] st e' by (simp add: status_def)
    with o l s2 show ?thesis
      by (intro exI [of _ ?e1] exI [of _ r1]) (simp add: r1_def same_body_def)
  qed
qed

section \<open>The whole request\<close>

lemma startExchange_spec:
  assumes "startExchange p incoming snapshot r = (r', Inr e)"
  shows "ex_state e = StateReceiving" and "ex_error e = None" and "ex_request e = incoming_request incoming"
    and "ex_revision e = 1" and "ex_mode e = cs_mode snapshot" and "ex_persistence e = None"
    and "rn_pipeline r' = rn_pipeline r" and "rn_writer r' = rn_writer r"
    and "\<exists>cs. rn_log r' = rn_log r @ CSave e # cs \<and> saves cs = [] \<and> list_all inner cs
           \<and> announced (Some (ex_id e, ex_revision e)) cs"
proof -
  obtain r1 t where n: "do_now p r = (r1, t)" by fastforce
  obtain r2 g where i: "do_id p r1 = (r2, g)" by fastforce
  obtain name where g: "g = Inr name" using assms by (cases g) (auto simp: startExchange_def n i)
  show "ex_state e = StateReceiving" "ex_error e = None" "ex_request e = incoming_request incoming"
    "ex_revision e = 1" "ex_mode e = cs_mode snapshot" "ex_persistence e = None"
    using assms by (auto simp: startExchange_def n i g Let_def)
  have r': "r' = do_publish p (event ExchangeStarted (ex_id e) (ex_revision e) NoData) (do_save p e r2)"
    using assms by (auto simp: startExchange_def n i g Let_def)
  show "rn_pipeline r' = rn_pipeline r" "rn_writer r' = rn_writer r"
    by (simp_all add: r' do_id_sel [OF i] do_now_sel [OF n])
  obtain es :: "exchange list" where "rn_log (do_save p e r2) = rn_log r2 @ CSave e #
      map (\<lambda>x. CPublish (event ExchangeEvicted (ex_id x) (ex_revision x) NoData)) es"
    by (rule do_save_log)
  moreover have "announced (Some c) (map (\<lambda>x. CPublish (event ExchangeEvicted (ex_id x) (ex_revision x) NoData)) es
      @ [CPublish (event ExchangeStarted (ex_id e) (ex_revision e) NoData)])" if "c = (ex_id e, ex_revision e)" for c
    using that by (induction es) simp_all
  ultimately show "\<exists>cs. rn_log r' = rn_log r @ CSave e # cs \<and> saves cs = [] \<and> list_all inner cs
           \<and> announced (Some (ex_id e, ex_revision e)) cs"
    by (intro exI [of _ "map (\<lambda>x. CPublish (event ExchangeEvicted (ex_id x) (ex_revision x) NoData)) es
        @ [CPublish (event ExchangeStarted (ex_id e) (ex_revision e) NoData)]"])
      (simp add: r' do_id_sel [OF i] do_now_sel [OF n])
qed

lemma startExchange_failed:
  assumes "startExchange p incoming snapshot r = (r', Inl err)"
  shows "rn_log r' = rn_log r" "rn_pipeline r' = rn_pipeline r" "rn_writer r' = rn_writer r"
proof -
  obtain r1 t where n: "do_now p r = (r1, t)" by fastforce
  obtain r2 g where i: "do_id p r1 = (r2, g)" by fastforce
  have "r' = r2" using assms by (cases g) (auto simp: startExchange_def n i Let_def)
  then show "rn_log r' = rn_log r" "rn_pipeline r' = rn_pipeline r" "rn_writer r' = rn_writer r"
    by (simp_all add: do_id_sel [OF i] do_now_sel [OF n])
qed

text \<open>The phases of a request that was admitted and got its ID.\<close>

record 's phases =
  ph_snapshot :: config_snapshot
  ph_reservation :: "nat option"
  ph_started :: "'s run"
  ph_first :: exchange
  ph_ended :: "'s run"
  ph_last :: exchange

definition served :: "'s pipeline_options \<Rightarrow> http_request \<Rightarrow> 's run \<Rightarrow> 's phases \<Rightarrow> bool" where
  "served p incoming r ph \<longleftrightarrow> ph_snapshot ph = po_snapshot p (rn_shared r)
     \<and> (\<exists>r1 r2. do_admit (lim_concurrent (cs_limits (ph_snapshot ph))) r = (r1, True)
          \<and> reservePersistence p (ph_snapshot ph) r1 = (r2, ph_reservation ph, True)
          \<and> startExchange p incoming (ph_snapshot ph) r2 = (ph_started ph, Inr (ph_first ph)))
     \<and> receive p incoming (ph_snapshot ph) (ph_first ph) (ph_started ph) = (ph_ended ph, ph_last ph)"

lemma served_result:
  assumes "served p incoming r ph"
  shows "ServeHTTP p incoming r = do_release (cancel_deferred p (ph_reservation ph)
     (commit_finished p (ph_reservation ph) (ph_last ph) (ph_ended ph)))"
  using assms by (auto simp: served_def ServeHTTP_def Let_def)

lemma do_admit_sel:
  assumes "do_admit limit r = (r', ok)"
  shows "rn_log r' = rn_log r @ [CAdmit ok]" "rn_writer r' = rn_writer r" "rn_shared r' = rn_shared r"
    "ok \<Longrightarrow> rn_pipeline r' = (rn_pipeline r)\<lparr>pl_in_flight := pl_in_flight (rn_pipeline r) + 1\<rparr>"
    "\<not> ok \<Longrightarrow> rn_pipeline r' = rejectAdmission (rn_pipeline r)"
  using assms by (auto simp: do_admit_def admit_def Let_def rejectAdmission_def split: if_splits)

lemma reservePersistence_sel:
  assumes "reservePersistence p snapshot r = (r', res, ok)"
  shows "rn_writer r' = rn_writer r" "rn_pipeline r' = rn_pipeline r"
    "rn_log r' = rn_log r @ (if po_reserving p then [CReserve (reservation_size snapshot) res ok] else [])"
    "\<not> po_reserving p \<Longrightarrow> res = None \<and> ok"
  using assms by (auto simp: reservePersistence_def Let_def split: if_splits prod.splits)

lemma served_phases:
  assumes "served p incoming r ph"
  defines "pl0 \<equiv> (rn_pipeline r)\<lparr>pl_in_flight := pl_in_flight (rn_pipeline r) + 1\<rparr>"
  shows "stage (ph_first ph) (ph_started ph) (ph_last ph) (ph_ended ph)"
    and "ex_state (ph_first ph) = StateReceiving" and "ex_revision (ph_first ph) = 1"
    and "rn_pipeline (ph_ended ph) = (if body_too_large incoming (ph_snapshot ph) then recordBodyTooLarge pl0 else pl0)"
    and "(ex_state (ph_last ph), map_option ee_category (ex_error (ph_last ph))) =
      (fst (outcome p incoming (ph_snapshot ph) (rn_writer r)), fst (snd (outcome p incoming (ph_snapshot ph) (rn_writer r))))"
    and "IsTerminal (ex_state (ph_last ph))"
    and "rw_sent (rn_writer r) = None \<Longrightarrow> 200 \<le> snd (snd (outcome p incoming (ph_snapshot ph) (rn_writer r))) \<Longrightarrow>
      map_option fst (rw_sent (rn_writer (ph_ended ph))) = Some (snd (snd (outcome p incoming (ph_snapshot ph) (rn_writer r))))"
    and "headers_fit incoming (ph_snapshot ph) \<Longrightarrow> same_body (ex_request (ph_last ph)) (received_request incoming (ph_snapshot ph))"
    and "\<exists>xs. saves (rn_log (ph_ended ph)) = saves (rn_log (ph_started ph)) @ xs @ [ph_last ph]"
    and "\<exists>at e0. Transition e0 (ex_state (ph_last ph)) at = Inr (ph_last ph)"
    and "rn_writer (ph_started ph) = rn_writer r"
    and "\<exists>cs. rn_log (ph_started ph) = rn_log r @ CAdmit True #
        (if po_reserving p then [CReserve (reservation_size (ph_snapshot ph)) (ph_reservation ph) True] else [])
        @ CSave (ph_first ph) # cs \<and> saves cs = [] \<and> list_all inner cs
        \<and> announced (Some (ex_id (ph_first ph), ex_revision (ph_first ph))) cs"
proof -
  obtain r1 r2 where a: "do_admit (lim_concurrent (cs_limits (ph_snapshot ph))) r = (r1, True)"
    and b: "reservePersistence p (ph_snapshot ph) r1 = (r2, ph_reservation ph, True)"
    and c: "startExchange p incoming (ph_snapshot ph) r2 = (ph_started ph, Inr (ph_first ph))"
    and d: "receive p incoming (ph_snapshot ph) (ph_first ph) (ph_started ph) = (ph_ended ph, ph_last ph)"
    using assms(1) by (auto simp: served_def)
  note a' = do_admit_sel [OF a] and b' = reservePersistence_sel [OF b] and c' = startExchange_spec [OF c]
  show first: "ex_state (ph_first ph) = StateReceiving" "ex_revision (ph_first ph) = 1" by (fact c')+
  show w: "rn_writer (ph_started ph) = rn_writer r" by (simp add: c' b' a')
  have pl: "rn_pipeline (ph_started ph) = pl0" by (simp add: c' b' a' pl0_def)
  obtain e0 r0 where s: "stage (ph_first ph) (ph_started ph) e0 r0" "rn_writer r0 = rn_writer (ph_started ph)"
    "\<exists>xs. saves (rn_log r0) = saves (rn_log (ph_started ph)) @ xs"
    "rn_pipeline r0 = (if body_too_large incoming (ph_snapshot ph) then recordBodyTooLarge (rn_pipeline (ph_started ph)) else rn_pipeline (ph_started ph))"
    "finished (outcome p incoming (ph_snapshot ph) (rn_writer (ph_started ph))) e0 r0 (ph_last ph) (ph_ended ph)"
    "headers_fit incoming (ph_snapshot ph) \<longrightarrow> same_body (ex_request e0) (received_request incoming (ph_snapshot ph))"
    using receive_spec [OF d c'(1-3)] by blast
  obtain st cat status where o: "outcome p incoming (ph_snapshot ph) (rn_writer r) = (st, cat, status)"
    by (cases "outcome p incoming (ph_snapshot ph) (rn_writer r)")
  note f = s(5) [unfolded w o finished_def prod.case]
  show "stage (ph_first ph) (ph_started ph) (ph_last ph) (ph_ended ph)"
    by (rule stage_trans [OF s(1)]) (use f in blast)
  show "rn_pipeline (ph_ended ph) = (if body_too_large incoming (ph_snapshot ph) then recordBodyTooLarge pl0 else pl0)"
    using f s(4) pl by simp
  show "(ex_state (ph_last ph), map_option ee_category (ex_error (ph_last ph))) =
      (fst (outcome p incoming (ph_snapshot ph) (rn_writer r)), fst (snd (outcome p incoming (ph_snapshot ph) (rn_writer r))))"
    and "IsTerminal (ex_state (ph_last ph))"
    using f by (simp_all add: o)
  show "rw_sent (rn_writer r) = None \<Longrightarrow> 200 \<le> snd (snd (outcome p incoming (ph_snapshot ph) (rn_writer r))) \<Longrightarrow>
      map_option fst (rw_sent (rn_writer (ph_ended ph))) = Some (snd (snd (outcome p incoming (ph_snapshot ph) (rn_writer r))))"
    using f s(2) w by (simp add: o)
  show "headers_fit incoming (ph_snapshot ph) \<Longrightarrow> same_body (ex_request (ph_last ph)) (received_request incoming (ph_snapshot ph))"
    using f s(6) by (simp add: same_body_def)
  show "\<exists>xs. saves (rn_log (ph_ended ph)) = saves (rn_log (ph_started ph)) @ xs @ [ph_last ph]"
    using f s(3) by (metis append.assoc)
  show "\<exists>at e0. Transition e0 (ex_state (ph_last ph)) at = Inr (ph_last ph)" using f by blast
  show "\<exists>cs. rn_log (ph_started ph) = rn_log r @ CAdmit True #
        (if po_reserving p then [CReserve (reservation_size (ph_snapshot ph)) (ph_reservation ph) True] else [])
        @ CSave (ph_first ph) # cs \<and> saves cs = [] \<and> list_all inner cs
        \<and> announced (Some (ex_id (ph_first ph), ex_revision (ph_first ph))) cs"
    using c'(9) by (simp add: b' a')
qed

definition evictions :: "exchange list \<Rightarrow> call list" where
  "evictions es = map (\<lambda>x. CPublish (event ExchangeEvicted (ex_id x) (ex_revision x) NoData)) es"

lemma evictions_simps [simp]:
  "saves (evictions es) = []" "announced cur (evictions es)" "list_all inner (evictions es)"
  by (simp_all add: evictions_def)

lemma current_evictions [simp]: "current cur (evictions es) = cur"
  by (induction es) (simp_all add: evictions_def)

lemma do_save_evictions: "\<exists>es. rn_log (do_save p e r) = rn_log r @ CSave e # evictions es"
  by (metis do_save_log evictions_def)

definition queued :: "exchange \<Rightarrow> exchange" where
  "queued e = e\<lparr>ex_persistence := Some \<lparr>ps_state = ''queued'', ps_error = []\<rparr>\<rparr>"

definition persistence_failed :: "string \<Rightarrow> exchange \<Rightarrow> exchange" where
  "persistence_failed msg e = e\<lparr>ex_persistence := Some \<lparr>ps_state = ''failed'', ps_error = msg\<rparr>\<rparr>"

lemma persistence_sel [simp]:
  "ex_state (queued e) = ex_state e" "ex_error (queued e) = ex_error e" "ex_request (queued e) = ex_request e"
  "ex_id (queued e) = ex_id e" "ex_revision (queued e) = ex_revision e"
  "ex_state (persistence_failed m e) = ex_state e" "ex_error (persistence_failed m e) = ex_error e"
  "ex_request (persistence_failed m e) = ex_request e" "ex_id (persistence_failed m e) = ex_id e"
  "ex_revision (persistence_failed m e) = ex_revision e"
  by (simp_all add: queued_def persistence_failed_def)

lemma commit_finished_None [simp]: "commit_finished p None e r = r"
  by (simp add: commit_finished_def)

lemma commit_finished_sel [simp]:
  "rn_pipeline (commit_finished p res e r) = rn_pipeline r" "rn_writer (commit_finished p res e r) = rn_writer r"
proof -
  have "rn_pipeline (commit_finished p res e r) = rn_pipeline r \<and> rn_writer (commit_finished p res e r) = rn_writer r"
  proof (cases res)
    case (Some i)
    obtain s err where c: "po_commit p (rn_shared (do_save p (queued e) r)) i (queued e) = (s, err)" by fastforce
    show ?thesis
      using c Some by (cases err) (simp_all add: commit_finished_def do_commit_def queued_def [symmetric] Let_def)
  qed simp
  then show "rn_pipeline (commit_finished p res e r) = rn_pipeline r" "rn_writer (commit_finished p res e r) = rn_writer r"
    by simp_all
qed

lemma commit_finished_log:
  assumes "IsTerminal (ex_state e)"
  shows "\<exists>es err post. rn_log (commit_finished p (Some res) e r) =
      rn_log r @ CSave (queued e) # evictions es @ CCommit res (queued e) err # post
    \<and> (case err of None \<Rightarrow> post = [] | Some msg \<Rightarrow> (\<exists>es. post = CSave (persistence_failed msg (queued e)) # evictions es))"
proof -
  let ?r1 = "do_save p (queued e) r"
  obtain es where es: "rn_log ?r1 = rn_log r @ CSave (queued e) # evictions es" using do_save_evictions by blast
  obtain s err where c: "po_commit p (rn_shared ?r1) res (queued e) = (s, err)" by fastforce
  define r2 where "r2 = log_call (CCommit res (queued e) err) (?r1\<lparr>rn_shared := s\<rparr>)"
  have r: "commit_finished p (Some res) e r = (case err of
      None \<Rightarrow> r2 | Some msg \<Rightarrow> do_save p (persistence_failed msg (queued e)) r2)"
    using assms c by (simp add: commit_finished_def do_commit_def queued_def [symmetric] persistence_failed_def Let_def r2_def split: option.split)
  show ?thesis
  proof (cases err)
    case None
    with r es show ?thesis by (intro exI [of _ es] exI [of _ None] exI [of _ "[]"]) (simp add: r2_def)
  next
    case (Some msg)
    obtain es2 where "rn_log (do_save p (persistence_failed msg (queued e)) r2)
        = rn_log r2 @ CSave (persistence_failed msg (queued e)) # evictions es2"
      using do_save_evictions by blast
    with Some r es have "rn_log (commit_finished p (Some res) e r) = rn_log r @ CSave (queued e) # evictions es
        @ CCommit res (queued e) err # CSave (persistence_failed msg (queued e)) # evictions es2"
      by (simp add: r2_def)
    with Some show ?thesis by fastforce
  qed
qed

lemma cancel_deferred_sel [simp]:
  "rn_pipeline (cancel_deferred p res r) = rn_pipeline r" "rn_writer (cancel_deferred p res r) = rn_writer r"
  "rn_log (cancel_deferred p res r) = rn_log r @ (case res of None \<Rightarrow> [] | Some i \<Rightarrow> [CCancel i])"
  by (simp_all add: cancel_deferred_def do_cancel_def split: option.split)

lemma do_release_sel [simp]:
  "rn_log (do_release r) = rn_log r @ [CRelease]" "rn_writer (do_release r) = rn_writer r"
  "rn_pipeline (do_release r) = pl_release (rn_pipeline r)"
  by (simp_all add: do_release_def)

lemma do_reject_sel [simp]:
  "rn_log (do_reject r) = rn_log r @ [CReject]" "rn_writer (do_reject r) = rn_writer r"
  "rn_pipeline (do_reject r) = rejectAdmission (rn_pipeline r)"
  by (simp_all add: do_reject_def)

text \<open>The four ways through \<open>ServeHTTP\<close>.\<close>

lemma ServeHTTP_cases:
  obtains (full) r1 where
      "do_admit (lim_concurrent (cs_limits (po_snapshot p (rn_shared r)))) r = (r1, False)"
      "ServeHTTP p incoming r = respond_error 503 ''capacity_exhausted'' ''Concurrent exchange capacity is exhausted.'' r1"
  | (unreserved) r1 r2 res where
      "do_admit (lim_concurrent (cs_limits (po_snapshot p (rn_shared r)))) r = (r1, True)"
      "reservePersistence p (po_snapshot p (rn_shared r)) r1 = (r2, res, False)"
      "ServeHTTP p incoming r = do_release (respond_error 503 ''persistence_capacity_exhausted''
                     ''Persistence writer capacity is exhausted.'' (do_reject r2))"
  | (nameless) r1 r2 r3 res err where
      "do_admit (lim_concurrent (cs_limits (po_snapshot p (rn_shared r)))) r = (r1, True)"
      "reservePersistence p (po_snapshot p (rn_shared r)) r1 = (r2, res, True)"
      "startExchange p incoming (po_snapshot p (rn_shared r)) r2 = (r3, Inl err)"
      "ServeHTTP p incoming r = do_release (cancel_deferred p res
         (respond_error 500 ''exchange_id_failed'' ''Exchange could not be created.'' r3))"
  | (serving) ph where "served p incoming r ph"
proof -
  let ?sn = "po_snapshot p (rn_shared r)"
  obtain r1 ok where a: "do_admit (lim_concurrent (cs_limits ?sn)) r = (r1, ok)" by fastforce
  obtain r2 res reserved where b: "reservePersistence p ?sn r1 = (r2, res, reserved)"
    by (cases "reservePersistence p ?sn r1")
  obtain r3 started where c: "startExchange p incoming ?sn r2 = (r3, started)" by fastforce
  show ?thesis
  proof (cases ok)
    case False
    with a show ?thesis by (intro full) (auto simp: ServeHTTP_def)
  next
    case ok: True
    show ?thesis
    proof (cases reserved)
      case False
      with a b ok show ?thesis by (intro unreserved) (auto simp: ServeHTTP_def)
    next
      case True
      show ?thesis
      proof (cases started)
        case (Inl err)
        with a b c ok True show ?thesis by (intro nameless) (auto simp: ServeHTTP_def)
      next
        case (Inr e)
        obtain r4 e4 where d: "receive p incoming ?sn e r3 = (r4, e4)" by fastforce
        let ?ph = "\<lparr>ph_snapshot = ?sn, ph_reservation = res, ph_started = r3, ph_first = e, ph_ended = r4, ph_last = e4\<rparr>"
        show ?thesis
          by (rule serving [of ?ph]) (use a b c d ok True Inr in \<open>simp add: served_def\<close>)
      qed
    qed
  qed
qed

lemma served_log:
  assumes "served p incoming r ph"
  shows "\<exists>pre mid tail. rn_log (ServeHTTP p incoming r) = rn_log r @ CAdmit True # pre @ CSave (ph_first ph) # mid @ tail @ [CRelease]
    \<and> pre = (if po_reserving p then [CReserve (reservation_size (ph_snapshot ph)) (ph_reservation ph) True] else [])
    \<and> list_all inner mid \<and> chain (ph_first ph) (saves mid) \<and> sig (last (ph_first ph # saves mid)) = sig (ph_last ph)
    \<and> saves mid \<noteq> [] \<and> last (saves mid) = ph_last ph
    \<and> announced (Some (ex_id (ph_first ph), ex_revision (ph_first ph))) mid
    \<and> (case ph_reservation ph of None \<Rightarrow> tail = []
        | Some i \<Rightarrow> (\<exists>es err post. tail = CSave (queued (ph_last ph)) # evictions es @ CCommit i (queued (ph_last ph)) err # post @ [CCancel i]
            \<and> (case err of None \<Rightarrow> post = []
                | Some msg \<Rightarrow> (\<exists>es. post = CSave (persistence_failed msg (queued (ph_last ph))) # evictions es))))"
proof -
  note ph = served_phases [OF assms]
  obtain cs where cs: "rn_log (ph_started ph) = rn_log r @ CAdmit True #
        (if po_reserving p then [CReserve (reservation_size (ph_snapshot ph)) (ph_reservation ph) True] else [])
        @ CSave (ph_first ph) # cs" "saves cs = []" "list_all inner cs"
        "announced (Some (ex_id (ph_first ph), ex_revision (ph_first ph))) cs"
    using ph(12) by blast
  obtain ds where ds: "rn_log (ph_ended ph) = rn_log (ph_started ph) @ ds" "chain (ph_first ph) (saves ds)"
    "sig (last (ph_first ph # saves ds)) = sig (ph_last ph)"
    "announced (Some (ex_id (ph_first ph), ex_revision (ph_first ph))) ds" "list_all inner ds"
    using ph(1) by (auto simp: stage_def)
  have last: "saves ds \<noteq> []" "last (saves ds) = ph_last ph" using ph(9) ds(1) by auto
  have ann: "announced (Some (ex_id (ph_first ph), ex_revision (ph_first ph))) (cs @ ds)"
    using cs ds current_saves [of "ph_first ph" cs] by (simp add: announced_append)
  define tail where "tail = drop (length (rn_log (ph_ended ph)))
     (rn_log (cancel_deferred p (ph_reservation ph) (commit_finished p (ph_reservation ph) (ph_last ph) (ph_ended ph))))"
  have t: "rn_log (cancel_deferred p (ph_reservation ph) (commit_finished p (ph_reservation ph) (ph_last ph) (ph_ended ph)))
      = rn_log (ph_ended ph) @ tail \<and> (case ph_reservation ph of None \<Rightarrow> tail = []
        | Some i \<Rightarrow> (\<exists>es err post. tail = CSave (queued (ph_last ph)) # evictions es @ CCommit i (queued (ph_last ph)) err # post @ [CCancel i]
            \<and> (case err of None \<Rightarrow> post = []
                | Some msg \<Rightarrow> (\<exists>es. post = CSave (persistence_failed msg (queued (ph_last ph))) # evictions es))))"
  proof (cases "ph_reservation ph")
    case None
    then show ?thesis by (simp add: tail_def)
  next
    case (Some i)
    obtain es err post where c: "rn_log (commit_finished p (Some i) (ph_last ph) (ph_ended ph)) =
        rn_log (ph_ended ph) @ CSave (queued (ph_last ph)) # evictions es @ CCommit i (queued (ph_last ph)) err # post"
      "case err of None \<Rightarrow> post = [] | Some msg \<Rightarrow> (\<exists>es. post = CSave (persistence_failed msg (queued (ph_last ph))) # evictions es)"
      using commit_finished_log [OF ph(6), of p i "ph_ended ph"] by blast
    then show ?thesis unfolding tail_def Some cancel_deferred_sel option.case
      by (intro conjI exI [of _ es] exI [of _ err] exI [of _ post]) simp_all
  qed
  show ?thesis
    by (rule exI, rule exI [of _ "cs @ ds"], rule exI [of _ tail])
      (use t cs ds last ann in \<open>simp add: served_result [OF assms]\<close>)
qed

lemma list_all_inner_saves: "list_all inner cs \<Longrightarrow> CReserve n i ok \<notin> set cs \<and> CAdmit ok \<notin> set cs"
  by (induction cs) (auto simp: inner_def)

lemma served_saves:
  assumes "served p incoming r ph"
  shows "\<exists>xs ys. saves (rn_log (ServeHTTP p incoming r)) = saves (rn_log r) @ ph_first ph # xs @ [ph_last ph] @ ys
     \<and> chain (ph_first ph) (xs @ [ph_last ph] @ ys)
     \<and> (ph_reservation ph = None \<and> ys = []
        \<or> ph_reservation ph \<noteq> None \<and> (ys = [queued (ph_last ph)]
             \<or> (\<exists>msg. ys = [queued (ph_last ph), persistence_failed msg (queued (ph_last ph))])))"
proof -
  obtain mid tail where l: "rn_log (ServeHTTP p incoming r) = rn_log r @ CAdmit True #
      (if po_reserving p then [CReserve (reservation_size (ph_snapshot ph)) (ph_reservation ph) True] else [])
      @ CSave (ph_first ph) # mid @ tail @ [CRelease]"
    and m: "chain (ph_first ph) (saves mid)" "saves mid \<noteq> []" "last (saves mid) = ph_last ph"
    and t: "case ph_reservation ph of None \<Rightarrow> tail = []
        | Some i \<Rightarrow> (\<exists>es err post. tail = CSave (queued (ph_last ph)) # evictions es @ CCommit i (queued (ph_last ph)) err # post @ [CCancel i]
            \<and> (case err of None \<Rightarrow> post = []
                | Some msg \<Rightarrow> (\<exists>es. post = CSave (persistence_failed msg (queued (ph_last ph))) # evictions es)))"
    using served_log [OF assms] by blast
  obtain zs where x: "saves mid = zs @ [ph_last ph]" using m by (metis append_butlast_last_id)
  have y: "ph_reservation ph = None \<and> saves tail = []
        \<or> ph_reservation ph \<noteq> None \<and> (saves tail = [queued (ph_last ph)]
             \<or> (\<exists>msg. saves tail = [queued (ph_last ph), persistence_failed msg (queued (ph_last ph))]))"
    using t by (auto split: option.splits; blast)
  have "chain (ph_last ph) (saves tail)"
    using y by (auto simp: step_ok_def)
  then have "chain (ph_first ph) (saves mid @ saves tail)"
    using m by (simp add: chain_append)
  moreover have "saves (rn_log (ServeHTTP p incoming r)) = saves (rn_log r) @ ph_first ph # saves mid @ saves tail"
    using l by simp
  ultimately show ?thesis
    using y by (intro exI [of _ zs] exI [of _ "saves tail"]) (simp add: x)
qed

lemma served_last_save:
  assumes "served p incoming r ph"
  shows "last (saves (rn_log (ServeHTTP p incoming r))) \<in> {ph_last ph, queued (ph_last ph)}
    \<or> (\<exists>msg. last (saves (rn_log (ServeHTTP p incoming r))) = persistence_failed msg (queued (ph_last ph)))"
  using served_saves [OF assms] by force

lemma unserved_saves:
  assumes "\<And>ph. \<not> served p incoming r ph"
  shows "saves (rn_log (ServeHTTP p incoming r)) = saves (rn_log r)"
  using assms
  by (cases rule: ServeHTTP_cases [of p r incoming])
    (auto simp: do_admit_sel reservePersistence_sel startExchange_failed split: option.splits)

lemma served_if_saved:
  assumes "rn_log r = []" and "saves (rn_log (ServeHTTP p incoming r)) \<noteq> []"
  obtains ph where "served p incoming r ph"
  using unserved_saves [of p incoming r] assms by fastforce

lemma served_reserved:
  assumes "served p incoming r ph" and "rn_log r = []"
    and "CReserve n (Some i) True \<in> set (rn_log (ServeHTTP p incoming r))"
  shows "ph_reservation ph = Some i"
proof -
  obtain mid tail where l: "rn_log (ServeHTTP p incoming r) = rn_log r @ CAdmit True #
      (if po_reserving p then [CReserve (reservation_size (ph_snapshot ph)) (ph_reservation ph) True] else [])
      @ CSave (ph_first ph) # mid @ tail @ [CRelease]"
    and m: "list_all inner mid"
    and t: "case ph_reservation ph of None \<Rightarrow> tail = []
        | Some i \<Rightarrow> (\<exists>es err post. tail = CSave (queued (ph_last ph)) # evictions es @ CCommit i (queued (ph_last ph)) err # post @ [CCancel i]
            \<and> (case err of None \<Rightarrow> post = []
                | Some msg \<Rightarrow> (\<exists>es. post = CSave (persistence_failed msg (queued (ph_last ph))) # evictions es)))"
    using served_log [OF assms(1)] by blast
  have "CReserve n (Some i) True \<notin> set mid" "CReserve n (Some i) True \<notin> set tail"
    using m t by (auto simp: list_all_iff inner_def evictions_def split: option.splits)
  with l assms(2,3) show ?thesis by (auto split: if_splits)
qed

lemma reservation_logged:
  assumes "do_admit (lim_concurrent (cs_limits (po_snapshot p (rn_shared r)))) r = (r1, True)"
    and "reservePersistence p (po_snapshot p (rn_shared r)) r1 = (r2, Some i, True)"
  shows "CReserve (reservation_size (po_snapshot p (rn_shared r))) (Some i) True \<in> set (rn_log (ServeHTTP p incoming r))"
proof -
  have p: "po_reserving p" using reservePersistence_sel(4) [OF assms(2)] by auto
  show ?thesis
  proof (cases rule: ServeHTTP_cases [of p r incoming])
    case (nameless r1' r2' r3 res err)
    then have "res = Some i" using assms by simp
    with nameless p show ?thesis
      by (simp add: do_admit_sel reservePersistence_sel [OF nameless(2)] startExchange_failed)
  next
    case (serving ph)
    then have "ph_snapshot ph = po_snapshot p (rn_shared r)" "ph_reservation ph = Some i"
      using assms by (auto simp: served_def)
    with served_log [OF serving] p show ?thesis by auto
  qed (use assms in auto)
qed

section \<open>What the client receives\<close>

lemma fail_writer: "fail p e st r = (r', e') \<Longrightarrow> rn_writer r' = rn_writer r"
  by (auto simp: fail_def Let_def do_now_sel split: prod.splits)

lemma deliver_writer:
  assumes "deliver p snapshot result e r = (r', e')" and "validTransition (ex_state e) StateCompleted"
  shows "rn_writer r' = fst (writeDownstream (rn_writer r) (mr_response result))"
proof -
  obtain r1 e1 where a: "announce_response p snapshot e r = (r1, e1)" by fastforce
  note q1 = announce_response_quiet [OF a]
  obtain r2 e2 written we where w: "writeResponse p e1 (mr_response result) r1 = (r2, e2, written, we)"
    by (cases "writeResponse p e1 (mr_response result) r1")
  note ws = writeResponse_spec [OF w]
  have w2: "rn_writer r2 = fst (writeDownstream (rn_writer r) (mr_response result))"
    using ws(4) q1(1) by (simp add: quiet_def)
  show ?thesis
  proof (cases we)
    case None
    define e3 where "e3 = e2\<lparr>ex_delivery := (ex_delivery e2)\<lparr>dd_status := normalizedStatus (dr_status (mr_response result)), dd_body_bytes := written\<rparr>\<rparr>"
    obtain r3 at where n: "do_now p r2 = (r3, at)" by fastforce
    have "ex_state e3 = ex_state e" using ws(5) q1(3) by (simp add: e3_def)
    then obtain e4 where t: "Transition e3 StateCompleted at = Inr e4" using Transition_ok assms(2) by metis
    have "deliver p snapshot result e r = (do_save p e4 r3, e4)"
      unfolding deliver_def a Let_def prod.case w None option.case e3_def [symmetric] n t sum.case by (rule refl)
    with assms(1) w2 show ?thesis by (auto simp: do_now_sel [OF n])
  next
    case (Some msg)
    with assms(1) w2 show ?thesis by (auto simp: deliver_def a w Let_def dest: fail_writer)
  qed
qed

lemma dispatch_writer:
  assumes "dispatch p incoming snapshot e r = (r', e')" and "ex_state e = StateReceiving"
    and "po_handlers p (cs_mode snapshot) = Some handle" and "handle (ex_request e) snapshot = (result, None)"
  shows "rn_writer r' = fst (writeDownstream (rn_writer r) (mr_response result))"
proof -
  obtain r1 e1 where q: "rn_writer r1 = rn_writer r" "validTransition (ex_state e1) StateCompleted"
    and d: "dispatch p incoming snapshot e r =
      deliver p snapshot result (applyModeResult e1 result) (log_call (CHandle (ex_request e) snapshot) r1)"
  proof (cases "cs_mode snapshot = ModeProxy")
    case True
    obtain r0 at where n: "do_now p r = (r0, at)" by fastforce
    obtain e1 where t: "Transition e StateForwarding at = Inr e1"
      using Transition_ok [of e StateForwarding at] assms(2) by auto
    show ?thesis
      by (rule that [of "do_save p e1 r0" e1])
        (use True n t assms in \<open>simp_all add: dispatch_def do_now_sel [OF n] Transition_Inr [OF t]\<close>)
  next
    case False
    show ?thesis by (rule that [of r e]) (use False assms in \<open>simp_all add: dispatch_def\<close>)
  qed
  from deliver_writer [of p snapshot result "applyModeResult e1 result" "log_call (CHandle (ex_request e) snapshot) r1" r' e'] d assms(1) q
  show ?thesis by simp
qed

lemma receive_writer:
  assumes rec: "receive p incoming snapshot e r = (r', e')" and "ex_state e = StateReceiving"
    and rq: "ex_request e = incoming_request incoming" and "headers_fit incoming snapshot"
    and body: "snd (snd (ReadBody (hq_body incoming) (lim_request_body (cs_limits snapshot)))) = None"
    and "po_handlers p (cs_mode snapshot) = Some handle"
    and "handle (received_request incoming snapshot) snapshot = (result, None)"
  shows "rn_writer r' = fst (writeDownstream (rn_writer r) (mr_response result))"
proof -
  obtain body observed where b: "ReadBody (hq_body incoming) (lim_request_body (cs_limits snapshot)) = (body, observed, None)"
    using body by (cases "ReadBody (hq_body incoming) (lim_request_body (cs_limits snapshot))") simp
  obtain pre truncated where pv: "preview body (cs_preview snapshot) = (pre, truncated)" by fastforce
  let ?e2 = "e\<lparr>ex_request := received_request incoming snapshot, ex_revision := ex_revision e + 1\<rparr>"
  define r2 where "r2 = do_publish p (event RequestCompleted (ex_id ?e2) (ex_revision ?e2)
      (RequestData (rq_header_bytes (ex_request ?e2)) (int (length (rq_body (ex_request ?e2))))
         (rq_preview (ex_request ?e2)) (rq_preview_truncated (ex_request ?e2)))) (do_save p ?e2 r)"
  have rr: "received_request incoming snapshot = (incoming_request incoming)\<lparr>rq_body := body, rq_observed := observed,
           rq_complete := True, rq_preview := pre, rq_preview_truncated := truncated\<rparr>"
    by (simp add: received_request_def b pv)
  have "dispatch p incoming snapshot ?e2 r2 = (r', e')"
    using rec assms(4) by (simp add: receive_def rq b pv rr r2_def Let_def headers_fit_def)
  from dispatch_writer [OF this _ assms(6)] assms(2,7) show ?thesis by (simp add: r2_def)
qed

section \<open>Sample values for the witnesses\<close>

definition sample_pipeline :: "nat pipeline_options" where
  "sample_pipeline = \<lparr>po_snapshot = (\<lambda>_. NewConfigSnapshot sample_config 1), po_save = (\<lambda>s e. (s, [])),
     po_reserving = True, po_reserve = (\<lambda>s n. (s, Some 0, True)), po_commit = (\<lambda>s i e. (s, None)),
     po_cancel = (\<lambda>s i. s), po_publish = (\<lambda>s v. s),
     po_handlers = (\<lambda>m. if m = ModeCapture then Some CaptureHandler_Handle else None),
     po_id = (\<lambda>s. (s, Inr ''x'')), po_now = (\<lambda>s. (s + 1, wall_time (int s + 1)))\<rparr>"

definition sample_incoming :: "bytes \<Rightarrow> http_request" where
  "sample_incoming body = \<lparr>hq_method = ''POST'', hq_tls = False, hq_proto = ''HTTP/1.1'', hq_host = ''h'', hq_uri = ''/'',
     hq_escaped_path = ''/'', hq_raw_query = [], hq_remote = ''r'', hq_header = [],
     hq_body = \<lparr>rd_data = body, rd_error = None\<rparr>, hq_context_err = None\<rparr>"

definition sample_run :: "nat run" where
  "sample_run = \<lparr>rn_pipeline = \<lparr>pl_in_flight = 0, pl_admission_rejected = 0, pl_body_too_large = 0\<rparr>,
     rn_shared = 0, rn_writer = fresh_writer None, rn_log = []\<rparr>"

abbreviation sample_log :: "call list" where
  "sample_log \<equiv> rn_log (ServeHTTP sample_pipeline (sample_incoming ''hi'') sample_run)"

lemma sample_run_sel: "rn_log sample_run = []" "rw_sent (rn_writer sample_run) = None"
  by (simp_all add: sample_run_def fresh_writer_def)

lemma sample_states: "map ex_state (saves sample_log) = [StateReceiving, StateReceiving, StateCompleted, StateCompleted]"
  by code_simp

lemma sample_saves: "saves sample_log \<noteq> []"
  using sample_states by force

lemma sample_outcome: "outcome sample_pipeline (sample_incoming ''hi'') (po_snapshot sample_pipeline (rn_shared sample_run))
    (rn_writer sample_run) = (StateCompleted, None, 200)"
  by code_simp

section \<open>Properties\<close>

lemma saved_outcome:
  assumes "rn_log r = []" and "rw_sent (rn_writer r) = None"
    and "saves (rn_log (ServeHTTP p incoming r)) \<noteq> []"
    and "outcome p incoming (po_snapshot p (rn_shared r)) (rn_writer r) = (state, category, status)"
  shows "ex_state (last (saves (rn_log (ServeHTTP p incoming r)))) = state \<and> IsTerminal state
    \<and> map_option ee_category (ex_error (last (saves (rn_log (ServeHTTP p incoming r))))) = category
    \<and> (200 \<le> status \<longrightarrow> map_option fst (rw_sent (rn_writer (ServeHTTP p incoming r))) = Some status)"
proof -
  obtain ph where ph: "served p incoming r ph" by (rule served_if_saved [OF assms(1,3)])
  have sn: "ph_snapshot ph = po_snapshot p (rn_shared r)" using ph by (simp add: served_def)
  note phs = served_phases [OF ph, unfolded sn assms(4)]
  have "rn_writer (ServeHTTP p incoming r) = rn_writer (ph_ended ph)"
    by (simp add: served_result [OF ph])
  with served_last_save [OF ph] phs(5-7) assms(2) show ?thesis by auto
qed

text \<open>
  C2. Every request that enters the history leaves it finished as its outcome says: the last
  exchange saved is in a terminal state, and its state, the category of its error and the HTTP
  status the client receives are those the decision table \<open>outcome\<close> gives for the request, the
  configuration, the handler's result and the connection.
\<close>

theorem request_outcome:
  assumes "rn_log r = []" and "rw_sent (rn_writer r) = None"
    and "saves (rn_log (ServeHTTP p incoming r)) \<noteq> []"
    and "outcome p incoming (po_snapshot p (rn_shared r)) (rn_writer r) = (state, category, status)"
  shows "ex_state (last (saves (rn_log (ServeHTTP p incoming r)))) = state \<and> IsTerminal state
    \<and> map_option ee_category (ex_error (last (saves (rn_log (ServeHTTP p incoming r))))) = category
    \<and> (200 \<le> status \<longrightarrow> map_option fst (rw_sent (rn_writer (ServeHTTP p incoming r))) = Some status)"
  using assms by (rule saved_outcome)

theorem request_outcome_witness:
  "ex_state (last (saves sample_log)) = StateCompleted
   \<and> map_option fst (rw_sent (rn_writer (ServeHTTP sample_pipeline (sample_incoming ''hi'') sample_run))) = Some 200"
  using request_outcome [OF sample_run_sel sample_saves sample_outcome] by simp



definition calls_count :: "(call \<Rightarrow> bool) \<Rightarrow> call list \<Rightarrow> u64" where
  "calls_count P cs = of_nat (length (filter P cs))"

definition is_rejection :: "call \<Rightarrow> bool" where
  "is_rejection c \<longleftrightarrow> c = CAdmit False \<or> c = CReject"

lemma calls_count_simps [simp]:
  "calls_count P [] = 0" "calls_count P (c # cs) = (if P c then 1 + calls_count P cs else calls_count P cs)"
  "calls_count P (as @ bs) = calls_count P as + calls_count P bs"
  by (simp_all add: calls_count_def)

lemma is_rejection_simps [simp]:
  "is_rejection (CAdmit ok) = (\<not> ok)" "is_rejection CReject" "\<not> is_rejection CRelease" "\<not> is_rejection (CSave e)"
  "\<not> is_rejection (CReserve n i ok)" "\<not> is_rejection (CCommit k e z)" "\<not> is_rejection (CCancel k)" "\<not> is_rejection CTooLarge"
  by (auto simp: is_rejection_def)

lemma inner_no_rejection: "list_all inner cs \<Longrightarrow> calls_count is_rejection cs = 0"
  by (induction cs) (auto simp: inner_def is_rejection_def split: call.splits)

lemma evictions_count [simp]: "calls_count is_rejection (evictions es) = 0"
  by (rule inner_no_rejection) simp

lemma served_no_rejection:
  assumes "served p incoming r ph" and "rn_log r = []"
  shows "calls_count is_rejection (rn_log (ServeHTTP p incoming r)) = 0"
proof -
  obtain mid tail where l: "rn_log (ServeHTTP p incoming r) = rn_log r @ CAdmit True #
      (if po_reserving p then [CReserve (reservation_size (ph_snapshot ph)) (ph_reservation ph) True] else [])
      @ CSave (ph_first ph) # mid @ tail @ [CRelease]"
    and m: "list_all inner mid"
    and t: "case ph_reservation ph of None \<Rightarrow> tail = []
        | Some i \<Rightarrow> (\<exists>es err post. tail = CSave (queued (ph_last ph)) # evictions es @ CCommit i (queued (ph_last ph)) err # post @ [CCancel i]
            \<and> (case err of None \<Rightarrow> post = []
                | Some msg \<Rightarrow> (\<exists>es. post = CSave (persistence_failed msg (queued (ph_last ph))) # evictions es)))"
    using served_log [OF assms(1)] by blast
  have "calls_count is_rejection tail = 0"
    using t by (auto split: option.splits)
  with l m assms(2) show ?thesis by (simp add: inner_no_rejection)
qed

text \<open>
  Admission is balanced: whatever happens to a request, it leaves the count of requests in
  flight as it found it, and it is counted as rejected exactly when it is answered without
  having been processed, and as too large exactly when its body was.
\<close>

theorem admission_balanced:
  assumes "rn_log r = []"
  shows "pl_in_flight (rn_pipeline (ServeHTTP p incoming r)) = pl_in_flight (rn_pipeline r)
    \<and> pl_admission_rejected (rn_pipeline (ServeHTTP p incoming r))
        = pl_admission_rejected (rn_pipeline r) + calls_count is_rejection (rn_log (ServeHTTP p incoming r))
    \<and> pl_body_too_large (rn_pipeline (ServeHTTP p incoming r))
        = pl_body_too_large (rn_pipeline r)
          + (if saves (rn_log (ServeHTTP p incoming r)) \<noteq> [] \<and> body_too_large incoming (po_snapshot p (rn_shared r)) then 1 else 0)"
proof (cases rule: ServeHTTP_cases [of p r incoming])
  case (full r1)
  with do_admit_sel [OF full(1)] assms show ?thesis by (simp add: rejectAdmission_def)
next
  case (unreserved r1 r2 res)
  note a = do_admit_sel [OF unreserved(1)] and b = reservePersistence_sel [OF unreserved(2)]
  show ?thesis using assms by (simp add: unreserved(3) a b rejectAdmission_def pl_release_def)
next
  case (nameless r1 r2 r3 res err)
  note a = do_admit_sel [OF nameless(1)] and b = reservePersistence_sel [OF nameless(2)]
    and c = startExchange_failed [OF nameless(3)]
  show ?thesis using assms by (simp add: nameless(4) a b c pl_release_def split: option.split)
next
  case (serving ph)
  have sn: "ph_snapshot ph = po_snapshot p (rn_shared r)" using serving by (simp add: served_def)
  have "saves (rn_log (ServeHTTP p incoming r)) \<noteq> []" using served_saves [OF serving] by auto
  with served_phases(4) [OF serving] served_no_rejection [OF serving assms] sn show ?thesis
    by (simp add: served_result [OF serving] pl_release_def recordBodyTooLarge_def)
qed

theorem admission_balanced_witness:
  "pl_in_flight (rn_pipeline (ServeHTTP sample_pipeline (sample_incoming ''hi'') sample_run)) = 0"
  using admission_balanced [OF sample_run_sel(1), of sample_pipeline "sample_incoming ''hi''"]
  by (simp add: sample_run_def)

text \<open>
  A request that is turned away leaves no trace but its counters and its answer: it saves
  no exchange and publishes no event, and the client receives 503 when the pipeline or the
  persistence writer is at capacity and 500 when no ID could be generated.
\<close>

theorem refused_request:
  assumes "rn_log r = []" and "rw_sent (rn_writer r) = None"
    and "saves (rn_log (ServeHTTP p incoming r)) = []"
  shows "(\<forall>v. CPublish v \<notin> set (rn_log (ServeHTTP p incoming r)))
    \<and> map_option fst (rw_sent (rn_writer (ServeHTTP p incoming r))) =
        Some (if calls_count is_rejection (rn_log (ServeHTTP p incoming r)) = 0 then 500 else 503)"
proof -
  have sent: "map_option fst (rw_sent (writePipelineError w n c m)) = Some n"
    if "rw_sent w = None" "n = 503 \<or> n = 500" for w n c m
    using writeDownstream_sent [of w "pipelineErrorResponse n c m"] that
    by (auto simp: writePipelineError_def normalizedStatus_def)
  show ?thesis
  proof (cases rule: ServeHTTP_cases [of p r incoming])
    case (full r1)
    with do_admit_sel [OF full(1)] assms sent show ?thesis by simp
  next
    case (unreserved r1 r2 res)
    note a = do_admit_sel [OF unreserved(1)] and b = reservePersistence_sel [OF unreserved(2)]
    show ?thesis using assms sent by (simp add: unreserved(3) a b)
  next
    case (nameless r1 r2 r3 res err)
    note a = do_admit_sel [OF nameless(1)] and b = reservePersistence_sel [OF nameless(2)]
      and c = startExchange_failed [OF nameless(3)]
    show ?thesis using assms sent by (simp add: nameless(4) a b c split: option.split)
  next
    case (serving ph)
    with served_saves [OF serving] assms(3) show ?thesis by simp
  qed
qed

theorem refused_request_witness:
  "map_option fst (rw_sent (rn_writer (ServeHTTP (sample_pipeline\<lparr>po_reserve := (\<lambda>s n. (s, None, False))\<rparr>)
      (sample_incoming ''hi'') sample_run))) = Some 503"
proof -
  let ?p = "sample_pipeline\<lparr>po_reserve := (\<lambda>s n. (s, None, False))\<rparr>"
  have s: "saves (rn_log (ServeHTTP ?p (sample_incoming ''hi'') sample_run)) = []" by code_simp
  have c: "calls_count is_rejection (rn_log (ServeHTTP ?p (sample_incoming ''hi'') sample_run)) = 1" by code_simp
  from refused_request [OF sample_run_sel s] c show ?thesis by simp
qed

text \<open>
  C22. A persistence reservation is used and given back: a request that reserved ends by cancelling
  its reservation and leaving the pipeline; before that it commits to it exactly once when it has
  an exchange, after the end of that exchange, and what it commits is the finished exchange marked
  \<open>queued\<close>, which is also in the history.
\<close>

theorem reservation_settled:
  assumes "rn_log r = []" and "CReserve n (Some i) True \<in> set (rn_log (ServeHTTP p incoming r))"
  shows "\<exists>before. rn_log (ServeHTTP p incoming r) = before @ [CCancel i, CRelease]
    \<and> n = reservation_size (po_snapshot p (rn_shared r))
    \<and> (saves (rn_log (ServeHTTP p incoming r)) = [] \<and> (\<forall>j x z. CCommit j x z \<notin> set before)
       \<or> (\<exists>one x z two. before = one @ CCommit i x z # two \<and> x \<in> set (saves one)
            \<and> IsTerminal (ex_state x) \<and> ex_persistence x = Some \<lparr>ps_state = ''queued'', ps_error = []\<rparr>
            \<and> (\<forall>j y w. CCommit j y w \<notin> set one \<union> set two)))"
proof (cases rule: ServeHTTP_cases [of p r incoming])
  case (full r1)
  with do_admit_sel [OF full(1)] assms show ?thesis by simp
next
  case (unreserved r1 r2 res)
  note a = do_admit_sel [OF unreserved(1)] and b = reservePersistence_sel [OF unreserved(2)]
  show ?thesis using assms by (simp add: unreserved(3) a b split: if_splits)
next
  case (nameless r1 r2 r3 res err)
  note a = do_admit_sel [OF nameless(1)] and b = reservePersistence_sel [OF nameless(2)]
    and c = startExchange_failed [OF nameless(3)]
  show ?thesis using assms by (auto simp: nameless(4) a b c split: option.splits if_splits)
next
  case (serving ph)
  have sn: "ph_snapshot ph = po_snapshot p (rn_shared r)" using serving by (simp add: served_def)
  obtain mid tail where l: "rn_log (ServeHTTP p incoming r) = rn_log r @ CAdmit True #
      (if po_reserving p then [CReserve (reservation_size (ph_snapshot ph)) (ph_reservation ph) True] else [])
      @ CSave (ph_first ph) # mid @ tail @ [CRelease]"
    and m: "list_all inner mid"
    and t: "case ph_reservation ph of None \<Rightarrow> tail = []
        | Some i \<Rightarrow> (\<exists>es err post. tail = CSave (queued (ph_last ph)) # evictions es @ CCommit i (queued (ph_last ph)) err # post @ [CCancel i]
            \<and> (case err of None \<Rightarrow> post = []
                | Some msg \<Rightarrow> (\<exists>es. post = CSave (persistence_failed msg (queued (ph_last ph))) # evictions es)))"
    using served_log [OF serving] by blast
  have no: "CReserve n (Some i) True \<notin> set mid" "CReserve n (Some i) True \<notin> set tail"
    and nc: "CCommit j y w \<notin> set mid" for j y w
    using m list_all_inner_saves [OF m] t
    by (auto simp: list_all_iff inner_def evictions_def split: option.splits)
  have res: "po_reserving p" "ph_reservation ph = Some i" "n = reservation_size (ph_snapshot ph)"
    using assms l no by (auto split: if_splits)
  then obtain es err post where
      tl: "tail = CSave (queued (ph_last ph)) # evictions es @ CCommit i (queued (ph_last ph)) err # post @ [CCancel i]"
    and pc: "case err of None \<Rightarrow> post = [] | Some msg \<Rightarrow> (\<exists>es. post = CSave (persistence_failed msg (queued (ph_last ph))) # evictions es)"
    using t by auto
  have post: "CCommit j y w \<notin> set post" for j y w
    using pc by (auto simp: evictions_def split: option.splits)
  let ?one = "CAdmit True # CReserve n (Some i) True # CSave (ph_first ph) # mid @ CSave (queued (ph_last ph)) # evictions es"
  have eq: "rn_log (ServeHTTP p incoming r) = (?one @ CCommit i (queued (ph_last ph)) err # post) @ [CCancel i, CRelease]"
    using l tl res assms(1) by simp
  show ?thesis
    unfolding eq
    by (intro exI [of _ "?one @ CCommit i (queued (ph_last ph)) err # post"] conjI disjI2 exI [of _ ?one]
        exI [of _ "queued (ph_last ph)"] exI [of _ err] exI [of _ post])
      (use res sn served_phases(6) [OF serving] nc post in \<open>auto simp: queued_def evictions_def\<close>)
qed

theorem reservation_settled_witness:
  "\<exists>before. sample_log = before @ [CCancel 0, CRelease]"
proof -
  have "CReserve 1114112 (Some 0) True \<in> set sample_log" by code_simp
  from reservation_settled [OF sample_run_sel(1) this] show ?thesis by blast
qed

text \<open>
  What the history keeps of a request body: when the headers were accepted, the last saved
  exchange has the whole body and is marked complete exactly if the body ended within the limit;
  otherwise it is marked incomplete and has the first \<open>limit\<close> bytes, or nothing when reading
  failed, and the observed count is at most one byte above the limit.
\<close>

theorem captured_body:
  assumes "rn_log r = []" and "saves (rn_log (ServeHTTP p incoming r)) \<noteq> []"
    and "headers_fit incoming (po_snapshot p (rn_shared r))"
    and "limit = lim_request_body (cs_limits (po_snapshot p (rn_shared r)))" and "0 < limit" and "limit < max_i64"
  shows "(let rq = ex_request (last (saves (rn_log (ServeHTTP p incoming r))));
              data = rd_data (hq_body incoming); whole = (int (length data) \<le> limit \<and> rd_error (hq_body incoming) = None)
          in rq_complete rq = whole \<and> (whole \<longrightarrow> rq_body rq = data \<and> rq_observed rq = int (length data))
           \<and> (limit < int (length data) \<longrightarrow> rq_body rq = take (nat limit) data)
           \<and> int (length (rq_body rq)) \<le> limit \<and> rq_observed rq \<le> limit + 1)"
proof -
  obtain ph where ph: "served p incoming r ph" by (rule served_if_saved [OF assms(1,2)])
  have sn: "ph_snapshot ph = po_snapshot p (rn_shared r)" using ph by (simp add: served_def)
  have "same_body (ex_request (ph_last ph)) (received_request incoming (po_snapshot p (rn_shared r)))"
    using served_phases(8) [OF ph] assms(3) sn by simp
  then have b: "same_body (ex_request (last (saves (rn_log (ServeHTTP p incoming r)))))
      (received_request incoming (po_snapshot p (rn_shared r)))"
    using served_last_save [OF ph] by auto
  show ?thesis
    using b assms(4-6) ReadBody_cases [OF assms(5,6), of "hq_body incoming"]
    by (auto simp: received_request_def same_body_def Let_def split: prod.splits option.splits if_splits)
qed

theorem captured_body_witness:
  "rq_body (ex_request (last (saves sample_log))) = ''hi'' \<and> rq_complete (ex_request (last (saves sample_log)))"
proof -
  have h: "headers_fit (sample_incoming ''hi'') (po_snapshot sample_pipeline (rn_shared sample_run))" by code_simp
  have l: "1048576 = lim_request_body (cs_limits (po_snapshot sample_pipeline (rn_shared sample_run)))" by code_simp
  from captured_body [OF sample_run_sel(1) sample_saves h l]
  show ?thesis by (simp add: sample_incoming_def Let_def max_i64_def)
qed

lemma mode_response_written:
  assumes "rn_log r = []" and "saves (rn_log (ServeHTTP p incoming r)) \<noteq> []"
    and "snapshot = po_snapshot p (rn_shared r)" and "headers_fit incoming snapshot"
    and "snd (snd (ReadBody (hq_body incoming) (lim_request_body (cs_limits snapshot)))) = None"
    and "po_handlers p (cs_mode snapshot) = Some handle"
    and "handle (received_request incoming snapshot) snapshot = (result, None)"
  shows "rn_writer (ServeHTTP p incoming r) = fst (writeDownstream (rn_writer r) (mr_response result))"
proof -
  obtain ph where ph: "served p incoming r ph" by (rule served_if_saved [OF assms(1,2)])
  then have sn: "ph_snapshot ph = snapshot"
    and rec: "receive p incoming snapshot (ph_first ph) (ph_started ph) = (ph_ended ph, ph_last ph)"
    and rq: "ex_request (ph_first ph) = incoming_request incoming"
    using assms(3) by (auto simp: served_def dest: startExchange_spec(3))
  note phs = served_phases [OF ph]
  from receive_writer [OF rec phs(2) rq assms(4-7)] phs(11) show ?thesis
    by (simp add: served_result [OF ph])
qed

text \<open>
  The client receives the response of the mode: when the mode handler returned a result, the
  connection carries exactly that response, whether or not it could be delivered completely.
\<close>

theorem response_of_the_mode:
  assumes "rn_log r = []" and "saves (rn_log (ServeHTTP p incoming r)) \<noteq> []"
    and "snapshot = po_snapshot p (rn_shared r)" and "headers_fit incoming snapshot"
    and "snd (snd (ReadBody (hq_body incoming) (lim_request_body (cs_limits snapshot)))) = None"
    and "po_handlers p (cs_mode snapshot) = Some handle"
    and "handle (received_request incoming snapshot) snapshot = (result, None)"
  shows "rn_writer (ServeHTTP p incoming r) = fst (writeDownstream (rn_writer r) (mr_response result))"
  using assms by (rule mode_response_written)

theorem response_of_the_mode_witness:
  "rw_output (rn_writer (ServeHTTP sample_pipeline (sample_incoming ''hi'') sample_run))
     = cap_body (cs_capture (po_snapshot sample_pipeline (rn_shared sample_run)))"
proof -
  let ?sn = "po_snapshot sample_pipeline (rn_shared sample_run)" and ?in = "sample_incoming ''hi''"
  let ?result = "fst (CaptureHandler_Handle (received_request ?in ?sn) ?sn)"
  have h: "headers_fit ?in ?sn" by code_simp
  have b: "snd (snd (ReadBody (hq_body ?in) (lim_request_body (cs_limits ?sn)))) = None" by code_simp
  have m: "po_handlers sample_pipeline (cs_mode ?sn) = Some CaptureHandler_Handle"
    by (simp add: sample_pipeline_def NewConfigSnapshot_def sample_config_def Defaults_def)
  have c: "CaptureHandler_Handle (received_request ?in ?sn) ?sn = (?result, None)"
    by (simp add: CaptureHandler_Handle_def Let_def)
  have "rn_writer (ServeHTTP sample_pipeline ?in sample_run) = fst (writeDownstream (rn_writer sample_run) (mr_response ?result))"
    by (rule response_of_the_mode [OF sample_run_sel(1) sample_saves refl h b m c])
  moreover have "rw_output (fst (writeDownstream (rn_writer sample_run) (mr_response ?result))) = cap_body (cs_capture ?sn)"
    by code_simp
  ultimately show ?thesis by simp
qed

end
