(* ===== verification/History_Interface.thy ===== *)
theory History_Interface
  imports Exchange_Model
begin

text \<open>
  The contract between a history store and the components that record exchanges in it (the
  HTTP pipeline, the UDP receiver, the SQLite write callback): \<open>capture.Repository\<close> of
  \<open>internal/capture/pipeline.go\<close>, and the promise on which they rely that an exchange in
  progress is never dropped.
\<close>

locale exchange_history =
  fixes inv :: "'s \<Rightarrow> bool"
    and save :: "'s \<Rightarrow> exchange \<Rightarrow> 's \<times> exchange list"
    and get :: "'s \<Rightarrow> string \<Rightarrow> exchange option"
  assumes inv_save: "inv s \<Longrightarrow> inv (fst (save s e))"
    and get_save: "inv s \<Longrightarrow> get (fst (save s e)) i =
      (if i \<in> ex_id ` set (snd (save s e)) then None else if i = ex_id e then Some e else get s i)"
    and evicted: "inv s \<Longrightarrow> x \<in> set (snd (save s e)) \<Longrightarrow>
      IsTerminal (ex_state x) \<and> (x = e \<or> get s (ex_id x) = Some x \<and> ex_id x \<noteq> ex_id e)"
begin

lemma save_active:
  assumes "inv s" and "\<not> IsTerminal (ex_state e)"
  shows "get (fst (save s e)) (ex_id e) = Some e"
proof -
  have "ex_id e \<notin> ex_id ` set (snd (save s e))"
    using evicted [OF assms(1), of _ e] assms(2) by fastforce
  then show ?thesis by (simp add: get_save [OF assms(1)])
qed

lemma save_keeps_active:
  assumes "inv s" and "get s i = Some a" and "\<not> IsTerminal (ex_state a)" and "i \<noteq> ex_id e"
  shows "get (fst (save s e)) i = Some a"
proof -
  have "i \<notin> ex_id ` set (snd (save s e))"
  proof
    assume "i \<in> ex_id ` set (snd (save s e))"
    then obtain x where "x \<in> set (snd (save s e))" and i: "i = ex_id x" by blast
    with evicted [OF assms(1)] have "IsTerminal (ex_state x) \<and> (x = e \<or> get s (ex_id x) = Some x)"
      by blast
    with i assms show False by auto
  qed
  with assms show ?thesis by (simp add: get_save)
qed

lemma saves_inv: "inv s \<Longrightarrow> inv (foldl (\<lambda>s e. fst (save s e)) s es)"
  by (induction es arbitrary: s) (auto intro: inv_save)

lemma saves_keep_active:
  assumes "inv s" and "get s i = Some a" and "\<not> IsTerminal (ex_state a)"
    and "\<And>e. e \<in> set es \<Longrightarrow> ex_id e \<noteq> i"
  shows "get (foldl (\<lambda>s e. fst (save s e)) s es) i = Some a"
  using assms
proof (induction es arbitrary: s)
  case (Cons e es)
  from Cons.prems have "get (fst (save s e)) i = Some a"
    by (intro save_keeps_active) auto
  with Cons show ?case by (auto intro: inv_save)
qed simp

end

text \<open>The store with all its mutating operations; \<open>writes\<close> are the IDs an operation saves.\<close>

locale history_ops = exchange_history inv save get
  for inv :: "'s \<Rightarrow> bool"
    and save :: "'s \<Rightarrow> exchange \<Rightarrow> 's \<times> exchange list"
    and get :: "'s \<Rightarrow> string \<Rightarrow> exchange option" +
  fixes step :: "'s \<Rightarrow> 'o \<Rightarrow> 's"
    and writes :: "'o \<Rightarrow> string set"
  assumes inv_step: "inv s \<Longrightarrow> inv (step s op)"
    and step_active: "inv s \<Longrightarrow> get s i = Some a \<Longrightarrow> \<not> IsTerminal (ex_state a) \<Longrightarrow> i \<notin> writes op
      \<Longrightarrow> get (step s op) i = Some a"
begin

lemma run_inv: "inv s \<Longrightarrow> inv (foldl step s ops)"
  by (induction ops arbitrary: s) (auto intro: inv_step)

lemma run_keeps_active:
  assumes "inv s" and "get s i = Some a" and "\<not> IsTerminal (ex_state a)"
    and "\<And>op. op \<in> set ops \<Longrightarrow> i \<notin> writes op"
  shows "get (foldl step s ops) i = Some a"
  using assms
proof (induction ops arbitrary: s)
  case (Cons op ops)
  then have "get (step s op) i = Some a" by (intro step_active) auto
  with Cons show ?case by (auto intro: inv_step)
qed simp

end

end
