(* ===== verification/Memory_Store.thy ===== *)
theory Memory_Store
  imports History_Interface
begin

text \<open>
  The RAM history of \<open>internal/store/memory.go\<close>: a bounded map from exchange IDs to exchanges.
  Go's map is an association list with distinct keys in an arbitrary order. Every method holds
  the mutex from its first to its last access, so each is one atomic step.
\<close>

record memory =
  mem_capacity :: int
  mem_items :: "(string \<times> exchange) list"

definition NewMemory :: "int \<Rightarrow> memory" where
  "NewMemory capacity = \<lparr>mem_capacity = (if capacity < 1 then 1 else capacity), mem_items = []\<rparr>"

abbreviation terminal :: "exchange \<Rightarrow> bool" where
  "terminal e \<equiv> IsTerminal (ex_state e)"

definition completed_items :: "memory \<Rightarrow> exchange list" where
  "completed_items m = filter terminal (map snd (mem_items m))"

fun evict_loop :: "exchange list \<Rightarrow> memory \<Rightarrow> exchange list \<Rightarrow> memory \<times> exchange list" where
  "evict_loop [] m evicted = (m, evicted)"
| "evict_loop (e # es) m evicted =
     evict_loop es (m\<lparr>mem_items := AList.delete (ex_id e) (mem_items m)\<rparr>)
       (evicted @ [clone_exchange e])"

definition evictExcess :: "memory \<Rightarrow> memory \<times> exchange list" where
  "evictExcess m =
     (let completed = completed_items m
      in if int (length completed) \<le> mem_capacity m then (m, [])
         else evict_loop (drop (nat (mem_capacity m)) (sort_newest_first completed)) m [])"

definition Save :: "memory \<Rightarrow> exchange \<Rightarrow> memory \<times> exchange list" where
  "Save m e = evictExcess (m\<lparr>mem_items := AList.update (ex_id e) (clone_exchange e) (mem_items m)\<rparr>)"

definition Get :: "memory \<Rightarrow> string \<Rightarrow> exchange option" where
  "Get m i = map_option clone_exchange (map_of (mem_items m) i)"

definition List_items :: "memory \<Rightarrow> exchange list" where
  "List_items m = sort_newest_first (map (\<lambda>(_, e). clone_exchange e) (mem_items m))"

definition Resize :: "memory \<Rightarrow> int \<Rightarrow> memory \<times> exchange list" where
  "Resize m capacity = evictExcess (m\<lparr>mem_capacity := (if capacity < 1 then 1 else capacity)\<rparr>)"

definition Clear :: "memory \<Rightarrow> memory \<times> exchange list" where
  "Clear m =
     (let removed = map clone_exchange (filter terminal (map snd (mem_items m)))
      in (m\<lparr>mem_items := filter (\<lambda>(_, e). \<not> terminal e) (mem_items m)\<rparr>, sort_newest_first removed))"

definition Remove :: "memory \<Rightarrow> string \<Rightarrow> memory \<times> exchange option" where
  "Remove m i =
     (case map_of (mem_items m) i of
        None \<Rightarrow> (m, None)
      | Some e \<Rightarrow> if \<not> terminal e then (m, None)
          else (m\<lparr>mem_items := AList.delete i (mem_items m)\<rparr>, Some (clone_exchange e)))"

definition expired_before :: "gotime \<Rightarrow> exchange \<Rightarrow> bool" where
  "expired_before cutoff e \<longleftrightarrow>
     terminal e \<and> \<not> is_zero (ex_completed e) \<and> time_before (ex_completed e) cutoff"

definition RemoveCompletedBefore :: "memory \<Rightarrow> gotime \<Rightarrow> memory \<times> exchange list" where
  "RemoveCompletedBefore m cutoff =
     (let removed = map clone_exchange (filter (expired_before cutoff) (map snd (mem_items m)))
      in (m\<lparr>mem_items := filter (\<lambda>(_, e). \<not> expired_before cutoff e) (mem_items m)\<rparr>,
          sort_newest_first removed))"

text \<open>The mutating calls as data, and a sequence of them.\<close>

datatype mem_op =
    OpSave exchange | OpResize int | OpClear | OpRemove string | OpRemoveBefore gotime

fun mem_apply :: "memory \<Rightarrow> mem_op \<Rightarrow> memory" where
  "mem_apply m (OpSave e) = fst (Save m e)"
| "mem_apply m (OpResize c) = fst (Resize m c)"
| "mem_apply m OpClear = fst (Clear m)"
| "mem_apply m (OpRemove i) = fst (Remove m i)"
| "mem_apply m (OpRemoveBefore t) = fst (RemoveCompletedBefore m t)"

section \<open>The invariant\<close>

definition keyed :: "(string \<times> exchange) list \<Rightarrow> bool" where
  "keyed items \<longleftrightarrow> distinct (map fst items) \<and> (\<forall>(k, e) \<in> set items. ex_id e = k)"

definition mem_inv :: "memory \<Rightarrow> bool" where
  "mem_inv m \<longleftrightarrow> 1 \<le> mem_capacity m \<and> keyed (mem_items m)
     \<and> int (length (completed_items m)) \<le> mem_capacity m"

lemma keyed_filter [relay_inv]: "keyed items \<Longrightarrow> keyed (filter P items)"
  by (auto simp: keyed_def distinct_map_filter)

lemma keyed_update [relay_inv]: "keyed items \<Longrightarrow> keyed (AList.update (ex_id e) e items)"
  unfolding keyed_def
proof (intro conjI)
  assume a: "distinct (map fst items) \<and> (\<forall>(k, e)\<in>set items. ex_id e = k)"
  then show "distinct (map fst (AList.update (ex_id e) e items))"
    by (simp add: distinct_update)
  have "set (AList.update (ex_id e) e items) \<subseteq> insert (ex_id e, e) (set items)"
    by (induction items) auto
  with a show "\<forall>(k, x)\<in>set (AList.update (ex_id e) e items). ex_id x = k" by auto
qed

lemma keyed_ids: "keyed items \<Longrightarrow> map ex_id (map snd items) = map fst items"
  by (induction items) (auto simp: keyed_def)

lemma keyed_distinct_ids: "keyed items \<Longrightarrow> distinct (map ex_id (map snd items))"
  by (simp only: keyed_ids) (simp add: keyed_def)

lemma keyed_lookup: "keyed items \<Longrightarrow> map_of items i = Some e \<longleftrightarrow> e \<in> snd ` set items \<and> ex_id e = i"
  by (auto simp: keyed_def map_of_eq_Some_iff image_iff) force+

lemma evict_loop_eq:
  "evict_loop es m ev =
     (m\<lparr>mem_items := filter (\<lambda>x. fst x \<notin> ex_id ` set es) (mem_items m)\<rparr>, ev @ es)"
  by (induction es m ev rule: evict_loop.induct) (auto simp: delete_filter intro!: memory.equality filter_cong)

text \<open>What an eviction takes out: the terminal entries past the capacity, newest first.\<close>

definition excess :: "memory \<Rightarrow> exchange list" where
  "excess m = (if int (length (completed_items m)) \<le> mem_capacity m then []
     else drop (nat (mem_capacity m)) (sort_newest_first (completed_items m)))"

lemma evictExcess_eq:
  "evictExcess m =
     (m\<lparr>mem_items := filter (\<lambda>x. fst x \<notin> ex_id ` set (excess m)) (mem_items m)\<rparr>, excess m)"
  by (simp add: evictExcess_def excess_def Let_def evict_loop_eq)

lemma excess_drop:
  "1 \<le> mem_capacity m \<Longrightarrow> excess m = drop (nat (mem_capacity m)) (sort_newest_first (completed_items m))"
  by (simp add: excess_def)

lemma excess_members: "e \<in> set (excess m) \<Longrightarrow> terminal e \<and> e \<in> snd ` set (mem_items m)"
  by (auto simp: excess_def completed_items_def split: if_splits dest!: in_set_dropD)

lemma keyed_values_filter:
  "keyed items \<Longrightarrow> map snd (filter (\<lambda>x. fst x \<notin> S) items) = filter (\<lambda>e. ex_id e \<notin> S) (map snd items)"
  by (induction items) (auto simp: keyed_def)

lemma filter_not_dropped:
  assumes "distinct (map f xs)"
  shows "filter_mset (\<lambda>e. f e \<notin> f ` set (drop n xs)) (mset xs) = mset (take n xs)"
proof -
  have "mset xs = mset (take n xs) + mset (drop n xs)"
    by (metis append_take_drop_id mset_append)
  moreover have "filter_mset (\<lambda>e. f e \<notin> f ` set (drop n xs)) (mset (drop n xs)) = {#}"
    by (auto simp: filter_mset_eq_mempty_iff)
  moreover have "filter_mset (\<lambda>e. f e \<notin> f ` set (drop n xs)) (mset (take n xs)) = mset (take n xs)"
    using distinct_take_drop_disjoint [OF assms, of n] by (subst filter_mset_eq_conv) auto
  ultimately show ?thesis by (simp only: filter_union_mset) simp
qed

lemma completed_distinct: "keyed (mem_items m) \<Longrightarrow> distinct (map ex_id (completed_items m))"
  unfolding completed_items_def using keyed_distinct_ids by (rule distinct_map_filter)

lemma completed_after_evict:
  assumes "keyed (mem_items m)" and "1 \<le> mem_capacity m"
  shows "mset (completed_items (fst (evictExcess m)))
       = mset (take (nat (mem_capacity m)) (sort_newest_first (completed_items m)))"
proof -
  let ?c = "completed_items m" and ?s = "sort_newest_first (completed_items m)"
  have "completed_items (fst (evictExcess m)) = filter (\<lambda>e. ex_id e \<notin> ex_id ` set (excess m)) ?c"
    using assms(1)
    by (simp add: evictExcess_eq completed_items_def keyed_values_filter conj_commute)
  then have "mset (completed_items (fst (evictExcess m)))
      = filter_mset (\<lambda>e. ex_id e \<notin> ex_id ` set (excess m)) (mset ?s)"
    by simp
  also have "\<dots> = mset (take (nat (mem_capacity m)) ?s)"
    unfolding excess_drop [OF assms(2)]
    by (rule filter_not_dropped) (simp add: distinct_ids_sort completed_distinct assms)
  finally show ?thesis .
qed

lemma evict_inv [relay_inv]:
  assumes "keyed (mem_items m)" and "1 \<le> mem_capacity m"
  shows "mem_inv (fst (evictExcess m))"
proof -
  have "length (completed_items (fst (evictExcess m))) \<le> nat (mem_capacity m)"
    using arg_cong [OF completed_after_evict [OF assms], of size] by simp
  then have "int (length (completed_items (fst (evictExcess m)))) \<le> mem_capacity m"
    using assms(2) by linarith
  with assms show ?thesis
    by (simp add: mem_inv_def evictExcess_eq keyed_filter)
qed

lemma filter_terminal_le:
  "(\<And>x. x \<in> set xs \<Longrightarrow> P x \<Longrightarrow> Q x) \<Longrightarrow> length (filter P xs) \<le> length (filter Q xs)"
  by (induction xs) auto

lemma mem_inv_shrink:
  assumes "mem_inv m"
  shows "mem_inv (m\<lparr>mem_items := filter P (mem_items m)\<rparr>)"
proof -
  have "length (filter terminal (map snd (filter P items))) \<le> length (filter terminal (map snd items))"
    for items :: "(string \<times> exchange) list"
    by (induction items) auto
  from this [of "mem_items m"] assms show ?thesis
    by (simp add: mem_inv_def completed_items_def keyed_filter)
qed

lemma mem_inv_new: "mem_inv (NewMemory c)"
  by (simp add: mem_inv_def NewMemory_def keyed_def completed_items_def)

lemma mem_inv_save [relay_inv]: "mem_inv m \<Longrightarrow> mem_inv (fst (Save m e))"
  unfolding Save_def by (rule evict_inv) (simp_all add: mem_inv_def keyed_update)

lemma mem_inv_apply [relay_inv]: "mem_inv m \<Longrightarrow> mem_inv (mem_apply m op)"
proof (cases op)
  case (OpResize c)
  assume "mem_inv m"
  then have "mem_inv (fst (Resize m c))"
    unfolding Resize_def by (intro evict_inv) (simp_all add: mem_inv_def)
  with OpResize show ?thesis by simp
next
  case (OpRemove i)
  assume "mem_inv m"
  with OpRemove show ?thesis
    by (auto simp: Remove_def delete_filter mem_inv_shrink split: option.splits)
qed (auto simp: mem_inv_save Clear_def RemoveCompletedBefore_def Let_def mem_inv_shrink)

lemma mem_inv_run: "mem_inv m \<Longrightarrow> mem_inv (foldl mem_apply m ops)"
  by (induction ops arbitrary: m) (auto intro: mem_inv_apply)

section \<open>Lookup\<close>

lemma Get_map_of: "Get m i = map_of (mem_items m) i"
  by (cases "map_of (mem_items m) i") (simp_all add: Get_def)

lemma map_of_filter_fst: "map_of (filter (\<lambda>x. fst x \<notin> S) items) i = (if i \<in> S then None else map_of items i)"
  by (induction items) auto

lemma Get_save:
  "Get (fst (Save m e)) i =
     (if i \<in> ex_id ` set (snd (Save m e)) then None else if i = ex_id e then Some e else Get m i)"
  by (simp add: Get_map_of Save_def evictExcess_eq map_of_filter_fst update_conv')

lemma Save_evicted:
  "x \<in> set (snd (Save m e)) \<Longrightarrow> terminal x \<and> x \<in> snd ` set (AList.update (ex_id e) e (mem_items m))"
  using excess_members by (fastforce simp: Save_def evictExcess_eq)

lemma map_of_filter_value:
  "distinct (map fst items) \<Longrightarrow>
     map_of (filter (\<lambda>(_, e). P e) items) i = (case map_of items i of Some e \<Rightarrow> if P e then Some e else None | None \<Rightarrow> None)"
  by (induction items) (auto split: option.splits simp: map_of_eq_None_iff rev_image_eqI)

section \<open>The store provides the history contract\<close>

fun op_writes :: "mem_op \<Rightarrow> string set" where
  "op_writes (OpSave e) = {ex_id e}"
| "op_writes _ = {}"

lemma Save_evicted_origin:
  assumes "mem_inv m" and "x \<in> set (snd (Save m e))"
  shows "terminal x \<and> (x = e \<or> Get m (ex_id x) = Some x \<and> ex_id x \<noteq> ex_id e)"
proof -
  let ?items = "AList.update (ex_id e) e (mem_items m)"
  have k: "keyed ?items" using assms(1) by (simp add: mem_inv_def keyed_update)
  from Save_evicted [OF assms(2)] have "terminal x" and "x \<in> snd ` set ?items" by auto
  with keyed_lookup [OF k] have "map_of ?items (ex_id x) = Some x" by blast
  with \<open>terminal x\<close> show ?thesis by (auto simp: update_conv' Get_map_of split: if_splits)
qed

lemma evict_keeps_active:
  assumes "keyed (mem_items m)" and "Get m i = Some a" and "\<not> terminal a"
  shows "Get (fst (evictExcess m)) i = Some a"
proof -
  have "i \<notin> ex_id ` set (excess m)"
  proof
    assume "i \<in> ex_id ` set (excess m)"
    then obtain x where x: "x \<in> set (excess m)" "i = ex_id x" by blast
    with excess_members have "terminal x" "x \<in> snd ` set (mem_items m)" by auto
    with keyed_lookup [OF assms(1)] x(2) have "Get m i = Some x" by (simp add: Get_map_of)
    with assms \<open>terminal x\<close> show False by simp
  qed
  with assms(2) show ?thesis by (simp add: Get_map_of evictExcess_eq map_of_filter_fst)
qed

lemma mem_apply_active:
  assumes "mem_inv m" and "Get m i = Some a" and "\<not> terminal a" and "i \<notin> op_writes op"
  shows "Get (mem_apply m op) i = Some a"
proof (cases op)
  case (OpSave e)
  have "Get (fst (evictExcess (m\<lparr>mem_items := AList.update (ex_id e) e (mem_items m)\<rparr>))) i = Some a"
    using assms OpSave
    by (intro evict_keeps_active) (simp_all add: mem_inv_def keyed_update Get_map_of update_conv')
  with OpSave show ?thesis by (simp add: Save_def)
next
  case (OpResize c)
  have "Get (fst (Resize m c)) i = Some a"
    using assms unfolding Resize_def
    by (intro evict_keeps_active) (simp_all add: mem_inv_def Get_map_of)
  with OpResize show ?thesis by simp
next
  case (OpRemove j)
  with assms show ?thesis
    by (auto simp: Remove_def Get_map_of AList.delete_conv' split: option.splits)
qed (use assms in \<open>auto simp: Clear_def RemoveCompletedBefore_def Let_def Get_map_of expired_before_def
      map_of_filter_value mem_inv_def keyed_def\<close>)

interpretation ram: history_ops mem_inv Save Get mem_apply op_writes
proof unfold_locales
  show "mem_inv m \<Longrightarrow> mem_inv (fst (Save m e))" for m e
    by (rule mem_inv_save)
  show "Get (fst (Save m e)) i =
      (if i \<in> ex_id ` set (snd (Save m e)) then None else if i = ex_id e then Some e else Get m i)" for m e i
    by (rule Get_save)
  show "mem_inv m \<Longrightarrow> x \<in> set (snd (Save m e)) \<Longrightarrow>
      terminal x \<and> (x = e \<or> Get m (ex_id x) = Some x \<and> ex_id x \<noteq> ex_id e)" for m x e
    by (rule Save_evicted_origin)
  show "mem_inv m \<Longrightarrow> mem_inv (mem_apply m op)" for m op
    by (rule mem_inv_apply)
  show "mem_inv m \<Longrightarrow> Get m i = Some a \<Longrightarrow> \<not> terminal a \<Longrightarrow> i \<notin> op_writes op
      \<Longrightarrow> Get (mem_apply m op) i = Some a" for m i a op
    by (rule mem_apply_active)
qed

section \<open>Which entries an eviction keeps\<close>

definition active_items :: "memory \<Rightarrow> exchange list" where
  "active_items m = filter (\<lambda>e. \<not> terminal e) (map snd (mem_items m))"

lemma items_partition: "mset (map snd (mem_items m)) = mset (completed_items m) + mset (active_items m)"
  by (simp only: completed_items_def active_items_def) (metis filter_partition_mset)

lemma evict_active_items:
  assumes "keyed (mem_items m)"
  shows "active_items (fst (evictExcess m)) = active_items m"
proof -
  have "filter (\<lambda>e. \<not> terminal e) (filter (\<lambda>e. ex_id e \<notin> ex_id ` set (excess m)) (map snd (mem_items m)))
      = filter (\<lambda>e. \<not> terminal e) (map snd (mem_items m))"
  proof -
    have "ex_id e \<notin> ex_id ` set (excess m)" if "e \<in> set (map snd (mem_items m))" "\<not> terminal e" for e
    proof
      assume "ex_id e \<in> ex_id ` set (excess m)"
      then obtain x where x: "x \<in> set (excess m)" "ex_id e = ex_id x" by blast
      with excess_members have "terminal x" "x \<in> snd ` set (mem_items m)" by auto
      with keyed_lookup [OF assms] x(2) that(1) have "Some x = Some e" by (metis set_map)
      with that(2) \<open>terminal x\<close> show False by simp
    qed
    then show ?thesis by (simp add: filter_filter) (rule filter_cong, auto)
  qed
  then show ?thesis
    by (simp add: active_items_def evictExcess_eq keyed_values_filter [OF assms])
qed

lemma evict_conserves:
  assumes "keyed (mem_items m)" and "1 \<le> mem_capacity m"
  shows "mset (map snd (mem_items (fst (evictExcess m)))) + mset (snd (evictExcess m)) = mset (map snd (mem_items m))"
proof -
  let ?s = "sort_newest_first (completed_items m)" and ?n = "nat (mem_capacity m)"
  have "mset (take ?n ?s) + mset (drop ?n ?s) = mset (completed_items m)"
    by (metis append_take_drop_id mset_append sort_newest_first_set(2))
  moreover have "snd (evictExcess m) = drop ?n ?s"
    by (simp add: evictExcess_eq excess_drop [OF assms(2)])
  ultimately show ?thesis
    unfolding items_partition completed_after_evict [OF assms] evict_active_items [OF assms(1)]
    by (metis add.assoc add.commute)
qed

lemma evict_keeps_newest:
  assumes "keyed (mem_items m)" and "1 \<le> mem_capacity m" and "clocks_coherent (completed_items m)"
    and "x \<in> set (completed_items (fst (evictExcess m)))" and "y \<in> set (snd (evictExcess m))"
  shows "exchange_key x \<le> exchange_key y"
proof -
  let ?s = "sort_newest_first (completed_items m)" and ?n = "nat (mem_capacity m)"
  have "x \<in> set (take ?n ?s)"
    using assms(4) completed_after_evict [OF assms(1,2)] by (metis set_mset_mset)
  moreover have "y \<in> set (drop ?n ?s)"
    using assms(5) by (simp add: evictExcess_eq excess_drop [OF assms(2)])
  ultimately show ?thesis
    using sorted_split_le [OF sort_newest_first_sorted [OF assms(3)]] by blast
qed

lemma List_items_eq: "List_items m = sort_newest_first (map snd (mem_items m))"
proof -
  have "map (\<lambda>(_, e). clone_exchange e) (mem_items m) = map snd (mem_items m)" by auto
  then show ?thesis by (simp only: List_items_def)
qed

section \<open>Properties\<close>

text \<open>
  Bounded history: after any sequence of \<open>Save\<close>, \<open>Resize\<close>, \<open>Clear\<close>, \<open>Remove\<close> and
  \<open>RemoveCompletedBefore\<close> on a fresh store of any requested capacity, the store holds at most its
  (normalised, positive) capacity of terminal exchanges, each under its own ID and no ID twice.
\<close>

theorem memory_bounded:
  "let m = foldl mem_apply (NewMemory c) ops
   in 1 \<le> mem_capacity m \<and> int (length (completed_items m)) \<le> mem_capacity m \<and> keyed (mem_items m)"
  using mem_inv_run [OF mem_inv_new, of c ops] by (simp add: mem_inv_def Let_def)


text \<open>The store of the witness: capacity one, one exchange in progress, one older terminal one.\<close>

definition sample_memory :: memory where
  "sample_memory = \<lparr>mem_capacity = 1, mem_items =
     [(''a'', sample_exchange ''a'' StateReceiving 1 0), (''b'', sample_exchange ''b'' StateCompleted 2 5)]\<rparr>"

lemma sample_memory_inv: "mem_inv sample_memory"
  by (simp add: mem_inv_def sample_memory_def keyed_def completed_items_def)


text \<open>
  An exchange in progress is never dropped: whatever other operations run (saves of other
  exchanges, resizing, clearing, single removals, retention), it can still be read back unchanged.
\<close>

theorem active_exchange_survives:
  assumes "mem_inv m" and "Get m i = Some a" and "\<not> terminal a"
    and "\<And>op. op \<in> set ops \<Longrightarrow> i \<notin> op_writes op"
  shows "Get (foldl mem_apply m ops) i = Some a"
  using assms by (rule ram.run_keeps_active)

theorem active_exchange_survives_witness:
  "Get (foldl mem_apply sample_memory
     [OpSave (sample_exchange ''c'' StateFailed 3 6), OpClear, OpRemove ''a'', OpResize 0]) ''a''
   = Some (sample_exchange ''a'' StateReceiving 1 0)"
proof -
  have g: "Get sample_memory ''a'' = Some (sample_exchange ''a'' StateReceiving 1 0)"
    by (simp add: Get_map_of sample_memory_def)
  show ?thesis
    by (rule active_exchange_survives [OF sample_memory_inv g]) auto
qed

text \<open>
  The history list: \<open>List\<close> returns exactly the stored exchanges, each once, and on coherent
  clocks strictly ordered newest first with the greater ID first among equal times.
\<close>

theorem list_newest_first:
  assumes "mem_inv m" and "clocks_coherent (map snd (mem_items m))"
  shows "set (List_items m) = {e. \<exists>i. Get m i = Some e}
    \<and> distinct (map ex_id (List_items m))
    \<and> sorted_wrt (<) (map exchange_key (List_items m))"
proof -
  have k: "keyed (mem_items m)" using assms(1) by (simp add: mem_inv_def)
  have d: "distinct (map ex_id (List_items m))"
    by (simp only: List_items_eq distinct_ids_sort keyed_distinct_ids [OF k])
  have "sorted (map exchange_key (List_items m))"
    using assms(2) by (simp only: List_items_eq sort_newest_first_sorted)
  moreover have "distinct (map exchange_key (List_items m))"
    using d by (auto simp: distinct_map inj_on_def exchange_key_def)
  ultimately have "sorted_wrt (<) (map exchange_key (List_items m))"
    by (simp add: strict_sorted_iff)
  moreover have "set (List_items m) = {e. \<exists>i. Get m i = Some e}"
    using keyed_lookup [OF k] by (auto simp: List_items_eq Get_map_of)
  ultimately show ?thesis using d by blast
qed

theorem list_newest_first_witness:
  "set (List_items sample_memory) = {e. \<exists>i. Get sample_memory i = Some e}
    \<and> map ex_id (List_items sample_memory) = [''b'', ''a'']"
proof -
  have c: "clocks_coherent (map snd (mem_items sample_memory))"
    by (rule clocks_coherent_no_mono)
       (auto simp: sample_memory_def ordering_time_def wall_time_def is_zero_def)
  have "map ex_id (List_items sample_memory) = [''b'', ''a'']"
    by (simp add: List_items_def sample_memory_def
        sort_newest_first_def slice_stable_def newer_def ordering_time_def wall_time_def is_zero_def
        time_equal_def time_after_def time_diff_def)
  with list_newest_first [OF sample_memory_inv c] show ?thesis by blast
qed

text \<open>
  Retention removes exactly the terminal exchanges completed strictly before the cutoff: they
  are returned and can no longer be read, and every other exchange (in progress, completed at the
  cutoff or later) is still there.
\<close>

theorem retention_exact:
  assumes "mem_inv m"
  shows "set (snd (RemoveCompletedBefore m cutoff)) = {e. (\<exists>i. Get m i = Some e) \<and> expired_before cutoff e}
    \<and> (\<forall>i. Get (fst (RemoveCompletedBefore m cutoff)) i =
         (case Get m i of Some e \<Rightarrow> if expired_before cutoff e then None else Some e | None \<Rightarrow> None))"
proof -
  have k: "keyed (mem_items m)" using assms by (simp add: mem_inv_def)
  then have "distinct (map fst (mem_items m))" by (simp add: keyed_def)
  then have "\<forall>i. Get (fst (RemoveCompletedBefore m cutoff)) i =
         (case Get m i of Some e \<Rightarrow> if expired_before cutoff e then None else Some e | None \<Rightarrow> None)"
    by (simp add: RemoveCompletedBefore_def Let_def Get_map_of map_of_filter_value split: option.split)
  moreover have "set (snd (RemoveCompletedBefore m cutoff)) = {e. (\<exists>i. Get m i = Some e) \<and> expired_before cutoff e}"
    using keyed_lookup [OF k] by (auto simp: RemoveCompletedBefore_def Let_def Get_map_of)
  ultimately show ?thesis by blast
qed

theorem retention_exact_witness:
  "Get (fst (RemoveCompletedBefore sample_memory (wall_time 6))) ''b'' = None
   \<and> Get (fst (RemoveCompletedBefore sample_memory (wall_time 5))) ''b'' \<noteq> None"
proof -
  have b: "Get sample_memory ''b'' = Some (sample_exchange ''b'' StateCompleted 2 5)"
    by (simp add: Get_map_of sample_memory_def)
  show ?thesis
    using retention_exact [OF sample_memory_inv, of "wall_time 6"] retention_exact [OF sample_memory_inv, of "wall_time 5"] b
    by (simp add: expired_before_def wall_time_def is_zero_def time_before_def time_diff_def)
qed

end
