(* ===== verification/Reservation_Interface.thy ===== *)
theory Reservation_Interface
  imports Exchange_Model
begin

text \<open>
  The contract of \<open>capture.PersistenceReservation\<close> and \<open>capture.ReservingRepository\<close>
  (\<open>internal/capture/pipeline.go\<close>): a reservation is open until it is committed or cancelled,
  committing an open reservation succeeds, and whatever is done to a reservation that is no
  longer open has no effect. \<open>opened s\<close> are the open reservations of the state \<open>s\<close>.
\<close>

locale persistence_reservations =
  fixes inv :: "'s \<Rightarrow> bool"
    and opened :: "'s \<Rightarrow> nat set"
    and reserve :: "'s \<Rightarrow> int \<Rightarrow> 's \<times> nat option"
    and commit :: "'s \<Rightarrow> nat \<Rightarrow> exchange \<Rightarrow> 's \<times> go_error option"
    and cancel :: "'s \<Rightarrow> nat \<Rightarrow> 's"
  assumes inv_reserve: "inv s \<Longrightarrow> inv (fst (reserve s n))"
    and inv_commit: "inv s \<Longrightarrow> inv (fst (commit s r e))"
    and inv_cancel: "inv s \<Longrightarrow> inv (cancel s r)"
    and reserve_None: "inv s \<Longrightarrow> snd (reserve s n) = None \<Longrightarrow> fst (reserve s n) = s"
    and reserve_Some: "inv s \<Longrightarrow> snd (reserve s n) = Some r \<Longrightarrow>
      r \<notin> opened s \<and> opened (fst (reserve s n)) = insert r (opened s)"
    and commit_open: "inv s \<Longrightarrow> r \<in> opened s \<Longrightarrow>
      snd (commit s r e) = None \<and> opened (fst (commit s r e)) = opened s - {r}"
    and commit_closed: "inv s \<Longrightarrow> r \<notin> opened s \<Longrightarrow> commit s r e = (s, None)"
    and cancel_open: "inv s \<Longrightarrow> r \<in> opened s \<Longrightarrow> opened (cancel s r) = opened s - {r}"
    and cancel_closed: "inv s \<Longrightarrow> r \<notin> opened s \<Longrightarrow> cancel s r = s"
begin

text \<open>The two ways a request ends: its deferred calls leave no reservation of its own open.\<close>

lemma cancel_after_commit:
  assumes "inv s"
  shows "cancel (fst (commit s r e)) r = fst (commit s r e)"
proof (cases "r \<in> opened s")
  case True
  with commit_open [OF assms True] have "r \<notin> opened (fst (commit s r e))" by simp
  then show ?thesis using assms by (intro cancel_closed inv_commit)
next
  case False
  with assms show ?thesis by (simp add: commit_closed cancel_closed)
qed

lemma reserve_commit_cancel:
  assumes "inv s" and "reserve s n = (s1, Some r)"
  shows "opened (cancel (fst (commit s1 r e)) r) = opened s" and "snd (commit s1 r e) = None"
proof -
  have i1: "inv s1" using inv_reserve [OF assms(1), of n] assms(2) by simp
  have o1: "r \<notin> opened s" "opened s1 = insert r (opened s)"
    using reserve_Some [OF assms(1), of n r] assms(2) by auto
  then have c: "snd (commit s1 r e) = None \<and> opened (fst (commit s1 r e)) = opened s1 - {r}"
    by (intro commit_open i1) simp
  then show "snd (commit s1 r e) = None" by simp
  from c o1 show "opened (cancel (fst (commit s1 r e)) r) = opened s"
    by (simp add: cancel_after_commit i1)
qed

lemma reserve_cancel:
  assumes "inv s" and "reserve s n = (s1, Some r)"
  shows "opened (cancel s1 r) = opened s"
proof -
  have "inv s1" using inv_reserve [OF assms(1), of n] assms(2) by simp
  moreover have "r \<notin> opened s" "opened s1 = insert r (opened s)"
    using reserve_Some [OF assms(1), of n r] assms(2) by auto
  ultimately show ?thesis by (simp add: cancel_open)
qed

end

end
