(* ===== verification/Sqlite_Rows.thy ===== *)
theory Sqlite_Rows
  imports Exchange_Model
begin

text \<open>
  The tables of \<open>internal/sqlite/repository.go\<close> and what the repository reads and writes in
  them: \<open>persist\<close>, \<open>Get\<close>, \<open>Body\<close>, \<open>List\<close>, \<open>ContainsBoundary\<close>, \<open>Delete\<close>, \<open>Clear\<close> and the batched
  \<open>Cleanup\<close>.

  SQLite executes the statements: \<open>exchanges\<close> and \<open>udp_datagrams\<close> are lists of rows, an
  \<open>INSERT \<dots> ON CONFLICT DO UPDATE\<close> replaces the row of the same primary key, \<open>ORDER BY\<close> sorts,
  a negative \<open>LIMIT\<close> means no limit, and deleting an exchange cascades to its datagram. The
  metadata blob is the JSON document it holds: \<open>json_exchange\<close> is the result of encoding an
  exchange and decoding it again, on strings that are valid UTF-8. A statement that fails ends
  the operation with its error and no change; these branches carry no data and are left out.
\<close>

section \<open>Rows\<close>

definition zero_snapshot :: config_snapshot where
  "zero_snapshot = \<lparr>cs_revision = 0, cs_mode = [], cs_upstream = \<lparr>up_url = [], up_timeout = 0\<rparr>,
     cs_capture = \<lparr>cap_status = 0, cap_headers = [], cap_body = []\<rparr>,
     cs_limits = \<lparr>lim_request_body = 0, lim_response_body = 0, lim_request_header = 0,
       lim_response_header = 0, lim_concurrent = 0\<rparr>,
     cs_preview = \<lparr>pv_enabled = False, pv_bytes = 0\<rparr>,
     cs_storage = \<lparr>sto_mode = [], sto_sqlite_path = [], sto_retention_days = 0\<rparr>\<rparr>"

definition zero_request :: request where
  "zero_request = \<lparr>rq_method = [], rq_scheme = [], rq_protocol = [], rq_host = [], rq_target = [],
     rq_path = [], rq_raw_query = [], rq_remote_address = [], rq_headers = [], rq_content_type = [],
     rq_body = [], rq_observed = 0, rq_complete = False, rq_header_bytes = 0, rq_preview = [],
     rq_preview_truncated = False, rq_decoded_preview = None, rq_preview_error = []\<rparr>"

definition zero_delivery :: downstream_delivery where
  "zero_delivery = \<lparr>dd_status = 0, dd_body_bytes = 0, dd_error = []\<rparr>"

definition json_timing :: "proxy_timing \<Rightarrow> proxy_timing" where
  "json_timing t = t\<lparr>
     pt_upstream_started := map_option utc (pt_upstream_started t),
     pt_request_written := map_option utc (pt_request_written t),
     pt_first_byte := map_option utc (pt_first_byte t),
     pt_captured := map_option utc (pt_captured t),
     pt_downstream_completed := map_option utc (pt_downstream_completed t)\<rparr>"

text \<open>
  \<open>MarshalJSON\<close> followed by \<open>Unmarshal\<close>: bodies, the configuration and the monotonic start are
  not in the document, times lose their monotonic reading, and a UDP exchange has no request
  and no downstream delivery.
\<close>

definition json_exchange :: "exchange \<Rightarrow> exchange" where
  "json_exchange e = e\<lparr>
     ex_configuration := zero_snapshot,
     ex_started := utc (ex_started e),
     ex_completed := utc (ex_completed e),
     ex_request := (if ex_transport e = TransportUDP then zero_request else (ex_request e)\<lparr>rq_body := []\<rparr>),
     ex_datagram := map_option (\<lambda>d. d\<lparr>dg_payload := []\<rparr>) (ex_datagram e),
     ex_response := map_option (\<lambda>r. r\<lparr>rs_body := []\<rparr>) (ex_response e),
     ex_timing := map_option json_timing (ex_timing e),
     ex_delivery := (if ex_transport e = TransportUDP then zero_delivery else ex_delivery e),
     ex_started_mono := zero_time\<rparr>"

record persisted_exchange =
  px_exchange :: exchange
  px_configuration :: config_snapshot

record row =
  row_id :: string
  row_completed_ns :: int
  row_started_ns :: int
  row_method :: string
  row_path :: string
  row_mode :: string
  row_status :: "int option"
  row_state :: string
  row_duration_ns :: int
  row_request_bytes :: int
  row_response_bytes :: int
  row_metadata :: persisted_exchange
  row_request_body :: bytes
  row_response_body :: "bytes option"

record database =
  db_exchanges :: "row list"
  db_datagrams :: "(string \<times> bytes) list"

definition Open_database :: database where
  "Open_database = \<lparr>db_exchanges = [], db_datagrams = []\<rparr>"

section \<open>Writing\<close>

definition nullableBody :: "bool \<Rightarrow> bytes \<Rightarrow> bytes option" where
  "nullableBody present body = (if \<not> present then None else Some body)"

fun upsert :: "row \<Rightarrow> row list \<Rightarrow> row list" where
  "upsert r [] = [r]"
| "upsert r (x # xs) = (if row_id x = row_id r then r # xs else x # upsert r xs)"

definition persisted_row :: "exchange \<Rightarrow> row" where
  "persisted_row e =
     (let meta0 = clone_exchange e;
          udp = (ex_transport meta0 = TransportUDP \<and> ex_datagram meta0 \<noteq> None);
          requestBody = (if udp then [] else rq_body (ex_request meta0));
          meta1 = (if udp then meta0\<lparr>ex_datagram := map_option (\<lambda>d. d\<lparr>dg_payload := []\<rparr>) (ex_datagram meta0)\<rparr> else meta0);
          meta2 = meta1\<lparr>ex_request := (ex_request meta1)\<lparr>rq_body := []\<rparr>\<rparr>;
          status = map_option rs_status (ex_response meta2);
          responseBody = (case ex_response meta2 of None \<Rightarrow> [] | Some r \<Rightarrow> rs_body r);
          meta3 = meta2\<lparr>ex_response := map_option (\<lambda>r. r\<lparr>rs_body := []\<rparr>) (ex_response meta2)\<rparr>
      in \<lparr>row_id = ex_id e, row_completed_ns = unix_nano (ex_completed e),
          row_started_ns = unix_nano (ex_started e), row_method = rq_method (ex_request e),
          row_path = rq_path (ex_request e), row_mode = ex_mode e, row_status = status,
          row_state = state_string (ex_state e), row_duration_ns = ex_duration e,
          row_request_bytes = int (length requestBody), row_response_bytes = int (length responseBody),
          row_metadata = \<lparr>px_exchange = json_exchange meta3, px_configuration = ex_configuration e\<rparr>,
          row_request_body = requestBody,
          row_response_body = nullableBody (ex_response e \<noteq> None) responseBody\<rparr>)"

definition persist :: "database \<Rightarrow> exchange \<Rightarrow> database" where
  "persist d e =
     (let d1 = d\<lparr>db_exchanges := upsert (persisted_row e) (db_exchanges d)\<rparr>
      in case (ex_transport e, ex_datagram e) of
           (TransportUDP, Some g) \<Rightarrow> d1\<lparr>db_datagrams := AList.update (ex_id e) (dg_payload g) (db_datagrams d1)\<rparr>
         | _ \<Rightarrow> d1\<lparr>db_datagrams := AList.delete (ex_id e) (db_datagrams d1)\<rparr>)"

text \<open>The transaction of \<open>writeBatch\<close>: all items, or none when any statement failed.\<close>

definition write_transaction :: "database \<Rightarrow> exchange list \<Rightarrow> string option \<Rightarrow> database" where
  "write_transaction d es failure = (case failure of None \<Rightarrow> foldl persist d es | Some _ \<Rightarrow> d)"

section \<open>Reading\<close>

definition decodeExchange :: "persisted_exchange \<Rightarrow> exchange" where
  "decodeExchange stored = (px_exchange stored)\<lparr>ex_configuration := px_configuration stored,
     ex_persistence := Some \<lparr>ps_state = ''persisted'', ps_error = []\<rparr>\<rparr>"

definition find_row :: "database \<Rightarrow> string \<Rightarrow> row option" where
  "find_row d i = find (\<lambda>r. row_id r = i) (db_exchanges d)"

definition Get_row :: "database \<Rightarrow> string \<Rightarrow> exchange option" where
  "Get_row d i = map_option (\<lambda>r. decodeExchange (row_metadata r)) (find_row d i)"

text \<open>\<open>Body\<close>: \<open>Inl\<close> the error, \<open>Inr None\<close> when there is no row.\<close>

definition Body :: "database \<Rightarrow> string \<Rightarrow> bool \<Rightarrow> go_error + bytes option" where
  "Body d i response = (case find_row d i of
     None \<Rightarrow> Inr None
   | Some r \<Rightarrow>
       let e = decodeExchange (row_metadata r)
       in if ex_transport e = TransportUDP \<and> \<not> response then
            (if ex_datagram e = None then Inl (Plain ''read UDP datagram: missing metadata'')
             else Inr (Some (case map_of (db_datagrams d) i of None \<Rightarrow> [] | Some p \<Rightarrow> p)))
          else Inr (Some (if response then (case row_response_body r of None \<Rightarrow> [] | Some b \<Rightarrow> b)
                          else row_request_body r)))"

record boundary =
  bnd_completed :: gotime
  bnd_id :: string

definition row_key :: "row \<Rightarrow> order_key" where
  "row_key r = OrderKey (row_completed_ns r) (row_id r)"

text \<open>\<open>WHERE completed_ns < ? OR (completed_ns = ? AND id < ?)\<close>.\<close>

definition row_after :: "boundary \<Rightarrow> row \<Rightarrow> bool" where
  "row_after b r \<longleftrightarrow> row_completed_ns r < unix_nano (bnd_completed b)
     \<or> row_completed_ns r = unix_nano (bnd_completed b) \<and> row_id r < bnd_id b"

definition sql_limit :: "int \<Rightarrow> 'a list \<Rightarrow> 'a list" where
  "sql_limit n xs = (if n < 0 then xs else take (nat n) xs)"

definition List_rows :: "database \<Rightarrow> boundary option \<Rightarrow> int \<Rightarrow> exchange list \<times> bool" where
  "List_rows d bnd limit =
     (if limit < 1 then ([], False)
      else
        let selected = (case bnd of None \<Rightarrow> db_exchanges d | Some b \<Rightarrow> filter (row_after b) (db_exchanges d));
            items = map (\<lambda>r. decodeExchange (row_metadata r)) (sql_limit (limit + 1) (sort_key row_key selected));
            hasMore = int (length items) > limit
        in (if hasMore then take (nat limit) items else items, hasMore))"

definition ContainsBoundary :: "database \<Rightarrow> boundary \<Rightarrow> bool" where
  "ContainsBoundary d b \<longleftrightarrow>
     list_ex (\<lambda>r. row_id r = bnd_id b \<and> row_completed_ns r = unix_nano (bnd_completed b)) (db_exchanges d)"

section \<open>Deleting\<close>

text \<open>Deleting rows of \<open>exchanges\<close>, with \<open>ON DELETE CASCADE\<close> on \<open>udp_datagrams\<close>.\<close>

definition delete_ids :: "database \<Rightarrow> string list \<Rightarrow> database" where
  "delete_ids d ids = \<lparr>db_exchanges = filter (\<lambda>r. row_id r \<notin> set ids) (db_exchanges d),
     db_datagrams = filter (\<lambda>(i, _). \<not> (i \<in> set ids \<and> i \<in> row_id ` set (db_exchanges d))) (db_datagrams d)\<rparr>"

definition Delete :: "database \<Rightarrow> string \<Rightarrow> database \<times> bool" where
  "Delete d i =
     (let rows = length (filter (\<lambda>r. row_id r = i) (db_exchanges d)) in (delete_ids d [i], rows > 0))"

definition Clear_rows :: "database \<Rightarrow> database \<times> int" where
  "Clear_rows d = (delete_ids d (map row_id (db_exchanges d)), int (length (db_exchanges d)))"

definition count_expired :: "database \<Rightarrow> int \<Rightarrow> int" where
  "count_expired d cutoff = int (length (filter (\<lambda>r. row_completed_ns r < cutoff) (db_exchanges d)))"

text \<open>\<open>ORDER BY completed_ns, id\<close>: the oldest first.\<close>

definition older_row :: "row \<Rightarrow> row \<Rightarrow> bool" where
  "older_row a b \<longleftrightarrow> row_completed_ns a < row_completed_ns b
     \<or> row_completed_ns a = row_completed_ns b \<and> row_id a < row_id b"

definition cleanup_batch :: "database \<Rightarrow> int \<Rightarrow> int \<Rightarrow> database \<times> int" where
  "cleanup_batch d cutoff per_batch =
     (let ids = map row_id (sql_limit per_batch (slice_stable older_row
            (filter (\<lambda>r. row_completed_ns r < cutoff) (db_exchanges d))))
      in (delete_ids d ids, int (length ids)))"

text \<open>The loop of \<open>Cleanup\<close>; \<open>None\<close> when the fuel runs out.\<close>

fun cleanup_loop :: "nat \<Rightarrow> database \<Rightarrow> int \<Rightarrow> int \<Rightarrow> int \<Rightarrow> (database \<times> int) option" where
  "cleanup_loop 0 d cutoff per_batch deleted = None"
| "cleanup_loop (Suc n) d cutoff per_batch deleted =
     (let (d1, count) = cleanup_batch d cutoff per_batch; deleted1 = deleted + count
      in if count < per_batch then Some (d1, deleted1) else cleanup_loop n d1 cutoff per_batch deleted1)"

definition cleanup_cutoff :: "gotime \<Rightarrow> int \<Rightarrow> gotime" where
  "cleanup_cutoff now keep_days = wall_time (wall_ns now - keep_days * 86400 * second_ns)"

section \<open>The tables stay consistent\<close>

definition db_inv :: "database \<Rightarrow> bool" where
  "db_inv d \<longleftrightarrow> distinct (map row_id (db_exchanges d)) \<and> distinct (map fst (db_datagrams d))
     \<and> fst ` set (db_datagrams d) \<subseteq> row_id ` set (db_exchanges d)
     \<and> (\<forall>r \<in> set (db_exchanges d). ex_id (px_exchange (row_metadata r)) = row_id r
          \<and> unix_nano (ex_completed (px_exchange (row_metadata r))) = row_completed_ns r)"

lemma set_upsert: "distinct (map row_id xs) \<Longrightarrow>
    set (upsert r xs) = insert r {x \<in> set xs. row_id x \<noteq> row_id r}"
  by (induction xs) (auto simp: image_iff)

lemma ids_upsert: "row_id ` set (upsert r xs) = insert (row_id r) (row_id ` set xs)"
  by (induction xs) auto

lemma distinct_upsert: "distinct (map row_id xs) \<Longrightarrow> distinct (map row_id (upsert r xs))"
proof (induction xs)
  case (Cons x xs)
  have "row_id x \<noteq> row_id r \<Longrightarrow> row_id x \<notin> row_id ` set (upsert r xs)"
    using Cons.prems by (auto simp: ids_upsert)
  with Cons show ?case by auto
qed simp

lemma find_upsert: "find (\<lambda>x. row_id x = i) (upsert r xs) =
    (if i = row_id r then Some r else find (\<lambda>x. row_id x = i) xs)"
  by (induction xs) auto

lemma unix_nano_utc [simp]: "unix_nano (utc t) = unix_nano t"
  by (simp add: unix_nano_def)

lemma persisted_row_sel [simp]:
  "row_id (persisted_row e) = ex_id e"
  "row_completed_ns (persisted_row e) = unix_nano (ex_completed e)"
  "px_configuration (row_metadata (persisted_row e)) = ex_configuration e"
  "row_response_body (persisted_row e) = map_option rs_body (ex_response e)"
  "row_request_body (persisted_row e) =
     (if ex_transport e = TransportUDP \<and> ex_datagram e \<noteq> None then [] else rq_body (ex_request e))"
  by (auto simp: persisted_row_def Let_def nullableBody_def split: option.splits)

lemma persisted_row_metadata:
  "px_exchange (row_metadata (persisted_row e)) = json_exchange e"
  by (cases "ex_datagram e"; cases "ex_response e")
    (auto simp: persisted_row_def Let_def json_exchange_def intro!: exchange.equality request.equality)

lemma persist_exchanges: "db_exchanges (persist d e) = upsert (persisted_row e) (db_exchanges d)"
  by (auto simp: persist_def Let_def split: transport.splits option.splits)

lemma persist_datagrams:
  "db_datagrams (persist d e) = (case (ex_transport e, ex_datagram e) of
     (TransportUDP, Some g) \<Rightarrow> AList.update (ex_id e) (dg_payload g) (db_datagrams d)
   | _ \<Rightarrow> AList.delete (ex_id e) (db_datagrams d))"
  by (auto simp: persist_def Let_def split: transport.splits option.splits)

lemma json_exchange_sel [simp]:
  "ex_id (json_exchange e) = ex_id e" "ex_transport (json_exchange e) = ex_transport e"
  "ex_state (json_exchange e) = ex_state e" "ex_completed (json_exchange e) = utc (ex_completed e)"
  "ex_datagram (json_exchange e) = None \<longleftrightarrow> ex_datagram e = None"
  by (simp_all add: json_exchange_def)

lemma db_inv_open [relay_inv]: "db_inv Open_database"
  by (simp add: db_inv_def Open_database_def)

lemma db_inv_persist [relay_inv]:
  assumes "db_inv d"
  shows "db_inv (persist d e)"
proof -
  have "distinct (map fst (db_datagrams (persist d e)))"
    using assms by (auto simp: db_inv_def persist_datagrams distinct_update distinct_delete
        split: transport.splits option.splits)
  moreover have "fst ` set (db_datagrams (persist d e)) \<subseteq> insert (ex_id e) (fst ` set (db_datagrams d))"
    by (auto simp: persist_datagrams fst_set_update delete_filter
        split: transport.splits option.splits)
  moreover have "fst ` set (db_datagrams d) \<subseteq> row_id ` set (db_exchanges d)"
    using assms by (simp add: db_inv_def)
  ultimately have "distinct (map fst (db_datagrams (persist d e)))"
    and "fst ` set (db_datagrams (persist d e)) \<subseteq> row_id ` set (db_exchanges (persist d e))"
    by (simp, simp add: persist_exchanges ids_upsert, blast)
  then show ?thesis
    using assms
    by (simp add: db_inv_def persist_exchanges distinct_upsert set_upsert persisted_row_metadata)
qed

lemma db_inv_transaction [relay_inv]: "db_inv d \<Longrightarrow> db_inv (write_transaction d es failure)"
proof -
  have "db_inv d \<Longrightarrow> db_inv (foldl persist d es)"
    by (induction es arbitrary: d) (auto intro: db_inv_persist)
  then show "db_inv d \<Longrightarrow> db_inv (write_transaction d es failure)"
    by (simp add: write_transaction_def split: option.splits)
qed

lemma db_inv_delete [relay_inv]: "db_inv d \<Longrightarrow> db_inv (delete_ids d ids)"
  by (auto simp: db_inv_def delete_ids_def distinct_map_filter image_iff) (force dest: subsetD)

section \<open>Lookups after a write\<close>

lemma find_row_persist: "find_row (persist d e) i =
    (if i = ex_id e then Some (persisted_row e) else find_row d i)"
  by (simp add: find_row_def persist_exchanges find_upsert)

lemma Get_persist: "Get_row (persist d e) i =
    (if i = ex_id e then Some (decodeExchange (row_metadata (persisted_row e))) else Get_row d i)"
  by (simp add: Get_row_def find_row_persist)

lemma datagrams_persist_other:
  "i \<noteq> ex_id e \<Longrightarrow> map_of (db_datagrams (persist d e)) i = map_of (db_datagrams d) i"
  by (auto simp: persist_datagrams update_conv' delete_conv' split: transport.splits option.splits)

lemma Body_persist_other: "i \<noteq> ex_id e \<Longrightarrow> Body (persist d e) i response = Body d i response"
  by (simp add: Body_def find_row_persist datagrams_persist_other cong: option.case_cong if_cong)

lemma decode_persisted_row: "decodeExchange (row_metadata (persisted_row e)) = (json_exchange e)\<lparr>
    ex_configuration := ex_configuration e, ex_persistence := Some \<lparr>ps_state = ''persisted'', ps_error = []\<rparr>\<rparr>"
  by (simp add: decodeExchange_def persisted_row_metadata)

lemma decode_sel [simp]:
  "ex_transport (decodeExchange p) = ex_transport (px_exchange p)"
  "ex_datagram (decodeExchange p) = ex_datagram (px_exchange p)"
  "ex_id (decodeExchange p) = ex_id (px_exchange p)"
  "ex_completed (decodeExchange p) = ex_completed (px_exchange p)"
  by (simp_all add: decodeExchange_def)

lemma Body_persist_udp:
  "ex_transport e = TransportUDP \<Longrightarrow> ex_datagram e = Some g \<Longrightarrow>
    Body (persist d e) (ex_id e) False = Inr (Some (dg_payload g))"
  by (simp add: Body_def find_row_persist Let_def persisted_row_metadata persist_datagrams update_conv')

lemma Body_persist_http:
  "ex_transport e = TransportHTTP \<Longrightarrow>
    Body (persist d e) (ex_id e) response = Inr (Some
      (if response then (case ex_response e of None \<Rightarrow> [] | Some r \<Rightarrow> rs_body r) else rq_body (ex_request e)))"
  by (simp add: Body_def find_row_persist Let_def persisted_row_metadata split: option.splits)

section \<open>Pages\<close>

definition row_exchange :: "row \<Rightarrow> exchange" where
  "row_exchange r = decodeExchange (row_metadata r)"

definition stored_order :: "database \<Rightarrow> row list" where
  "stored_order d = sort_key row_key (db_exchanges d)"

definition boundary_of :: "exchange \<Rightarrow> boundary" where
  "boundary_of e = \<lparr>bnd_completed = ex_completed e, bnd_id = ex_id e\<rparr>"

text \<open>A client that follows the last item of each page while there are more.\<close>

fun pages :: "nat \<Rightarrow> database \<Rightarrow> int \<Rightarrow> boundary option \<Rightarrow> exchange list list" where
  "pages 0 d limit b = []"
| "pages (Suc n) d limit b =
     (let (items, more) = List_rows d b limit
      in items # (if more then pages n d limit (Some (boundary_of (last items))) else []))"

lemma row_after_key:
  assumes "db_inv d" and "x \<in> set (db_exchanges d)"
  shows "row_after (boundary_of (row_exchange x)) r \<longleftrightarrow> row_key x < row_key r"
proof -
  have "ex_id (px_exchange (row_metadata x)) = row_id x"
    and "unix_nano (ex_completed (px_exchange (row_metadata x))) = row_completed_ns x"
    using assms by (simp_all add: db_inv_def)
  then show ?thesis
    by (auto simp: row_after_def boundary_of_def row_exchange_def row_key_def less_order_key_def)
qed

lemma stored_order_strict:
  assumes "db_inv d"
  shows "sorted_wrt (<) (map row_key (stored_order d))"
proof -
  have "inj_on row_key (set (db_exchanges d))"
    using assms by (auto simp: db_inv_def row_key_def distinct_map inj_on_def)
  then have "distinct (map row_key (stored_order d))"
    using assms by (simp add: stored_order_def distinct_map db_inv_def)
  then show ?thesis
    by (simp add: strict_sorted_iff stored_order_def)
qed

lemma selected_suffix:
  assumes "db_inv d" and "stored_order d = A @ x # R"
  shows "sort_key row_key (filter (row_after (boundary_of (row_exchange x))) (db_exchanges d)) = R"
proof -
  have "set (stored_order d) = set (db_exchanges d)" by (simp add: stored_order_def)
  with assms(2) have x: "x \<in> set (db_exchanges d)" by auto
  have s: "sorted_wrt (<) (map row_key (A @ x # R))"
    using stored_order_strict [OF assms(1)] assms(2) by simp
  have "row_after (boundary_of (row_exchange x)) = (\<lambda>r. row_key x < row_key r)"
    by (rule ext) (rule row_after_key [OF assms(1) x])
  then have "sort_key row_key (filter (row_after (boundary_of (row_exchange x))) (db_exchanges d))
      = filter (\<lambda>r. row_key x < row_key r) (stored_order d)"
    by (simp add: stored_order_def filter_sort)
  also have "\<dots> = R"
    using s assms(2)
    by (auto simp: sorted_wrt_append sorted_wrt_map filter_empty_conv filter_id_conv dest: less_imp_not_less)
  finally show ?thesis .
qed

lemma List_rows_suffix:
  assumes "1 \<le> limit"
    and "(case b of None \<Rightarrow> db_exchanges d | Some b \<Rightarrow> filter (row_after b) (db_exchanges d)) = sel"
    and "sort_key row_key sel = R"
  shows "List_rows d b limit = (map row_exchange (take (nat limit) R), int (length R) > limit)"
proof -
  have "(min (length R) (nat (limit + 1)) > nat limit) = (length R > nat limit)"
    using assms(1) by linarith
  then show ?thesis
    using assms by (auto simp: List_rows_def Let_def sql_limit_def row_exchange_def take_map min_def)
qed

lemma pages_suffix:
  assumes "db_inv d" and "1 \<le> limit" and "stored_order d = A @ R"
    and "A = [] \<and> b = None \<or> A \<noteq> [] \<and> b = Some (boundary_of (row_exchange (last A)))"
    and "length R < n"
  shows "concat (pages n d limit b) = map row_exchange R \<and> (\<forall>p \<in> set (pages n d limit b). int (length p) \<le> limit)"
  using assms(3-5)
proof (induction n arbitrary: A R b)
  case (Suc n)
  have "sort_key row_key (case b of None \<Rightarrow> db_exchanges d | Some b \<Rightarrow> filter (row_after b) (db_exchanges d)) = R"
  proof (cases b)
    case None
    with Suc.prems show ?thesis by (auto simp: stored_order_def)
  next
    case (Some bb)
    with Suc.prems have "A \<noteq> []" and bb: "bb = boundary_of (row_exchange (last A))" by auto
    then have "stored_order d = butlast A @ last A # R" using Suc.prems by simp
    from selected_suffix [OF assms(1) this] Some bb show ?thesis by simp
  qed
  then have page: "List_rows d b limit = (map row_exchange (take (nat limit) R), int (length R) > limit)"
    by (rule List_rows_suffix [OF assms(2) refl])
  show ?case
  proof (cases "int (length R) > limit")
    case False
    with page show ?thesis by simp
  next
    case True
    let ?T = "take (nat limit) R"
    have T: "?T \<noteq> []" using True assms(2) by auto
    have "concat (pages n d limit (Some (boundary_of (row_exchange (last ?T))))) = map row_exchange (drop (nat limit) R)
      \<and> (\<forall>p \<in> set (pages n d limit (Some (boundary_of (row_exchange (last ?T))))). int (length p) \<le> limit)"
    proof (rule Suc.IH [of "A @ ?T"])
      show "stored_order d = (A @ ?T) @ drop (nat limit) R" using Suc.prems by simp
      show "length (drop (nat limit) R) < n" using Suc.prems True assms(2) by simp
    qed (use T in simp)
    then show ?thesis using page True T assms(2)
      by (auto simp: last_map simp flip: map_append)
  qed
qed simp

section \<open>Cleanup\<close>

definition expired :: "database \<Rightarrow> int \<Rightarrow> row list" where
  "expired d cutoff = filter (\<lambda>r. row_completed_ns r < cutoff) (db_exchanges d)"

definition purged :: "database \<Rightarrow> int \<Rightarrow> database" where
  "purged d cutoff = \<lparr>db_exchanges = filter (\<lambda>r. \<not> row_completed_ns r < cutoff) (db_exchanges d),
     db_datagrams = filter (\<lambda>(i, _). i \<notin> row_id ` set (expired d cutoff)) (db_datagrams d)\<rparr>"

lemma id_member:
  assumes "db_inv d" and "set sel \<subseteq> set (db_exchanges d)" and "r \<in> set (db_exchanges d)"
  shows "row_id r \<in> row_id ` set sel \<longleftrightarrow> r \<in> set sel"
proof -
  have "inj_on row_id (set (db_exchanges d))" using assms(1) by (simp add: db_inv_def distinct_map)
  with assms(2,3) show ?thesis by (auto simp: inj_on_def)
qed

lemma delete_selected:
  assumes "db_inv d" and "set sel \<subseteq> set (db_exchanges d)"
  shows "delete_ids d (map row_id sel) = \<lparr>db_exchanges = filter (\<lambda>r. r \<notin> set sel) (db_exchanges d),
     db_datagrams = filter (\<lambda>(i, _). i \<notin> row_id ` set sel) (db_datagrams d)\<rparr>"
proof -
  have "filter (\<lambda>r. row_id r \<notin> row_id ` set sel) (db_exchanges d) = filter (\<lambda>r. r \<notin> set sel) (db_exchanges d)"
    by (rule filter_cong) (simp_all add: id_member [OF assms])
  moreover have "i \<in> row_id ` set sel \<Longrightarrow> i \<in> row_id ` set (db_exchanges d)" for i
    using assms(2) by blast
  then have "filter (\<lambda>(i, _). \<not> (i \<in> row_id ` set sel \<and> i \<in> row_id ` set (db_exchanges d))) (db_datagrams d)
      = filter (\<lambda>(i, _). i \<notin> row_id ` set sel) (db_datagrams d)"
    by (intro filter_cong) auto
  ultimately show ?thesis by (simp add: delete_ids_def)
qed

lemma cleanup_batch_props:
  assumes "db_inv d" and "1 \<le> per_batch" and "cleanup_batch d cutoff per_batch = (d1, cnt)"
  obtains sel where "set sel \<subseteq> set (expired d cutoff)" and "cnt = int (length sel)"
    and "length sel = min (nat per_batch) (length (expired d cutoff))"
    and "d1 = delete_ids d (map row_id sel)" and "db_inv d1"
    and "length (expired d1 cutoff) = length (expired d cutoff) - length sel"
proof -
  let ?X = "expired d cutoff" and ?s = "slice_stable older_row (expired d cutoff)"
  define sel where "sel = take (nat per_batch) ?s"
  have sub: "set sel \<subseteq> set ?X" unfolding sel_def using set_take_subset [of _ ?s] by auto
  have d1: "d1 = delete_ids d (map row_id sel)" and cnt: "cnt = int (length sel)"
    using assms(2,3)
    by (auto simp: cleanup_batch_def sql_limit_def sel_def expired_def Let_def take_map)
  have dr: "distinct (db_exchanges d)" using assms(1) by (simp add: db_inv_def distinct_map)
  then have dX: "distinct ?X" by (simp add: expired_def)
  then have ds: "distinct sel" by (simp add: sel_def)
  have subr: "set sel \<subseteq> set (db_exchanges d)" using sub by (auto simp: expired_def)
  have e1: "expired d1 cutoff = filter (\<lambda>r. r \<notin> set sel) ?X"
    by (simp add: d1 delete_selected [OF assms(1) subr] expired_def conj_commute)
  have "card (set (filter (\<lambda>r. r \<notin> set sel) ?X)) = card (set ?X - set sel)"
    by (rule arg_cong [of _ _ card]) auto
  also have "\<dots> = length ?X - length sel"
    using sub by (simp add: card_Diff_subset distinct_card dX ds)
  finally have "length (expired d1 cutoff) = length ?X - length sel"
    using dX by (simp only: e1) (simp add: distinct_card [symmetric])
  then show ?thesis
    using that [of sel] sub d1 cnt db_inv_delete [OF assms(1)]
    by (simp add: sel_def min.commute)
qed

lemma cleanup_loop_result:
  assumes "db_inv d" and "1 \<le> per_batch" and "length (expired d cutoff) < n"
  shows "cleanup_loop n d cutoff per_batch k = Some (purged d cutoff, k + count_expired d cutoff)"
  using assms(1,3)
proof (induction n arbitrary: d k)
  case (Suc n)
  obtain d1 cnt where b: "cleanup_batch d cutoff per_batch = (d1, cnt)" by fastforce
  from cleanup_batch_props [OF Suc.prems(1) assms(2) b] obtain sel where
      sub: "set sel \<subseteq> set (expired d cutoff)" and cnt: "cnt = int (length sel)"
    and len: "length sel = min (nat per_batch) (length (expired d cutoff))"
    and d1: "d1 = delete_ids d (map row_id sel)" and i1: "db_inv d1"
    and rest: "length (expired d1 cutoff) = length (expired d cutoff) - length sel" by blast
  have subr: "set sel \<subseteq> set (db_exchanges d)" using sub by (auto simp: expired_def)
  have split: "set (expired d cutoff) = set sel \<union> set (expired d1 cutoff)"
    using sub by (auto simp: d1 delete_selected [OF Suc.prems(1) subr] expired_def)
  have same: "purged d1 cutoff = purged d cutoff"
  proof -
    have "filter (\<lambda>r. \<not> row_completed_ns r < cutoff) (filter (\<lambda>r. r \<notin> set sel) (db_exchanges d))
        = filter (\<lambda>r. \<not> row_completed_ns r < cutoff) (db_exchanges d)"
      using sub by (auto simp: expired_def intro!: filter_cong)
    then show ?thesis
      unfolding purged_def split
      by (auto simp: d1 delete_selected [OF Suc.prems(1) subr] intro!: filter_cong)
  qed
  show ?case
  proof (cases "cnt < per_batch")
    case True
    then have all: "length sel = length (expired d cutoff)" using cnt len by auto
    then have none: "expired d1 cutoff = []" using rest by simp
    then have "purged d1 cutoff = d1"
      by (auto simp: purged_def expired_def filter_empty_conv filter_id_conv intro!: database.equality)
    with True b cnt all same show ?thesis by (simp add: count_expired_def expired_def)
  next
    case False
    then have "length (expired d1 cutoff) < n"
      using rest len cnt assms(2) Suc.prems(2) by auto
    from Suc.IH [OF i1 this, of "k + cnt"] False b same rest len cnt show ?thesis
      by (auto simp: count_expired_def expired_def)
  qed
qed simp

section \<open>Properties\<close>



text \<open>
  A persisted datagram is stored outside the exchange row and its payload is what \<open>Body\<close>
  returns; when the exchange is later deleted, its datagram goes with it.
\<close>

theorem datagram_persistence:
  assumes "ex_transport e = TransportUDP" and "ex_datagram e = Some g"
  shows "Body (persist d e) (ex_id e) False = Inr (Some (dg_payload g))
    \<and> (\<exists>r. find_row (persist d e) (ex_id e) = Some r \<and> row_request_body r = [])
    \<and> Delete (persist d e) (ex_id e) = (delete_ids (persist d e) [ex_id e], True)
    \<and> map_of (db_datagrams (fst (Delete (persist d e) (ex_id e)))) (ex_id e) = None
    \<and> Body (fst (Delete (persist d e) (ex_id e))) (ex_id e) False = Inr None"
proof -
  let ?d = "persist d e" and ?i = "ex_id e"
  have mem: "?i \<in> row_id ` set (db_exchanges ?d)"
    by (simp add: persist_exchanges ids_upsert)
  then have "filter (\<lambda>r. row_id r = ?i) (db_exchanges ?d) \<noteq> []"
    by (auto simp: filter_empty_conv)
  then have del: "Delete ?d ?i = (delete_ids ?d [?i], True)"
    by (simp add: Delete_def)
  have "find_row (delete_ids ?d [?i]) ?i = None"
    by (simp add: find_row_def find_None_iff delete_ids_def)
  then have "Body (delete_ids ?d [?i]) ?i False = Inr None"
    by (simp add: Body_def)
  moreover have "map_of (db_datagrams (delete_ids ?d [?i])) ?i = None"
    using mem by (auto simp: map_of_eq_None_iff delete_ids_def)
  ultimately show ?thesis
    using del assms by (simp add: Body_persist_udp find_row_persist)
qed

definition sample_datagram :: exchange where
  "sample_datagram = (sample_exchange ''u'' StateCompleted 1 2)\<lparr>ex_transport := TransportUDP,
     ex_datagram := Some \<lparr>dg_source = [], dg_local = [], dg_accepted = 2, dg_payload = ''hi'',
       dg_complete = True, dg_preview = ''hi'', dg_preview_truncated = False, dg_discard_reason = [],
       dg_delivery = \<lparr>de_result = [], de_sent = 0, de_message = [], de_truncated = False\<rparr>\<rparr>\<rparr>"

theorem datagram_persistence_witness:
  "Body (persist Open_database sample_datagram) ''u'' False = Inr (Some ''hi'')
   \<and> Body (fst (Delete (persist Open_database sample_datagram) ''u'')) ''u'' False = Inr None"
proof -
  have s: "ex_id sample_datagram = ''u''" "ex_transport sample_datagram = TransportUDP"
    "map_option dg_payload (ex_datagram sample_datagram) = Some ''hi''"
    by (simp_all add: sample_datagram_def)
  then obtain g where g: "ex_datagram sample_datagram = Some g" "dg_payload g = ''hi''" by auto
  from datagram_persistence [OF s(2) g(1), of Open_database] show ?thesis
    unfolding s(1) g(2) by blast
qed

text \<open>
  C16. Paging is exact: a client that asks \<open>List\<close> for pages of at most \<open>limit\<close> items and continues
  from the last item of each page while there are more receives every stored exchange exactly
  once, newest first, and then stops.
\<close>

theorem list_pages_complete:
  assumes "db_inv d" and "1 \<le> limit" and "length (db_exchanges d) < n"
  shows "concat (pages n d limit None) = map row_exchange (sort_key row_key (db_exchanges d))
    \<and> sorted_wrt (<) (map row_key (sort_key row_key (db_exchanges d)))
    \<and> (\<forall>p \<in> set (pages n d limit None). int (length p) \<le> limit)"
  using pages_suffix [OF assms(1,2), of "[]" "stored_order d" None n] stored_order_strict [OF assms(1)] assms(3)
  by (simp add: stored_order_def)

definition sample_database :: database where
  "sample_database = foldl persist Open_database
     [sample_exchange ''a'' StateCompleted 1 5, sample_exchange ''b'' StateCompleted 2 9, sample_exchange ''c'' StateFailed 3 9]"

lemma sample_database_inv: "db_inv sample_database"
  by (simp add: sample_database_def db_inv_persist db_inv_open)

lemma sample_database_ids: "map row_id (db_exchanges sample_database) = [''a'', ''b'', ''c'']"
  by (simp add: sample_database_def persist_exchanges Open_database_def)

theorem list_pages_complete_witness:
  "concat (pages 4 sample_database 2 None) = map row_exchange (sort_key row_key (db_exchanges sample_database))
   \<and> length (db_exchanges sample_database) = 3"
proof -
  have len: "length (db_exchanges sample_database) = 3"
    using arg_cong [OF sample_database_ids, of length] by simp
  with list_pages_complete [OF sample_database_inv, of 2 4] show ?thesis by simp
qed

end
