(* ===== verification/Writer_Queue.thy ===== *)
theory Writer_Queue
  imports Reservation_Interface Sqlite_Rows
begin

text \<open>
  The admission side of the SQLite writer in \<open>internal/sqlite/repository.go\<close>: reservations of
  count and bytes taken before a request is processed, the bounded channel \<open>writes\<close> from the
  requests to the writer goroutine, the batches the writer collects and writes in one transaction,
  the maintenance flag and the drain at shutdown.

  Reservation objects live in a heap indexed by their pointer. The outcome of a transaction is an
  input of the step that writes the batch (\<open>None\<close> for success, else the error's text), and
  \<open>wq_reports\<close> are the calls of \<open>OnWrite\<close> in their order. Each step is one critical section, one
  channel operation of the code, or the writing of one batch.
\<close>

record options =
  op_queue_count :: int
  op_queue_bytes :: int
  op_batch_size :: int
  op_flush_interval :: int
  op_busy_timeout :: int
  op_cleanup_batch :: int
  op_compact_pages :: int
  op_retention_days :: int

definition applyDefaults :: "options \<Rightarrow> options" where
  "applyDefaults p = p\<lparr>
     op_queue_count := (if op_queue_count p \<le> 0 then 256 else op_queue_count p),
     op_queue_bytes := (if op_queue_bytes p \<le> 0 then 536870912 else op_queue_bytes p),
     op_batch_size := (if op_batch_size p \<le> 0 then 50 else op_batch_size p),
     op_flush_interval := (if op_flush_interval p \<le> 0 then 25000000 else op_flush_interval p),
     op_busy_timeout := (if op_busy_timeout p \<le> 0 then 5 * second_ns else op_busy_timeout p),
     op_cleanup_batch := (if op_cleanup_batch p \<le> 0 then 500 else op_cleanup_batch p),
     op_compact_pages := (if op_compact_pages p \<le> 0 then 256 else op_compact_pages p)\<rparr>"

record reservation =
  rv_bytes :: int
  rv_done :: bool

record write_item =
  wi_exchange :: exchange
  wi_bytes :: int

record writer =
  wq_options :: options
  wq_accepting :: bool
  wq_maintenance :: string
  wq_reserved_count :: int
  wq_reserved_bytes :: int
  wq_writes :: "write_item list"
  wq_batch :: "write_item list"
  wq_heap :: "nat \<Rightarrow> reservation"
  wq_fresh :: nat
  wq_write_count :: u64
  wq_write_failures :: u64
  wq_busy_failures :: u64
  wq_last_error :: string
  wq_stopped :: bool
  wq_database :: database
  wq_reports :: "(string \<times> string option) list"

definition Open_writer :: "options \<Rightarrow> writer" where
  "Open_writer p = \<lparr>wq_options = applyDefaults p, wq_accepting = True, wq_maintenance = [],
     wq_reserved_count = 0, wq_reserved_bytes = 0, wq_writes = [], wq_batch = [],
     wq_heap = (\<lambda>_. \<lparr>rv_bytes = 0, rv_done = True\<rparr>), wq_fresh = 0,
     wq_write_count = 0, wq_write_failures = 0, wq_busy_failures = 0, wq_last_error = [],
     wq_stopped = False, wq_database = Open_database, wq_reports = []\<rparr>"

definition Reserve :: "writer \<Rightarrow> int \<Rightarrow> writer \<times> nat option" where
  "Reserve w bytes0 =
     (let bytes = (if bytes0 < 0 then 0 else bytes0)
      in if \<not> wq_accepting w \<or> wq_maintenance w = ''vacuum''
            \<or> wq_reserved_count w \<ge> op_queue_count (wq_options w)
            \<or> wrap_i64 (wq_reserved_bytes w + bytes) > op_queue_bytes (wq_options w)
         then (w, None)
         else (w\<lparr>wq_reserved_count := wq_reserved_count w + 1,
                 wq_reserved_bytes := wrap_i64 (wq_reserved_bytes w + bytes),
                 wq_heap := (wq_heap w)(wq_fresh w := \<lparr>rv_bytes = bytes, rv_done = False\<rparr>),
                 wq_fresh := wq_fresh w + 1\<rparr>,
               Some (wq_fresh w)))"

definition release :: "writer \<Rightarrow> int \<Rightarrow> writer" where
  "release w bytes =
     (let c = wq_reserved_count w - 1; b = wrap_i64 (wq_reserved_bytes w - bytes)
      in w\<lparr>wq_reserved_count := (if c < 0 then 0 else c), wq_reserved_bytes := (if b < 0 then 0 else b)\<rparr>)"

definition mark_done :: "writer \<Rightarrow> nat \<Rightarrow> writer" where
  "mark_done w r = w\<lparr>wq_heap := (wq_heap w)(r := (wq_heap w r)\<lparr>rv_done := True\<rparr>)\<rparr>"

definition Commit :: "writer \<Rightarrow> nat \<Rightarrow> exchange \<Rightarrow> writer \<times> go_error option" where
  "Commit w r e =
     (if rv_done (wq_heap w r) then (w, None)
      else
        let w1 = mark_done w r; bytes = rv_bytes (wq_heap w r)
        in if int (length (wq_writes w1)) < op_queue_count (wq_options w1)
           then (w1\<lparr>wq_writes := wq_writes w1 @ [\<lparr>wi_exchange = clone_exchange e, wi_bytes = bytes\<rparr>]\<rparr>, None)
           else (release w1 bytes, Some QueueFull))"

definition Cancel :: "writer \<Rightarrow> nat \<Rightarrow> writer" where
  "Cancel w r = (if rv_done (wq_heap w r) then w
     else release (mark_done w r) (rv_bytes (wq_heap w r)))"

text \<open>
  One receive of \<open>runWriter\<close> (the first item) or of \<open>collectBatch\<close> (the next ones); a batch may be
  written before it is full, when the flush timer fires or the repository is closing.
\<close>

definition collect :: "writer \<Rightarrow> writer" where
  "collect w = (if wq_stopped w then w else case wq_writes w of
     [] \<Rightarrow> w
   | x # xs \<Rightarrow> if wq_batch w = [] \<or> int (length (wq_batch w)) < op_batch_size (wq_options w)
       then w\<lparr>wq_writes := xs, wq_batch := wq_batch w @ [x]\<rparr> else w)"

definition isBusy :: "string \<Rightarrow> bool" where
  "isBusy msg \<longleftrightarrow> contains_str ''database is locked'' msg \<or> contains_str ''database is busy'' msg"

definition report_item :: "string option \<Rightarrow> writer \<Rightarrow> write_item \<Rightarrow> writer" where
  "report_item outcome w i =
     (release w (wi_bytes i))\<lparr>wq_reports := wq_reports w @ [(ex_id (wi_exchange i), outcome)]\<rparr>"

text \<open>\<open>writeBatch\<close>: the transaction, the counters, then one release and one \<open>OnWrite\<close> per item.\<close>

definition writeBatch :: "writer \<Rightarrow> string option \<Rightarrow> writer" where
  "writeBatch w outcome =
     (let n = of_nat (length (wq_batch w));
          w0 = w\<lparr>wq_database := write_transaction (wq_database w) (map wi_exchange (wq_batch w)) outcome\<rparr>;
          w1 = (case outcome of
              None \<Rightarrow> w0\<lparr>wq_write_count := wq_write_count w0 + n\<rparr>
            | Some msg \<Rightarrow> w0\<lparr>wq_write_failures := wq_write_failures w0 + n,
                wq_busy_failures := (if isBusy msg then wq_busy_failures w0 + n else wq_busy_failures w0),
                wq_last_error := msg\<rparr>)
      in (foldl (report_item outcome) w1 (wq_batch w1))\<lparr>wq_batch := []\<rparr>)"

definition beginMaintenance :: "writer \<Rightarrow> string \<Rightarrow> writer \<times> bool" where
  "beginMaintenance w name =
     (if wq_maintenance w \<noteq> [] then (w, False) else (w\<lparr>wq_maintenance := name\<rparr>, True))"

definition endMaintenance :: "writer \<Rightarrow> writer" where
  "endMaintenance w = w\<lparr>wq_maintenance := []\<rparr>"

text \<open>\<open>finishClose\<close>: refuse reservations, then wait for \<open>reservedCount\<close> to reach zero.\<close>

definition stop_accepting :: "writer \<Rightarrow> writer" where
  "stop_accepting w = w\<lparr>wq_accepting := False\<rparr>"

text \<open>\<open>close(stop)\<close> once the wait has ended, upon which \<open>runWriter\<close> returns.\<close>

definition finish_writer :: "writer \<Rightarrow> writer" where
  "finish_writer w = (if \<not> wq_accepting w \<and> wq_reserved_count w = 0 then w\<lparr>wq_stopped := True\<rparr> else w)"

datatype wq_op =
    WReserve int | WCommit nat exchange | WCancel nat | WCollect | WWrite "string option"
  | WBegin string | WEnd | WStop | WFinish

fun wq_apply :: "writer \<Rightarrow> wq_op \<Rightarrow> writer" where
  "wq_apply w (WReserve n) = fst (Reserve w n)"
| "wq_apply w (WCommit r e) = fst (Commit w r e)"
| "wq_apply w (WCancel r) = Cancel w r"
| "wq_apply w WCollect = collect w"
| "wq_apply w (WWrite outcome) = writeBatch w outcome"
| "wq_apply w (WBegin name) = fst (beginMaintenance w name)"
| "wq_apply w WEnd = endMaintenance w"
| "wq_apply w WStop = stop_accepting w"
| "wq_apply w WFinish = finish_writer w"

text \<open>
  \<open>Cleanup\<close>: the cutoff, the maintenance flag, then batches of deletions until one is not full
  (\<open>None\<close> when the fuel runs out); the result is the cutoff and the number of deletions.
\<close>

definition Cleanup :: "nat \<Rightarrow> writer \<Rightarrow> gotime \<Rightarrow> int \<Rightarrow> (writer \<times> (go_error + gotime \<times> int)) option" where
  "Cleanup fuel w now keep_days =
     (if keep_days < 0 then Some (w, Inl (Plain ''keep_days must not be negative''))
      else
        let cutoff = cleanup_cutoff now keep_days;
            (w1, free) = beginMaintenance w ''cleanup''
        in if \<not> free then Some (w1, Inl (Plain ''sqlite maintenance is already running''))
           else case cleanup_loop fuel (wq_database w1) (unix_nano cutoff) (op_cleanup_batch (wq_options w1)) 0 of
               None \<Rightarrow> None
             | Some (d, deleted) \<Rightarrow> Some (endMaintenance (w1\<lparr>wq_database := d\<rparr>), Inr (cutoff, deleted)))"

section \<open>Accounting\<close>

definition open_set :: "writer \<Rightarrow> nat set" where
  "open_set w = {r. r < wq_fresh w \<and> \<not> rv_done (wq_heap w r)}"

text \<open>Every reserved slot is an open reservation, an item in the channel, or one in the batch.\<close>

definition count_inv :: "writer \<Rightarrow> bool" where
  "count_inv w \<longleftrightarrow>
     wq_reserved_count w = int (card (open_set w)) + int (length (wq_writes w)) + int (length (wq_batch w))
   \<and> wq_reserved_count w \<le> op_queue_count (wq_options w)
   \<and> (\<forall>r. wq_fresh w \<le> r \<longrightarrow> rv_done (wq_heap w r))"

definition item_bytes :: "write_item list \<Rightarrow> int" where
  "item_bytes xs = sum_list (map wi_bytes xs)"

definition bytes_inv :: "writer \<Rightarrow> bool" where
  "bytes_inv w \<longleftrightarrow>
     wq_reserved_bytes w = (\<Sum>r \<in> open_set w. rv_bytes (wq_heap w r)) + item_bytes (wq_writes w) + item_bytes (wq_batch w)
   \<and> wq_reserved_bytes w \<le> op_queue_bytes (wq_options w)
   \<and> (\<forall>r \<in> open_set w. 0 \<le> rv_bytes (wq_heap w r))
   \<and> (\<forall>i \<in> set (wq_writes w) \<union> set (wq_batch w). 0 \<le> wi_bytes i)
   \<and> op_queue_bytes (wq_options w) \<le> max_i64"

lemma finite_open_set [simp]: "finite (open_set w)"
  by (simp add: open_set_def)

lemma open_set_mark_done: "open_set (mark_done w r) = open_set w - {r}"
  by (auto simp: open_set_def mark_done_def)

lemma open_set_release [simp]: "open_set (release w n) = open_set w"
  by (simp add: open_set_def release_def Let_def)

lemma release_sel [simp]:
  "wq_writes (release w n) = wq_writes w" "wq_batch (release w n) = wq_batch w"
  "wq_heap (release w n) = wq_heap w" "wq_fresh (release w n) = wq_fresh w"
  "wq_options (release w n) = wq_options w"
  "wq_maintenance (release w n) = wq_maintenance w" "wq_accepting (release w n) = wq_accepting w"
  "wq_reports (release w n) = wq_reports w" "wq_database (release w n) = wq_database w"
  "wq_stopped (release w n) = wq_stopped w"
  by (simp_all add: release_def Let_def)

lemma mark_done_sel [simp]:
  "wq_writes (mark_done w n) = wq_writes w" "wq_batch (mark_done w n) = wq_batch w"
  "wq_fresh (mark_done w n) = wq_fresh w" "wq_options (mark_done w n) = wq_options w"
  "wq_reserved_count (mark_done w n) = wq_reserved_count w"
  "wq_reserved_bytes (mark_done w n) = wq_reserved_bytes w"
  "wq_maintenance (mark_done w n) = wq_maintenance w" "wq_accepting (mark_done w n) = wq_accepting w"
  "wq_reports (mark_done w n) = wq_reports w" "wq_database (mark_done w n) = wq_database w"
  "wq_stopped (mark_done w n) = wq_stopped w"
  by (simp_all add: mark_done_def)

lemma count_inv_open: "count_inv (Open_writer p)"
  by (simp add: count_inv_def Open_writer_def open_set_def applyDefaults_def)

lemma count_inv_reserve [relay_inv]:
  assumes "count_inv w"
  shows "count_inv (fst (Reserve w n))"
proof (cases "snd (Reserve w n)")
  case None
  then have "fst (Reserve w n) = w" by (auto simp: Reserve_def Let_def split: if_splits)
  with assms show ?thesis by simp
next
  case (Some r)
  let ?w = "fst (Reserve w n)"
  have r: "r = wq_fresh w" and lt: "wq_reserved_count w < op_queue_count (wq_options w)"
    using Some by (auto simp: Reserve_def Let_def split: if_splits)
  have "open_set ?w = insert (wq_fresh w) (open_set w)" "wq_fresh w \<notin> open_set w"
    using Some by (auto simp: Reserve_def Let_def open_set_def less_Suc_eq split: if_splits)
  then show ?thesis
    using assms Some lt by (auto simp: count_inv_def Reserve_def Let_def split: if_splits)
qed

lemma open_card_pos: "r \<in> open_set w \<Longrightarrow> 1 \<le> card (open_set w)"
  by (metis One_nat_def Suc_leI card_gt_0_iff empty_iff finite_open_set)

lemma open_iff: "count_inv w \<Longrightarrow> r \<in> open_set w \<longleftrightarrow> \<not> rv_done (wq_heap w r)"
  by (auto simp: count_inv_def open_set_def) (meson not_le)

lemma count_inv_finish:
  assumes "count_inv w" and "r \<in> open_set w"
  shows "int (length (wq_writes w)) < op_queue_count (wq_options w)"
    and "int (card (open_set w - {r})) = int (card (open_set w)) - 1"
  using assms open_card_pos [OF assms(2)] by (auto simp: count_inv_def card_Diff_singleton of_nat_diff)

lemma release_count: "1 \<le> wq_reserved_count w \<Longrightarrow> wq_reserved_count (release w n) = wq_reserved_count w - 1"
  by (simp add: release_def Let_def)

lemma Commit_cases:
  assumes "count_inv w"
  shows "Commit w r e =
    (if r \<in> open_set w
     then ((mark_done w r)\<lparr>wq_writes := wq_writes w @ [\<lparr>wi_exchange = e, wi_bytes = rv_bytes (wq_heap w r)\<rparr>]\<rparr>, None)
     else (w, None))"
  using count_inv_finish(1) [OF assms, of r] open_iff [OF assms, of r]
  by (simp add: Commit_def Let_def)

lemma Cancel_cases:
  assumes "count_inv w"
  shows "Cancel w r = (if r \<in> open_set w then release (mark_done w r) (rv_bytes (wq_heap w r)) else w)"
  using open_iff [OF assms, of r] by (simp add: Cancel_def)

lemma mark_done_heap: "rv_done (wq_heap (mark_done w r) i) \<longleftrightarrow> i = r \<or> rv_done (wq_heap w i)"
  by (simp add: mark_done_def)

lemma open_set_writes [simp]: "open_set (w\<lparr>wq_writes := x\<rparr>) = open_set w"
  by (simp add: open_set_def)

lemma count_inv_commit [relay_inv]:
  assumes "count_inv w"
  shows "count_inv (fst (Commit w r e))"
proof (cases "r \<in> open_set w")
  case True
  from count_inv_finish [OF assms True] assms True show ?thesis
    by (simp add: Commit_cases [OF assms] count_inv_def open_set_mark_done mark_done_heap)
qed (simp add: Commit_cases [OF assms] assms)

lemma count_inv_cancel [relay_inv]:
  assumes "count_inv w"
  shows "count_inv (Cancel w r)"
proof (cases "r \<in> open_set w")
  case True
  have "1 \<le> wq_reserved_count (mark_done w r)"
    using assms open_card_pos [OF True] by (simp add: count_inv_def)
  from release_count [OF this] count_inv_finish [OF assms True] assms True show ?thesis
    by (simp add: Cancel_cases [OF assms] count_inv_def open_set_mark_done mark_done_heap)
qed (simp add: Cancel_cases [OF assms] assms)

text \<open>The reservations of the model discharge the contract of the capture pipeline.\<close>

interpretation wq: persistence_reservations count_inv open_set Reserve Commit Cancel
proof
  fix w n r e
  assume inv: "count_inv w"
  show "count_inv (fst (Reserve w n))" "count_inv (fst (Commit w r e))" "count_inv (Cancel w r)"
    using inv by (rule count_inv_reserve, rule count_inv_commit, rule count_inv_cancel)
  show "snd (Reserve w n) = None \<Longrightarrow> fst (Reserve w n) = w"
    by (auto simp: Reserve_def Let_def split: if_splits)
  show "snd (Reserve w n) = Some r \<Longrightarrow> r \<notin> open_set w \<and> open_set (fst (Reserve w n)) = insert r (open_set w)"
    by (auto simp: Reserve_def Let_def open_set_def less_Suc_eq split: if_splits)
  show "r \<in> open_set w \<Longrightarrow> snd (Commit w r e) = None \<and> open_set (fst (Commit w r e)) = open_set w - {r}"
    by (simp add: Commit_cases [OF inv] open_set_mark_done)
  show "r \<notin> open_set w \<Longrightarrow> Commit w r e = (w, None)"
    by (simp add: Commit_cases [OF inv])
  show "r \<in> open_set w \<Longrightarrow> open_set (Cancel w r) = open_set w - {r}"
    by (simp add: Cancel_cases [OF inv] open_set_mark_done)
  show "r \<notin> open_set w \<Longrightarrow> Cancel w r = w"
    by (simp add: Cancel_cases [OF inv])
qed

section \<open>Batches\<close>

lemma report_items_sel [simp]:
  "wq_writes (foldl (report_item x) w is) = wq_writes w"
  "wq_batch (foldl (report_item x) w is) = wq_batch w"
  "wq_options (foldl (report_item x) w is) = wq_options w"
  "wq_accepting (foldl (report_item x) w is) = wq_accepting w"
  "wq_stopped (foldl (report_item x) w is) = wq_stopped w"
  "wq_database (foldl (report_item x) w is) = wq_database w"
  "wq_heap (foldl (report_item x) w is) = wq_heap w"
  "wq_fresh (foldl (report_item x) w is) = wq_fresh w"
  "wq_reports (foldl (report_item x) w is) = wq_reports w @ map (\<lambda>i. (ex_id (wi_exchange i), x)) is"
  by (induction "is" arbitrary: w) (simp_all add: report_item_def)

lemma report_items_count:
  "int (length is) \<le> wq_reserved_count w \<Longrightarrow>
    wq_reserved_count (foldl (report_item x) w is) = wq_reserved_count w - int (length is)"
  by (induction "is" arbitrary: w) (simp_all add: report_item_def release_count)

lemma open_set_cong: "wq_heap w = wq_heap v \<Longrightarrow> wq_fresh w = wq_fresh v \<Longrightarrow> open_set w = open_set v"
  by (simp add: open_set_def)

lemma writeBatch_sel:
  "wq_writes (writeBatch w x) = wq_writes w" "wq_batch (writeBatch w x) = []"
  "wq_options (writeBatch w x) = wq_options w" "wq_accepting (writeBatch w x) = wq_accepting w"
  "wq_stopped (writeBatch w x) = wq_stopped w"
  "wq_heap (writeBatch w x) = wq_heap w" "wq_fresh (writeBatch w x) = wq_fresh w"
  "wq_database (writeBatch w x) = write_transaction (wq_database w) (map wi_exchange (wq_batch w)) x"
  "wq_reports (writeBatch w x) = wq_reports w @ map (\<lambda>i. (ex_id (wi_exchange i), x)) (wq_batch w)"
  by (simp_all add: writeBatch_def Let_def split: option.splits)

lemma writeBatch_count:
  "int (length (wq_batch w)) \<le> wq_reserved_count w \<Longrightarrow>
    wq_reserved_count (writeBatch w x) = wq_reserved_count w - int (length (wq_batch w))"
  by (simp add: writeBatch_def Let_def report_items_count split: option.splits)

lemma count_inv_write [relay_inv]:
  assumes "count_inv w"
  shows "count_inv (writeBatch w x)"
proof -
  have "open_set (writeBatch w x) = open_set w" by (rule open_set_cong) (simp_all add: writeBatch_sel)
  moreover have "wq_reserved_count (writeBatch w x) = wq_reserved_count w - int (length (wq_batch w))"
    using assms by (intro writeBatch_count) (simp add: count_inv_def)
  ultimately show ?thesis using assms by (simp add: count_inv_def writeBatch_sel)
qed

lemma count_inv_collect [relay_inv]: "count_inv w \<Longrightarrow> count_inv (collect w)"
  by (auto simp: collect_def count_inv_def open_set_def split: list.splits)

lemma count_inv_apply [relay_inv]: "count_inv w \<Longrightarrow> count_inv (wq_apply w op)"
proof (cases op)
  case (WBegin name)
  assume "count_inv w"
  with WBegin show ?thesis by (simp add: beginMaintenance_def count_inv_def open_set_def)
qed (simp_all add: count_inv_reserve count_inv_commit count_inv_cancel count_inv_collect count_inv_write,
     simp_all add: endMaintenance_def stop_accepting_def finish_writer_def count_inv_def open_set_def)

section \<open>Runs\<close>

text \<open>The exchanges a run of operations puts into the channel, in their order.\<close>

definition accepted_by :: "writer \<Rightarrow> wq_op \<Rightarrow> exchange list" where
  "accepted_by w op = (case op of
     WCommit r e \<Rightarrow> if wq_writes (fst (Commit w r e)) \<noteq> wq_writes w then [e] else []
   | _ \<Rightarrow> [])"

fun wq_run :: "writer \<Rightarrow> wq_op list \<Rightarrow> writer \<times> exchange list" where
  "wq_run w [] = (w, [])"
| "wq_run w (op # ops) = (let (v, acc) = wq_run (wq_apply w op) ops in (v, accepted_by w op @ acc))"

text \<open>The exchanges whose batch committed, in the order of the reports.\<close>

definition stored_writes :: "exchange list \<Rightarrow> (string \<times> string option) list \<Rightarrow> exchange list" where
  "stored_writes es reports = map fst (filter (\<lambda>(_, _, x). x = None) (zip es reports))"

definition flow_inv :: "writer \<Rightarrow> exchange list \<Rightarrow> bool" where
  "flow_inv w acc \<longleftrightarrow> count_inv w \<and>
     (\<exists>past. acc = past @ map wi_exchange (wq_batch w) @ map wi_exchange (wq_writes w)
        \<and> map fst (wq_reports w) = map ex_id past
        \<and> wq_database w = foldl persist Open_database (stored_writes past (wq_reports w)))
   \<and> (wq_stopped w \<longrightarrow> \<not> wq_accepting w \<and> wq_reserved_count w = 0)"

lemma flow_inv_open: "flow_inv (Open_writer p) []"
  unfolding flow_inv_def using count_inv_open by (simp add: Open_writer_def stored_writes_def)

lemma flow_same:
  assumes "flow_inv w acc" and "count_inv v" and "wq_batch v = wq_batch w" and "wq_writes v = wq_writes w"
    and "wq_reports v = wq_reports w" and "wq_database v = wq_database w"
    and "wq_stopped v \<longrightarrow> \<not> wq_accepting v \<and> wq_reserved_count v = 0"
  shows "flow_inv v acc"
  using assms by (simp add: flow_inv_def)

lemma stored_writes_append:
  "length as = length bs \<Longrightarrow> stored_writes (as @ es) (bs @ rs) = stored_writes as bs @ stored_writes es rs"
  by (simp add: stored_writes_def)

lemma stored_writes_batch:
  "stored_writes (map wi_exchange is) (map (\<lambda>i. (ex_id (wi_exchange i), x)) is) =
    (if x = None then map wi_exchange is else [])"
proof (cases x)
  case None
  then show ?thesis by (induction "is") (simp_all add: stored_writes_def)
next
  case (Some m)
  then show ?thesis by (induction "is") (simp_all add: stored_writes_def)
qed

lemma flow_write:
  assumes "flow_inv w acc"
  shows "flow_inv (writeBatch w x) acc"
proof -
  obtain past where p: "acc = past @ map wi_exchange (wq_batch w) @ map wi_exchange (wq_writes w)"
      "map fst (wq_reports w) = map ex_id past"
      "wq_database w = foldl persist Open_database (stored_writes past (wq_reports w))"
    and c: "count_inv w" and st: "wq_stopped w \<longrightarrow> \<not> wq_accepting w \<and> wq_reserved_count w = 0"
    using assms by (auto simp: flow_inv_def)
  have len: "length past = length (wq_reports w)" using arg_cong [OF p(2), of length] by simp
  have n: "int (length (wq_batch w)) \<le> wq_reserved_count w" using c by (simp add: count_inv_def)
  let ?past = "past @ map wi_exchange (wq_batch w)"
  have "wq_database (writeBatch w x) = foldl persist Open_database (stored_writes ?past (wq_reports (writeBatch w x)))"
    by (simp add: writeBatch_sel stored_writes_append len stored_writes_batch p(3) write_transaction_def
        split: option.splits)
  moreover have "wq_stopped w \<longrightarrow> wq_reserved_count (writeBatch w x) = 0"
    using st n by (auto simp: writeBatch_count [OF n])
  ultimately show ?thesis
    unfolding flow_inv_def using p st count_inv_write [OF c]
    by (intro conjI exI [of _ ?past]) (simp_all add: writeBatch_sel)
qed

lemma flow_commit:
  assumes "flow_inv w acc"
  shows "flow_inv (fst (Commit w r e)) (acc @ accepted_by w (WCommit r e))"
proof (cases "r \<in> open_set w")
  case True
  have c: "count_inv w" using assms by (simp add: flow_inv_def)
  have "\<not> wq_stopped w"
    using assms open_card_pos [OF True] by (auto simp: flow_inv_def count_inv_def)
  with assms True count_inv_commit [OF c, of r e] show ?thesis
    by (auto simp: flow_inv_def accepted_by_def Commit_cases [OF c])
next
  case False
  with assms show ?thesis by (auto simp: flow_inv_def accepted_by_def Commit_cases)
qed

lemma flow_collect:
  assumes "flow_inv w acc"
  shows "flow_inv (collect w) acc"
proof -
  have "count_inv (collect w)" using assms by (simp add: flow_inv_def count_inv_collect)
  with assms show ?thesis
    by (auto simp: flow_inv_def collect_def split: list.splits if_splits)
qed

lemma Reserve_sel [simp]:
  "wq_writes (fst (Reserve w n)) = wq_writes w" "wq_batch (fst (Reserve w n)) = wq_batch w"
  "wq_reports (fst (Reserve w n)) = wq_reports w" "wq_database (fst (Reserve w n)) = wq_database w"
  "wq_stopped (fst (Reserve w n)) = wq_stopped w" "wq_accepting (fst (Reserve w n)) = wq_accepting w"
  "wq_options (fst (Reserve w n)) = wq_options w"
  "\<not> wq_accepting w \<Longrightarrow> wq_reserved_count (fst (Reserve w n)) = wq_reserved_count w"
  by (simp_all add: Reserve_def Let_def)

lemma Cancel_sel [simp]:
  "wq_writes (Cancel w r) = wq_writes w" "wq_batch (Cancel w r) = wq_batch w"
  "wq_reports (Cancel w r) = wq_reports w" "wq_database (Cancel w r) = wq_database w"
  "wq_stopped (Cancel w r) = wq_stopped w" "wq_accepting (Cancel w r) = wq_accepting w"
  "wq_options (Cancel w r) = wq_options w"
  by (simp_all add: Cancel_def)

lemma flow_apply: "flow_inv w acc \<Longrightarrow> flow_inv (wq_apply w op) (acc @ accepted_by w op)"
proof (cases op)
  case (WReserve n)
  assume f: "flow_inv w acc"
  with WReserve show ?thesis
    by (auto simp: accepted_by_def flow_inv_def count_inv_reserve)
next
  case (WCancel r)
  assume f: "flow_inv w acc"
  then have c: "count_inv w" by (simp add: flow_inv_def)
  have "wq_stopped w \<longrightarrow> Cancel w r = w"
    using f open_card_pos [of r w] by (auto simp: flow_inv_def count_inv_def Cancel_cases [OF c])
  with f WCancel count_inv_cancel [OF c, of r] show ?thesis
    by (auto simp: accepted_by_def intro!: flow_same [OF f]) (auto simp: flow_inv_def)
next
  case WFinish
  assume f: "flow_inv w acc"
  with WFinish count_inv_apply [of w WFinish] show ?thesis
    by (auto simp: accepted_by_def finish_writer_def flow_inv_def)
next
  case (WCommit r e)
  assume "flow_inv w acc"
  with WCommit show ?thesis by (simp add: flow_commit)
next
  case (WWrite x)
  assume "flow_inv w acc"
  with WWrite show ?thesis by (simp add: flow_write accepted_by_def)
next
  case WCollect
  assume "flow_inv w acc"
  with WCollect show ?thesis by (simp add: flow_collect accepted_by_def)
next
  case (WBegin name)
  assume f: "flow_inv w acc"
  with WBegin count_inv_apply [of w op] show ?thesis
    by (auto simp: accepted_by_def beginMaintenance_def flow_inv_def)
next
  case WEnd
  assume f: "flow_inv w acc"
  with WEnd count_inv_apply [of w op] show ?thesis
    by (auto simp: accepted_by_def endMaintenance_def flow_inv_def)
next
  case WStop
  assume f: "flow_inv w acc"
  with WStop count_inv_apply [of w op] show ?thesis
    by (auto simp: accepted_by_def stop_accepting_def flow_inv_def)
qed

lemma flow_run:
  assumes "flow_inv w acc" and "wq_run w ops = (v, acc2)"
  shows "flow_inv v (acc @ acc2)"
  using assms
proof (induction ops arbitrary: w v acc acc2)
  case (Cons op ops)
  obtain v' acc' where r: "wq_run (wq_apply w op) ops = (v', acc')" by fastforce
  with Cons.prems(2) have "v' = v" "acc2 = accepted_by w op @ acc'" by auto
  with Cons.IH [OF flow_apply [OF Cons.prems(1)] r] show ?case by simp
qed simp

lemma run_count_inv: "wq_run (Open_writer p) ops = (w, acc) \<Longrightarrow> count_inv w"
  using flow_run [OF flow_inv_open] by (auto simp: flow_inv_def)

lemma options_apply [simp]: "wq_options (wq_apply w op) = wq_options w"
  by (cases op) (auto simp: Commit_def Let_def collect_def writeBatch_sel beginMaintenance_def
      endMaintenance_def stop_accepting_def finish_writer_def split: list.splits)

lemma options_run: "wq_run w ops = (v, acc) \<Longrightarrow> wq_options v = wq_options w"
  by (induction ops arbitrary: w acc) (auto split: prod.splits)

section \<open>Bytes\<close>

lemma in_i64_between: "0 \<le> x \<Longrightarrow> x \<le> max_i64 \<Longrightarrow> in_i64 x"
  by (simp add: in_i64_def min_i64_def)

lemma release_bytes:
  assumes "0 \<le> n" and "n \<le> wq_reserved_bytes w" and "wq_reserved_bytes w \<le> max_i64"
  shows "wq_reserved_bytes (release w n) = wq_reserved_bytes w - n"
  using assms in_i64_between [of "wq_reserved_bytes w - n"] by (simp add: release_def Let_def)

lemma item_bytes_simps [simp]:
  "item_bytes [] = 0" "item_bytes (i # is) = wi_bytes i + item_bytes is"
  "item_bytes (is @ js) = item_bytes is + item_bytes js"
  by (simp_all add: item_bytes_def)

lemma item_bytes_nonneg: "(\<And>i. i \<in> set is \<Longrightarrow> 0 \<le> wi_bytes i) \<Longrightarrow> 0 \<le> item_bytes is"
  unfolding item_bytes_def by (rule sum_list_nonneg_map)

lemma mark_done_bytes [simp]: "rv_bytes (wq_heap (mark_done w r) i) = rv_bytes (wq_heap w i)"
  by (simp add: mark_done_def)

abbreviation open_bytes :: "writer \<Rightarrow> int" where
  "open_bytes w \<equiv> (\<Sum>r \<in> open_set w. rv_bytes (wq_heap w r))"

lemma open_bytes_split:
  "r \<in> open_set w \<Longrightarrow> open_bytes w = rv_bytes (wq_heap w r) + open_bytes (mark_done w r)"
  by (simp add: open_set_mark_done sum.remove [OF finite_open_set])

lemma open_bytes_nonneg: "bytes_inv w \<Longrightarrow> 0 \<le> open_bytes w"
  unfolding bytes_inv_def by (simp add: sum_nonneg)

lemma open_bytes_done_nonneg: "bytes_inv w \<Longrightarrow> 0 \<le> open_bytes (mark_done w r)"
  unfolding bytes_inv_def by (intro sum_nonneg) (simp add: open_set_mark_done)

lemma bytes_inv_items:
  "bytes_inv w \<Longrightarrow> 0 \<le> item_bytes (wq_writes w) \<and> 0 \<le> item_bytes (wq_batch w)"
  unfolding bytes_inv_def by (intro conjI item_bytes_nonneg) auto

lemma bytes_inv_open: "op_queue_bytes p \<le> max_i64 \<Longrightarrow> bytes_inv (Open_writer p)"
  by (simp add: bytes_inv_def Open_writer_def open_set_def applyDefaults_def max_i64_def)

lemma bytes_inv_reserve:
  assumes "bytes_inv w" and "n \<le> max_i64 - op_queue_bytes (wq_options w)"
  shows "bytes_inv (fst (Reserve w n))"
proof (cases "snd (Reserve w n)")
  case None
  then have "fst (Reserve w n) = w" by (auto simp: Reserve_def Let_def split: if_splits)
  with assms show ?thesis by simp
next
  case (Some r)
  let ?w = "fst (Reserve w n)" and ?b = "max 0 n"
  have low: "0 \<le> wq_reserved_bytes w" "wq_reserved_bytes w \<le> op_queue_bytes (wq_options w)"
    using assms(1) open_bytes_nonneg [OF assms(1)] bytes_inv_items [OF assms(1)]
    by (simp_all add: bytes_inv_def)
  have sum_in: "wrap_i64 (wq_reserved_bytes w + ?b) = wq_reserved_bytes w + ?b"
    using low assms by (intro wrap_i64_id in_i64_between) (auto simp: bytes_inv_def)
  have w: "?w = w\<lparr>wq_reserved_count := wq_reserved_count w + 1, wq_reserved_bytes := wq_reserved_bytes w + ?b,
      wq_heap := (wq_heap w)(wq_fresh w := \<lparr>rv_bytes = ?b, rv_done = False\<rparr>), wq_fresh := wq_fresh w + 1\<rparr>"
    and fit: "wq_reserved_bytes w + ?b \<le> op_queue_bytes (wq_options w)"
    using Some sum_in by (auto simp: Reserve_def Let_def max_def split: if_splits)
  have "open_set ?w = insert (wq_fresh w) (open_set w)" and fresh: "wq_fresh w \<notin> open_set w"
    unfolding w by (auto simp: open_set_def less_Suc_eq)
  moreover from fresh have "(\<Sum>r \<in> open_set w. rv_bytes (wq_heap ?w r)) = open_bytes w"
    unfolding w by (intro sum.cong) auto
  ultimately show ?thesis
    using assms(1) fit fresh by (auto simp: bytes_inv_def w)
qed

lemma bytes_inv_finish:
  assumes "bytes_inv w" and "r \<in> open_set w"
  shows "0 \<le> rv_bytes (wq_heap w r)" and "rv_bytes (wq_heap w r) \<le> wq_reserved_bytes w"
  using assms open_bytes_split [OF assms(2)] open_bytes_done_nonneg [OF assms(1), of r]
    bytes_inv_items [OF assms(1)]
  by (simp_all add: bytes_inv_def)

lemma bytes_inv_cancel:
  assumes "bytes_inv w" and "count_inv w"
  shows "bytes_inv (Cancel w r)"
proof (cases "r \<in> open_set w")
  case True
  have "wq_reserved_bytes (release (mark_done w r) (rv_bytes (wq_heap w r)))
      = wq_reserved_bytes w - rv_bytes (wq_heap w r)"
    using bytes_inv_finish [OF assms(1) True] assms(1) by (subst release_bytes) (auto simp: bytes_inv_def)
  with open_bytes_split [OF True] bytes_inv_finish [OF assms(1) True] assms(1) True show ?thesis
    by (auto simp: Cancel_cases [OF assms(2)] bytes_inv_def open_set_mark_done)
qed (simp add: Cancel_cases [OF assms(2)] assms)

lemma bytes_inv_commit:
  assumes "bytes_inv w" and "count_inv w"
  shows "bytes_inv (fst (Commit w r e))"
proof (cases "r \<in> open_set w")
  case True
  with open_bytes_split [OF True] bytes_inv_finish [OF assms(1) True] assms(1) show ?thesis
    by (auto simp: Commit_cases [OF assms(2)] bytes_inv_def open_set_mark_done)
qed (simp add: Commit_cases [OF assms(2)] assms)

lemma report_items_bytes:
  "(\<And>i. i \<in> set is \<Longrightarrow> 0 \<le> wi_bytes i) \<Longrightarrow> item_bytes is \<le> wq_reserved_bytes w \<Longrightarrow>
    wq_reserved_bytes w \<le> max_i64 \<Longrightarrow>
    wq_reserved_bytes (foldl (report_item x) w is) = wq_reserved_bytes w - item_bytes is"
proof (induction "is" arbitrary: w)
  case (Cons i "is")
  have i: "0 \<le> wi_bytes i" and r: "0 \<le> item_bytes is"
    using Cons.prems(1) by (auto intro!: item_bytes_nonneg)
  then have "wq_reserved_bytes (report_item x w i) = wq_reserved_bytes w - wi_bytes i"
    using Cons.prems by (simp add: report_item_def release_bytes)
  with Cons.IH [of "report_item x w i"] Cons.prems i show ?case by simp
qed simp

lemma bytes_inv_write:
  assumes "bytes_inv w"
  shows "bytes_inv (writeBatch w x)"
proof -
  have pos: "\<And>i. i \<in> set (wq_batch w) \<Longrightarrow> 0 \<le> wi_bytes i" and le: "wq_reserved_bytes w \<le> max_i64"
    using assms by (auto simp: bytes_inv_def)
  have tot: "item_bytes (wq_batch w) \<le> wq_reserved_bytes w"
    using assms open_bytes_nonneg [OF assms] bytes_inv_items [OF assms] by (simp add: bytes_inv_def)
  have "wq_reserved_bytes (writeBatch w x) = wq_reserved_bytes w - item_bytes (wq_batch w)"
    using report_items_bytes [OF pos] le tot by (simp add: writeBatch_def Let_def split: option.splits)
  moreover have "open_set (writeBatch w x) = open_set w" by (rule open_set_cong) (simp_all add: writeBatch_sel)
  ultimately show ?thesis
    using assms bytes_inv_items [OF assms] by (auto simp: bytes_inv_def writeBatch_sel)
qed

lemma bytes_inv_apply:
  assumes "bytes_inv w" and "count_inv w"
    and "\<And>n. op = WReserve n \<Longrightarrow> n \<le> max_i64 - op_queue_bytes (wq_options w)"
  shows "bytes_inv (wq_apply w op)"
proof (cases op)
  case WCollect
  with assms(1) show ?thesis
    by (auto simp: collect_def bytes_inv_def open_set_def split: list.splits)
next
  case (WBegin name)
  with assms(1) show ?thesis by (simp add: beginMaintenance_def bytes_inv_def open_set_def)
next
  case WEnd
  with assms(1) show ?thesis by (simp add: endMaintenance_def bytes_inv_def open_set_def)
next
  case WStop
  with assms(1) show ?thesis by (simp add: stop_accepting_def bytes_inv_def open_set_def)
next
  case WFinish
  with assms(1) show ?thesis by (simp add: finish_writer_def bytes_inv_def open_set_def)
qed (simp_all add: assms bytes_inv_reserve bytes_inv_commit bytes_inv_cancel bytes_inv_write)

lemma bytes_inv_run:
  assumes "bytes_inv w" and "count_inv w" and "wq_run w ops = (v, acc)"
    and "\<And>n. WReserve n \<in> set ops \<Longrightarrow> n \<le> max_i64 - op_queue_bytes (wq_options w)"
  shows "bytes_inv v"
  using assms
proof (induction ops arbitrary: w acc)
  case (Cons op ops)
  obtain v' acc' where r: "wq_run (wq_apply w op) ops = (v', acc')" by fastforce
  with Cons.prems(3) have [simp]: "v' = v" by auto
  show ?case
    by (rule Cons.IH [OF bytes_inv_apply count_inv_apply]) (use Cons.prems r in auto)
qed simp

section \<open>Draining\<close>

definition drain_ops :: "string option list \<Rightarrow> wq_op list" where
  "drain_ops outcomes = concat (map (\<lambda>x. [WCollect, WWrite x]) outcomes)"

lemma drain_ops_simps [simp]:
  "drain_ops [] = []" "drain_ops (x # xs) = WCollect # WWrite x # drain_ops xs"
  by (simp_all add: drain_ops_def)

lemma wq_run_fst: "fst (wq_run w ops) = foldl wq_apply w ops"
  by (induction ops arbitrary: w) (simp_all add: Let_def case_prod_beta)

lemma wq_run_append: "fst (wq_run w (ops @ ops2)) = fst (wq_run (fst (wq_run w ops)) ops2)"
  by (simp add: wq_run_fst)

lemma drain_pair:
  fixes x :: "string option"
  assumes "\<not> wq_stopped w"
  defines "v \<equiv> writeBatch (collect w) x"
  shows "wq_batch v = []" "\<not> wq_stopped v" "wq_accepting v = wq_accepting w" "open_set v = open_set w"
    "length (wq_writes v) \<le> length (wq_writes w)" "wq_batch w = [] \<Longrightarrow> wq_writes v = tl (wq_writes w)"
  using assms(1) unfolding v_def
  by (auto simp: writeBatch_sel collect_def open_set_def split: list.splits)

lemma drain_empty_batch:
  assumes "\<not> wq_stopped w" and "wq_batch w = []"
  shows "wq_batch (foldl wq_apply w (drain_ops xs)) = []
    \<and> wq_writes (foldl wq_apply w (drain_ops xs)) = drop (length xs) (wq_writes w)
    \<and> open_set (foldl wq_apply w (drain_ops xs)) = open_set w
    \<and> wq_accepting (foldl wq_apply w (drain_ops xs)) = wq_accepting w"
  using assms
proof (induction xs arbitrary: w)
  case (Cons x xs)
  note p = drain_pair [OF Cons.prems(1), of x]
  from Cons.IH [OF p(2) p(1)] p(3,4) p(6) [OF Cons.prems(2)] show ?case
    by (simp add: drop_Suc)
qed simp

lemma drain_foldl:
  assumes "\<not> wq_stopped w" and "length (wq_writes w) < length xs"
  shows "wq_batch (foldl wq_apply w (drain_ops xs)) = [] \<and> wq_writes (foldl wq_apply w (drain_ops xs)) = []
    \<and> open_set (foldl wq_apply w (drain_ops xs)) = open_set w
    \<and> wq_accepting (foldl wq_apply w (drain_ops xs)) = wq_accepting w"
proof (cases xs)
  case (Cons x ys)
  note p = drain_pair [OF assms(1), of x]
  from drain_empty_batch [OF p(2) p(1), of ys] p(3-5) assms(2) Cons show ?thesis by simp
qed (use assms in simp)

lemma count_inv_foldl: "count_inv w \<Longrightarrow> count_inv (foldl wq_apply w ops)"
  by (induction ops arbitrary: w) (auto intro: count_inv_apply)

section \<open>Properties\<close>

text \<open>
  C17. The writer queue is bounded and never overflows: after any sequence of reservations,
  commits, cancellations, batches and maintenance flags, every reserved slot is an open
  reservation, an item in the channel or one in the batch, their number is at most
  \<open>QueueCount\<close>, and no \<open>Commit\<close> can return \<open>ErrQueueFull\<close>.
\<close>

theorem writer_queue_bounded:
  assumes "wq_run (Open_writer p) ops = (w, acc)"
  shows "wq_reserved_count w = int (card (open_set w)) + int (length (wq_writes w)) + int (length (wq_batch w))
    \<and> wq_reserved_count w \<le> op_queue_count (applyDefaults p)
    \<and> int (length (wq_writes w)) \<le> op_queue_count (applyDefaults p)
    \<and> (\<forall>r e. snd (Commit w r e) = None)"
proof -
  have c: "count_inv w" by (rule run_count_inv [OF assms])
  have "wq_options w = applyDefaults p"
    using options_run [OF assms] by (simp add: Open_writer_def)
  with c Commit_cases [OF c] show ?thesis by (auto simp: count_inv_def)
qed

definition sample_options :: options where
  "sample_options = \<lparr>op_queue_count = 2, op_queue_bytes = 100, op_batch_size = 1, op_flush_interval = 0,
     op_busy_timeout = 0, op_cleanup_batch = 0, op_compact_pages = 0, op_retention_days = 0\<rparr>"

definition sample_ops :: "wq_op list" where
  "sample_ops = [WReserve 60, WReserve 60, WReserve 30, WReserve 0,
     WCommit 0 (sample_exchange ''a'' StateCompleted 1 2), WCollect, WCancel 1, WStop,
     WWrite None, WFinish]"

lemmas sample_run_simps = sample_ops_def sample_options_def Open_writer_def applyDefaults_def
  Reserve_def Commit_def Cancel_def mark_done_def release_def collect_def writeBatch_def report_item_def
  stop_accepting_def finish_writer_def accepted_by_def max_i64_def wrap_i64_def Let_def

theorem writer_queue_bounded_witness:
  "wq_reserved_count (fst (wq_run (Open_writer sample_options) [WReserve 60, WReserve 60, WReserve 30])) = 2
   \<and> wq_reserved_count (fst (wq_run (Open_writer sample_options) [WReserve 60, WReserve 60, WReserve 30])) \<le> 2"
proof -
  obtain w acc where r: "wq_run (Open_writer sample_options) [WReserve 60, WReserve 60, WReserve 30] = (w, acc)"
    by fastforce
  then have "wq_reserved_count w = 2" by (auto simp: sample_run_simps)
  with r writer_queue_bounded [OF r] show ?thesis by (simp add: sample_options_def applyDefaults_def)
qed

text \<open>
  C9. Closing loses no write: when the writer goroutine has returned, no reservation is open and
  nothing is left in the channel or in a batch; every exchange whose \<open>Commit\<close> was accepted has been
  reported exactly once, in the order of the commits, and the tables hold exactly the writes
  of the transactions that succeeded.
\<close>

theorem close_loses_no_write:
  assumes "wq_run (Open_writer p) ops = (w, acc)" and "wq_stopped w"
  shows "open_set w = {} \<and> wq_writes w = [] \<and> wq_batch w = []
    \<and> map fst (wq_reports w) = map ex_id acc
    \<and> wq_database w = foldl persist Open_database (stored_writes acc (wq_reports w))
    \<and> (\<forall>n. snd (Reserve w n) = None)"
proof -
  have f: "flow_inv w acc" using flow_run [OF flow_inv_open assms(1)] by simp
  then have "int (card (open_set w)) + int (length (wq_writes w)) + int (length (wq_batch w)) = 0"
    using assms(2) by (auto simp: flow_inv_def count_inv_def)
  then have "card (open_set w) = 0" "length (wq_writes w) = 0" "length (wq_batch w) = 0" by linarith+
  then have none: "open_set w = {}" "wq_writes w = []" "wq_batch w = []" by simp_all
  with f assms(2) show ?thesis by (auto simp: flow_inv_def Reserve_def Let_def)
qed

theorem close_loses_no_write_witness:
  "wq_stopped (fst (wq_run (Open_writer sample_options) sample_ops))
   \<and> map fst (wq_reports (fst (wq_run (Open_writer sample_options) sample_ops))) = [''a'']"
proof -
  obtain w acc where r: "wq_run (Open_writer sample_options) sample_ops = (w, acc)" by fastforce
  then have st: "wq_stopped w" and acc: "map ex_id acc = [''a'']" by (auto simp: sample_run_simps)
  from close_loses_no_write [OF r st] st acc r show ?thesis by simp
qed

text \<open>
  C35. Draining ends: when the open reservations of a writer that stopped accepting have been
  committed or cancelled, the writer goroutine empties the channel in as many batches as there
  are items plus one, whatever the outcomes of its transactions, and then stops.
\<close>

theorem drain_terminates:
  assumes "wq_run (Open_writer p) ops = (w, acc)" and "\<not> wq_accepting w" and "open_set w = {}"
    and "length (wq_writes w) < length outcomes"
  shows "wq_stopped (fst (wq_run (Open_writer p) (ops @ drain_ops outcomes @ [WFinish])))"
proof (cases "wq_stopped w")
  case True
  have "wq_stopped (foldl wq_apply v os)" if "wq_stopped v" for v os
    using that
  proof (induction os arbitrary: v)
    case (Cons x xs)
    have "wq_stopped (wq_apply v x)"
      using Cons.prems by (cases x) (auto simp: Commit_def Let_def collect_def writeBatch_sel
          beginMaintenance_def endMaintenance_def stop_accepting_def finish_writer_def split: list.splits)
    with Cons.IH show ?case by simp
  qed simp
  from this [OF True, of "drain_ops outcomes @ [WFinish]"] assms(1) show ?thesis
    by (simp add: wq_run_append) (simp add: wq_run_fst)
next
  case False
  let ?v = "foldl wq_apply w (drain_ops outcomes)"
  have "count_inv ?v" by (rule count_inv_foldl [OF run_count_inv [OF assms(1)]])
  with drain_foldl [OF False assms(4)] assms(2,3)
  have "wq_reserved_count ?v = 0" and "\<not> wq_accepting ?v" by (simp_all add: count_inv_def)
  then show ?thesis
    using assms(1) by (simp add: wq_run_append) (simp add: wq_run_fst finish_writer_def)
qed

theorem drain_terminates_witness:
  "wq_stopped (fst (wq_run (Open_writer sample_options)
     ([WReserve 60, WCommit 0 (sample_exchange ''a'' StateCompleted 1 2), WStop] @ drain_ops [None, None] @ [WFinish])))"
proof -
  let ?ops = "[WReserve 60, WCommit 0 (sample_exchange ''a'' StateCompleted 1 2), WStop]"
  obtain w acc where r: "wq_run (Open_writer sample_options) ?ops = (w, acc)" by fastforce
  then have "\<not> wq_accepting w" "open_set w = {}" "length (wq_writes w) < length [None, None]"
    by (auto simp: sample_run_simps open_set_def)
  from drain_terminates [OF r this] show ?thesis .
qed

text \<open>
  Reserved bytes are bounded: as long as no request asks for more than
  \<open>MaxInt64 - QueueBytes\<close> bytes, the bytes reserved are those of the open reservations, the
  channel and the batch, and their sum stays between zero and \<open>QueueBytes\<close>.
\<close>

theorem reserved_bytes_bounded:
  assumes "wq_run (Open_writer p) ops = (w, acc)" and "op_queue_bytes p \<le> max_i64"
    and "\<And>n. WReserve n \<in> set ops \<Longrightarrow> n \<le> max_i64 - op_queue_bytes (applyDefaults p)"
  shows "0 \<le> wq_reserved_bytes w \<and> wq_reserved_bytes w \<le> op_queue_bytes (applyDefaults p)
    \<and> wq_reserved_bytes w = open_bytes w + item_bytes (wq_writes w) + item_bytes (wq_batch w)"
proof -
  have "bytes_inv w"
    by (rule bytes_inv_run [OF bytes_inv_open [OF assms(2)] count_inv_open assms(1)])
      (use assms(3) in \<open>simp add: Open_writer_def\<close>)
  moreover have "wq_options w = applyDefaults p"
    using options_run [OF assms(1)] by (simp add: Open_writer_def)
  ultimately show ?thesis
    using open_bytes_nonneg [of w] bytes_inv_items [of w] by (simp add: bytes_inv_def)
qed

theorem reserved_bytes_bounded_witness:
  "wq_reserved_bytes (fst (wq_run (Open_writer sample_options) [WReserve 60, WReserve 60, WReserve 30])) \<le> 100"
proof -
  obtain w acc where r: "wq_run (Open_writer sample_options) [WReserve 60, WReserve 60, WReserve 30] = (w, acc)"
    by fastforce
  have "wq_reserved_bytes w \<le> op_queue_bytes (applyDefaults sample_options)"
    by (rule conjunct1 [OF conjunct2 [OF reserved_bytes_bounded [OF r]]])
      (auto simp: sample_options_def applyDefaults_def max_i64_def)
  with r show ?thesis by (simp add: sample_options_def applyDefaults_def)
qed

text \<open>
  A request that reserves, commits and then runs its deferred \<open>Cancel\<close> leaves no reservation
  behind, its commit succeeds, and the cancellation after the commit is without effect.
\<close>

theorem commit_then_cancel:
  assumes "wq_run (Open_writer p) ops = (w, acc)" and "Reserve w n = (w1, Some r)"
  shows "snd (Commit w1 r e) = None \<and> Cancel (fst (Commit w1 r e)) r = fst (Commit w1 r e)
    \<and> open_set (Cancel (fst (Commit w1 r e)) r) = open_set w"
proof -
  have c: "count_inv w" by (rule run_count_inv [OF assms(1)])
  then have "count_inv w1" using wq.inv_reserve [OF c, of n] assms(2) by simp
  from wq.cancel_after_commit [OF this] wq.reserve_commit_cancel [OF c assms(2)] show ?thesis by simp
qed

theorem commit_then_cancel_witness:
  "\<exists>w1 r. Reserve (Open_writer sample_options) 60 = (w1, Some r)
     \<and> snd (Commit w1 r (sample_exchange ''a'' StateCompleted 1 2)) = None"
proof -
  obtain w1 r where "Reserve (Open_writer sample_options) 60 = (w1, Some r)"
    by (cases "Reserve (Open_writer sample_options) 60") (auto simp: sample_run_simps)
  with commit_then_cancel [of sample_options "[]"] show ?thesis by fastforce
qed



section \<open>A boundary of the byte limit\<close>

text \<open>
  A request of \<open>MaxInt64\<close> bytes overflows the sum once a byte is reserved: it is admitted beyond any
  \<open>QueueBytes\<close>, and the sum becomes negative.
\<close>

lemma reserve_overflow_admitted:
  "let w1 = fst (Reserve (Open_writer sample_options) 1); (w2, r) = Reserve w1 max_i64
   in r \<noteq> None \<and> wq_reserved_bytes w2 = min_i64 \<and> op_queue_bytes (wq_options w1) = 100"
  by (simp add: sample_run_simps min_i64_def)

end
