(* ===== verification/Traffic_System.thy ===== *)
theory Traffic_System
  imports Capture_Pipeline Memory_Store Writer_Queue
begin

text \<open>
  The traffic plane as \<open>Start\<close> of \<open>internal/app/app.go\<close> wires it: the pipeline over the store of
  \<open>internal/store/repository.go\<close> (RAM history, optional SQLite writer), the event bus, the clock
  and the ID source; and what holds of it while other requests, the writer goroutine and the
  management plane work on the same stores.

  Before each call of a request on the shared state the others perform the operations
  \<open>wd_others\<close> plans for that moment, so every interleaving of calls is one of these plans.
\<close>

section \<open>The interface the pipeline is given\<close>

text \<open>
  A property of the shared state that every call of a request on it keeps holds until the request
  uses its reservation.
\<close>

locale pipeline_environment =
  fixes p :: "'s pipeline_options" and J :: "'s \<Rightarrow> bool"
  assumes keep_save: "J s \<Longrightarrow> J (fst (po_save p s e))"
    and keep_publish: "J s \<Longrightarrow> J (po_publish p s v)"
    and keep_now: "J s \<Longrightarrow> J (fst (po_now p s))"
    and keep_id: "J s \<Longrightarrow> J (fst (po_id p s))"
begin

lemma J_publish: "J (rn_shared r) \<Longrightarrow> J (rn_shared (do_publish p v r))"
  by (simp add: do_publish_def keep_publish)

lemma J_evicted:
  "J (rn_shared r) \<Longrightarrow> J (rn_shared (foldl (\<lambda>r x. do_publish p (f x) r) r es))"
  by (induction es arbitrary: r) (simp_all add: J_publish)

lemma J_save: "J (rn_shared r) \<Longrightarrow> J (rn_shared (do_save p e r))"
  using keep_save [of "rn_shared r" e] by (auto simp: do_save_def intro!: J_evicted split: prod.split)

lemma J_now: "do_now p r = (r', t) \<Longrightarrow> J (rn_shared r) \<Longrightarrow> J (rn_shared r')"
  using keep_now [of "rn_shared r"] by (auto simp: do_now_def split: prod.splits)

lemma J_id: "do_id p r = (r', i) \<Longrightarrow> J (rn_shared r) \<Longrightarrow> J (rn_shared r')"
  using keep_id [of "rn_shared r"] by (auto simp: do_id_def split: prod.splits)

lemma J_start: "startExchange p incoming sn r = (r', x) \<Longrightarrow> J (rn_shared r) \<Longrightarrow> J (rn_shared r')"
  by (auto simp: startExchange_def Let_def intro!: J_publish J_save dest: J_now J_id split: prod.splits sum.splits)

lemma J_fail: "fail p e st r = (r', e') \<Longrightarrow> J (rn_shared r) \<Longrightarrow> J (rn_shared r')"
  by (auto simp: fail_def Let_def intro!: J_publish J_save dest: J_now split: prod.splits)

lemma J_internal: "internalFailure p e m r = (r', e') \<Longrightarrow> J (rn_shared r) \<Longrightarrow> J (rn_shared r')"
  by (auto simp: internalFailure_def dest: J_fail split: prod.splits)

lemma J_write: "writeResponse p e x r = (r', e', n, err) \<Longrightarrow> J (rn_shared r) \<Longrightarrow> J (rn_shared r')"
  by (auto simp: writeResponse_def Let_def split: prod.splits) (metis J_now run.select_convs(2) run.surjective run.update_convs(3))+

lemma J_announce: "announce_response p sn e r = (r', e') \<Longrightarrow> J (rn_shared r) \<Longrightarrow> J (rn_shared r')"
  by (auto simp: announce_response_def Let_def intro!: J_publish J_save split: option.splits if_splits)

lemma J_deliver:
  assumes "deliver p sn res e r = (r', e')" and "J (rn_shared r)"
  shows "J (rn_shared r')"
proof -
  obtain r1 e1 where a: "announce_response p sn e r = (r1, e1)" by fastforce
  obtain r2 e2 n err where w: "writeResponse p e1 (mr_response res) r1 = (r2, e2, n, err)"
    by (cases "writeResponse p e1 (mr_response res) r1")
  have J2: "J (rn_shared r2)" by (rule J_write [OF w J_announce [OF a assms(2)]])
  show ?thesis
    using assms(1) J2
    by (auto simp: deliver_def a w Let_def intro: J_fail J_internal J_save dest: J_now
        split: option.splits prod.splits sum.splits)
qed

lemma J_handler_failed:
  assumes "handler_failed p incoming sn err e r = (r', e')" and "J (rn_shared r)"
  shows "J (rn_shared r')"
  using assms
  by (auto simp: handler_failed_def Let_def dest!: J_write J_fail split: prod.splits)

lemma J_log: "J (rn_shared r) \<Longrightarrow> J (rn_shared (log_call c r))"
  by simp

lemma J_dispatch:
  assumes "dispatch p incoming sn e r = (r', e')" and "J (rn_shared r)"
  shows "J (rn_shared r')"
proof -
  have mode: "J (rn_shared r')"
    if h: "(case po_handlers p (cs_mode sn) of
                None \<Rightarrow>
                  let (r2, e2) = fail p (set_error ''mode_handler_unavailable'' ''Configured mode is unavailable.'' e1) StateFailed r1
                  in (respond_error 501 ''mode_handler_unavailable'' ''Configured mode is unavailable.'' r2, e2)
              | Some handle \<Rightarrow>
                  let rq = clone_request (ex_request e1); sn' = clone_snapshot sn;
                      (result, handleError) = handle rq sn';
                      r2 = log_call (CHandle rq sn') r1;
                      e2 = applyModeResult e1 result
                  in case handleError of
                       Some err \<Rightarrow> handler_failed p incoming sn err e2 r2
                     | None \<Rightarrow> deliver p sn result e2 r2) = (r', e')"
      and J1: "J (rn_shared r1)" for r1 e1
    using h J1
    by (auto simp: Let_def intro: J_handler_failed J_deliver J_log dest!: J_fail split: option.splits prod.splits)
  show ?thesis
  proof (cases "cs_mode sn = ModeProxy")
    case True
    obtain r1 at where n: "do_now p r = (r1, at)" by fastforce
    have J1: "J (rn_shared r1)" by (rule J_now [OF n assms(2)])
    show ?thesis
    proof (cases "Transition e StateForwarding at")
      case (Inl err)
      with assms(1) True n J1 show ?thesis by (auto simp: dispatch_def intro: J_internal)
    next
      case (Inr e1)
      show ?thesis
        by (rule mode [of e1 "do_save p e1 r1"]) (use assms(1) True n Inr J_save [OF J1] in \<open>simp_all add: dispatch_def\<close>)
    qed
  next
    case False
    show ?thesis
      by (rule mode [of e r]) (use assms False in \<open>simp_all add: dispatch_def\<close>)
  qed
qed

lemma J_fail_respond:
  assumes "(let (r1, e1) = fail p e st r in (respond_error n c m r1, e1)) = (r', e')" and "J (rn_shared r)"
  shows "J (rn_shared r')"
proof -
  obtain r1 e1 where f: "fail p e st r = (r1, e1)" by fastforce
  with assms(1) J_fail [OF f assms(2)] show ?thesis by auto
qed

lemma J_receive:
  assumes "receive p incoming sn e r = (r', e')" and "J (rn_shared r)"
  shows "J (rn_shared r')"
proof (cases "rq_header_bytes (ex_request e) > lim_request_header (cs_limits sn)")
  case True
  with assms(1) have "(let (r1, e1) = fail p (set_error ''request_headers_too_large'' ''Request headers exceed configured limit.'' e) StateFailed r
        in (respond_error 431 ''request_headers_too_large'' ''Request headers exceed configured limit.'' r1, e1)) = (r', e')"
    by (simp add: receive_def)
  then show ?thesis by (rule J_fail_respond) (rule assms(2))
next
  case False
  obtain body observed readError where b: "ReadBody (hq_body incoming) (lim_request_body (cs_limits sn)) = (body, observed, readError)"
    by (cases "ReadBody (hq_body incoming) (lim_request_body (cs_limits sn))")
  obtain pre truncated where pv: "preview body (cs_preview sn) = (pre, truncated)" by fastforce
  show ?thesis
  proof (cases readError)
    case None
    obtain e2 r2 where "dispatch p incoming sn e2 r2 = (r', e')" and "J (rn_shared r2)"
      by (rule that) (use assms(1) False b pv None in \<open>simp add: receive_def Let_def\<close>,
        intro J_publish J_save assms(2))
    then show ?thesis by (rule J_dispatch)
  next
    case (Some err)
    have tl: "J (rn_shared (do_too_large r))" using assms(2) by (simp add: do_too_large_def)
    show ?thesis
    proof (cases "errors_is err BodyTooLarge")
      case True
      show ?thesis
        by (rule J_fail_respond [OF _ tl]) (use assms(1) False b pv Some True in \<open>simp add: receive_def\<close>)
    next
      case False
      show ?thesis
        by (rule J_fail_respond [OF _ assms(2)])
          (use assms(1) \<open>\<not> rq_header_bytes (ex_request e) > lim_request_header (cs_limits sn)\<close> b pv Some False
           in \<open>simp add: receive_def\<close>)
    qed
  qed
qed

end

section \<open>The system\<close>

datatype other_op =
    OMemory mem_op
  | OWriter wq_op
  | OPublish envelope

record world =
  wd_config :: config
  wd_revision :: u64
  wd_memory :: memory
  wd_writer :: "writer option"
  wd_bus :: bus
  wd_clock :: "nat \<Rightarrow> gotime"
  wd_random :: "nat \<Rightarrow> 8 word list option"
  wd_others :: "nat \<Rightarrow> other_op list"
  wd_calls :: nat

definition world_publish :: "(envelope \<Rightarrow> nat option) \<Rightarrow> world \<Rightarrow> envelope \<Rightarrow> world" where
  "world_publish marshal w v = w\<lparr>wd_bus := fst (Publish marshal (wd_bus w) (wd_clock w (wd_calls w)) v)\<rparr>"

fun other_apply :: "(envelope \<Rightarrow> nat option) \<Rightarrow> world \<Rightarrow> other_op \<Rightarrow> world" where
  "other_apply marshal w (OMemory op) = w\<lparr>wd_memory := mem_apply (wd_memory w) op\<rparr>"
| "other_apply marshal w (OWriter op) = w\<lparr>wd_writer := map_option (\<lambda>q. wq_apply q op) (wd_writer w)\<rparr>"
| "other_apply marshal w (OPublish v) = world_publish marshal w v"

definition others :: "(envelope \<Rightarrow> nat option) \<Rightarrow> world \<Rightarrow> world" where
  "others marshal w =
     foldl (other_apply marshal) (w\<lparr>wd_calls := wd_calls w + 1\<rparr>) (wd_others w (wd_calls w))"

text \<open>\<open>store.Repository\<close>: saves go to the RAM history, reservations to the writer if there is one.\<close>

definition repository_Save :: "(envelope \<Rightarrow> nat option) \<Rightarrow> world \<Rightarrow> exchange \<Rightarrow> world \<times> exchange list" where
  "repository_Save marshal w0 e =
     (let w = others marshal w0; (m, evicted) = Save (wd_memory w) e in (w\<lparr>wd_memory := m\<rparr>, evicted))"

definition repository_Reserve :: "(envelope \<Rightarrow> nat option) \<Rightarrow> world \<Rightarrow> int \<Rightarrow> world \<times> nat option \<times> bool" where
  "repository_Reserve marshal w0 n =
     (let w = others marshal w0
      in case wd_writer w of
           None \<Rightarrow> (w, None, True)
         | Some q \<Rightarrow> (case Reserve q n of
               (q1, None) \<Rightarrow> (w\<lparr>wd_writer := Some q1\<rparr>, None, False)
             | (q1, Some i) \<Rightarrow> (w\<lparr>wd_writer := Some q1\<rparr>, Some i, True)))"

definition repository_Commit :: "(envelope \<Rightarrow> nat option) \<Rightarrow> world \<Rightarrow> nat \<Rightarrow> exchange \<Rightarrow> world \<times> string option" where
  "repository_Commit marshal w0 i e =
     (let w = others marshal w0
      in case wd_writer w of
           None \<Rightarrow> (w, None)
         | Some q \<Rightarrow> (case Commit q i e of
               (q1, None) \<Rightarrow> (w\<lparr>wd_writer := Some q1\<rparr>, None)
             | (q1, Some err) \<Rightarrow> (w\<lparr>wd_writer := Some q1\<rparr>, Some ''sqlite writer queue is full'')))"

definition repository_Cancel :: "(envelope \<Rightarrow> nat option) \<Rightarrow> world \<Rightarrow> nat \<Rightarrow> world" where
  "repository_Cancel marshal w0 i =
     (let w = others marshal w0 in w\<lparr>wd_writer := map_option (\<lambda>q. Cancel q i) (wd_writer w)\<rparr>)"

definition relay_options ::
    "(envelope \<Rightarrow> nat option) \<Rightarrow> (string \<Rightarrow> (request \<Rightarrow> config_snapshot \<Rightarrow> mode_result \<times> go_error option) option)
     \<Rightarrow> world pipeline_options" where
  "relay_options marshal handlers = \<lparr>
     po_snapshot = (\<lambda>w. NewConfigSnapshot (wd_config w) (wd_revision w)),
     po_save = repository_Save marshal,
     po_reserving = True,
     po_reserve = repository_Reserve marshal,
     po_commit = repository_Commit marshal,
     po_cancel = repository_Cancel marshal,
     po_publish = (\<lambda>w v. world_publish marshal (others marshal w) v),
     po_handlers = handlers,
     po_id = (\<lambda>w. let w1 = others marshal w in (w1, NewID (wd_random w1 (wd_calls w1)))),
     po_now = (\<lambda>w. let w1 = others marshal w in (w1, wd_clock w1 (wd_calls w1)))\<rparr>"

text \<open>What the others never do: commit or cancel the reservation of this request.\<close>

fun hands_off :: "nat \<Rightarrow> other_op \<Rightarrow> bool" where
  "hands_off i (OWriter (WCommit j e)) = (j \<noteq> i)"
| "hands_off i (OWriter (WCancel j)) = (j \<noteq> i)"
| "hands_off i _ = True"

definition undisturbed :: "nat \<Rightarrow> world \<Rightarrow> bool" where
  "undisturbed i w \<longleftrightarrow> (\<forall>k. \<forall>op \<in> set (wd_others w k). hands_off i op)"

definition writer_ok :: "world \<Rightarrow> bool" where
  "writer_ok w \<longleftrightarrow> (\<exists>q. wd_writer w = Some q \<and> count_inv q)"

definition holding :: "nat \<Rightarrow> world \<Rightarrow> bool" where
  "holding i w \<longleftrightarrow> undisturbed i w \<and> (\<exists>q. wd_writer w = Some q \<and> count_inv q \<and> i \<in> open_set q)"

lemma wq_apply_keeps_open:
  assumes "count_inv q" and "i \<in> open_set q" and "hands_off i (OWriter op)"
  shows "i \<in> open_set (wq_apply q op)"
proof (cases op)
  case (WReserve n)
  with assms show ?thesis
    by (cases "snd (Reserve q n)") (simp_all add: wq.reserve_None wq.reserve_Some)
next
  case (WCommit j e)
  with assms show ?thesis
    by (cases "j \<in> open_set q") (auto simp: wq.commit_open wq.commit_closed)
next
  case (WCancel j)
  with assms show ?thesis
    by (cases "j \<in> open_set q") (auto simp: wq.cancel_open wq.cancel_closed)
next
  case (WWrite x)
  have "open_set (writeBatch q x) = open_set q" by (rule open_set_cong) (simp_all add: writeBatch_sel)
  with WWrite assms show ?thesis by simp
qed (use assms in \<open>auto simp: collect_def beginMaintenance_def endMaintenance_def stop_accepting_def
      finish_writer_def open_set_def split: list.splits\<close>)

lemma world_publish_sel [simp]:
  "wd_writer (world_publish marshal w v) = wd_writer w" "wd_others (world_publish marshal w v) = wd_others w"
  by (simp_all add: world_publish_def)

lemma others_plan [simp]: "wd_others (others marshal w) = wd_others w"
proof -
  have "wd_others (foldl (other_apply marshal) w ops) = wd_others w" for w ops
  proof (induction ops arbitrary: w)
    case (Cons op ops)
    then show ?case by (cases op) simp_all
  qed simp
  then show ?thesis by (simp add: others_def)
qed

lemma writer_ok_apply: "writer_ok w \<Longrightarrow> writer_ok (other_apply marshal w op)"
  by (cases op) (auto simp: writer_ok_def count_inv_apply)

lemma writer_ok_others: "writer_ok w \<Longrightarrow> writer_ok (others marshal w)"
proof -
  have "writer_ok w \<Longrightarrow> writer_ok (foldl (other_apply marshal) w ops)" for w ops
    by (induction ops arbitrary: w) (simp_all add: writer_ok_apply)
  then show "writer_ok w \<Longrightarrow> writer_ok (others marshal w)"
    unfolding others_def by (simp add: writer_ok_def)
qed

lemma holding_apply: "holding i w \<Longrightarrow> hands_off i op \<Longrightarrow> holding i (other_apply marshal w op)"
  by (cases op) (auto simp: holding_def undisturbed_def intro: count_inv_apply wq_apply_keeps_open)

lemma holding_others: "holding i w \<Longrightarrow> holding i (others marshal w)"
proof -
  have fold: "holding i w \<Longrightarrow> (\<And>op. op \<in> set ops \<Longrightarrow> hands_off i op) \<Longrightarrow>
      holding i (foldl (other_apply marshal) w ops)" for w ops
    by (induction ops arbitrary: w) (simp_all add: holding_apply)
  show "holding i w \<Longrightarrow> holding i (others marshal w)"
    unfolding others_def by (rule fold) (auto simp: holding_def undisturbed_def)
qed

lemma holding_cong:
  "holding i w \<Longrightarrow> wd_writer v = wd_writer w \<Longrightarrow> wd_others v = wd_others w \<Longrightarrow> holding i v"
  by (simp add: holding_def undisturbed_def)

interpretation held: pipeline_environment "relay_options marshal handlers" "holding i" for marshal handlers i
proof
  fix w e v
  assume h: "holding i w"
  then have o: "holding i (others marshal w)" by (rule holding_others)
  show "holding i (fst (po_save (relay_options marshal handlers) w e))"
    by (rule holding_cong [OF o]) (simp_all add: relay_options_def repository_Save_def Let_def split: prod.split)
  show "holding i (po_publish (relay_options marshal handlers) w v)"
    by (rule holding_cong [OF o]) (simp_all add: relay_options_def)
  show "holding i (fst (po_now (relay_options marshal handlers) w))"
    and "holding i (fst (po_id (relay_options marshal handlers) w))"
    using o by (simp_all add: relay_options_def Let_def)
qed

text \<open>The reservation has been used up or given back.\<close>

definition settled :: "nat \<Rightarrow> world \<Rightarrow> bool" where
  "settled i w \<longleftrightarrow> (\<exists>q. wd_writer w = Some q \<and> count_inv q \<and> i < wq_fresh q \<and> i \<notin> open_set q)"

lemma wq_apply_keeps_closed:
  assumes "count_inv q" and "i < wq_fresh q" and "i \<notin> open_set q"
  shows "i < wq_fresh (wq_apply q op) \<and> i \<notin> open_set (wq_apply q op)"
proof (cases op)
  case (WReserve n)
  with assms show ?thesis by (auto simp: Reserve_def Let_def open_set_def)
next
  case (WCommit j e)
  with assms show ?thesis by (auto simp: Commit_cases open_set_mark_done)
next
  case (WCancel j)
  with assms show ?thesis by (auto simp: Cancel_cases open_set_mark_done)
next
  case (WWrite x)
  have "open_set (writeBatch q x) = open_set q" by (rule open_set_cong) (simp_all add: writeBatch_sel)
  with WWrite assms show ?thesis by (simp add: writeBatch_sel)
qed (use assms in \<open>auto simp: collect_def beginMaintenance_def endMaintenance_def stop_accepting_def
      finish_writer_def open_set_def split: list.splits\<close>)

lemma settled_apply: "settled i w \<Longrightarrow> settled i (other_apply marshal w op)"
  by (cases op) (auto simp: settled_def count_inv_apply wq_apply_keeps_closed)

lemma settled_others: "settled i w \<Longrightarrow> settled i (others marshal w)"
proof -
  have "settled i w \<Longrightarrow> settled i (foldl (other_apply marshal) w ops)" for w ops
    by (induction ops arbitrary: w) (simp_all add: settled_apply)
  then show "settled i w \<Longrightarrow> settled i (others marshal w)"
    unfolding others_def by (simp add: settled_def)
qed

lemma repository_reserve_holding:
  assumes "repository_Reserve marshal w n = (w', Some i, ok)" and "writer_ok w" and "undisturbed i w"
  shows "holding i w'"
proof -
  let ?w = "others marshal w"
  obtain q where q: "wd_writer ?w = Some q" "count_inv q"
    using writer_ok_others [OF assms(2)] by (auto simp: writer_ok_def)
  obtain q1 x where x: "Reserve q n = (q1, x)" by fastforce
  with assms(1) q have r': "x = Some i" "w' = ?w\<lparr>wd_writer := Some q1\<rparr>"
    by (auto simp: repository_Reserve_def Let_def split: option.splits)
  from x r'(1) have "snd (Reserve q n) = Some i" "q1 = fst (Reserve q n)" by simp_all
  with wq.reserve_Some [OF q(2)] wq.inv_reserve [OF q(2)] have "i \<in> open_set q1" "count_inv q1" by auto
  with r'(2) assms(3) show ?thesis by (simp add: holding_def undisturbed_def)
qed

lemma reserve_holding:
  assumes "reservePersistence (relay_options marshal handlers) sn r = (r', Some i, ok)"
    and "writer_ok (rn_shared r)" and "undisturbed i (rn_shared r)"
  shows "holding i (rn_shared r')"
proof -
  obtain w' x where "repository_Reserve marshal (rn_shared r) (reservation_size sn) = (w', x, ok)" "x = Some i" "rn_shared r' = w'"
    using assms(1) by (auto simp: reservePersistence_def relay_options_def Let_def split: prod.splits)
  with repository_reserve_holding assms(2,3) show ?thesis by metis
qed

lemma cancel_settles:
  assumes "holding i (rn_shared r) \<or> settled i (rn_shared r)"
  shows "settled i (rn_shared (do_cancel (relay_options marshal handlers) i r))"
  using assms
proof
  assume "holding i (rn_shared r)"
  then obtain q where q: "wd_writer (others marshal (rn_shared r)) = Some q" "count_inv q" "i \<in> open_set q"
    using holding_others [of i "rn_shared r" marshal] by (auto simp: holding_def)
  then show ?thesis
    using wq.cancel_open [OF q(2,3)] wq.inv_cancel [OF q(2), of i]
    by (simp add: do_cancel_def relay_options_def repository_Cancel_def settled_def Cancel_cases) (simp add: open_set_def)
next
  assume "settled i (rn_shared r)"
  then obtain q where q: "wd_writer (others marshal (rn_shared r)) = Some q" "count_inv q" "i < wq_fresh q" "i \<notin> open_set q"
    using settled_others [of i "rn_shared r" marshal] by (auto simp: settled_def)
  then show ?thesis
    by (simp add: do_cancel_def relay_options_def repository_Cancel_def settled_def wq.cancel_closed)
qed

lemma Commit_settled:
  assumes "count_inv q" and "i \<in> open_set q" and "Commit q i e = (q1, err)"
  shows "err = None" and "count_inv q1" and "i \<notin> open_set q1" and "i < wq_fresh q1"
proof -
  have q1: "q1 = (mark_done q i)\<lparr>wq_writes := wq_writes q @ [\<lparr>wi_exchange = e, wi_bytes = rv_bytes (wq_heap q i)\<rparr>]\<rparr>"
    and "err = None"
    using assms by (auto simp: Commit_cases)
  then show "err = None" by simp
  show "count_inv q1" using wq.inv_commit [OF assms(1), of i e] assms(3) by simp
  show "i \<notin> open_set q1" by (simp add: q1 open_set_mark_done)
  show "i < wq_fresh q1" using assms(2) by (simp add: q1 open_set_def)
qed

lemma repository_commit_settles:
  assumes "repository_Commit marshal w i e = (w', err)" and "holding i w"
  shows "err = None" and "settled i w'"
proof -
  let ?w = "others marshal w"
  obtain q where q: "wd_writer ?w = Some q" "count_inv q" "i \<in> open_set q"
    using holding_others [OF assms(2), of marshal] by (auto simp: holding_def)
  obtain q1 err1 where c: "Commit q i e = (q1, err1)" by fastforce
  note s = Commit_settled [OF q(2,3) c]
  have "repository_Commit marshal w i e = (?w\<lparr>wd_writer := Some q1\<rparr>, None)"
    using q(1) c s(1) by (simp add: repository_Commit_def)
  then have "err = None" "w' = ?w\<lparr>wd_writer := Some q1\<rparr>" using assms(1) by auto
  then show "err = None" and "settled i w'" using s by (simp_all add: settled_def)
qed

lemma commit_settles:
  assumes "do_commit (relay_options marshal handlers) i e r = (r', err)" and "holding i (rn_shared r)"
  shows "err = None" and "settled i (rn_shared r')"
proof -
  have "repository_Commit marshal (rn_shared r) i e = (rn_shared r', err)"
    using assms(1) by (auto simp: do_commit_def relay_options_def split: prod.splits)
  from repository_commit_settles [OF this assms(2)] show "err = None" and "settled i (rn_shared r')" by simp_all
qed

lemma commit_finished_settles:
  assumes "IsTerminal (ex_state e)" and "holding i (rn_shared r)"
  shows "\<exists>es. rn_log (commit_finished (relay_options marshal handlers) (Some i) e r) =
      rn_log r @ CSave (queued e) # evictions es @ [CCommit i (queued e) None]"
    and "settled i (rn_shared (commit_finished (relay_options marshal handlers) (Some i) e r))"
proof -
  let ?p = "relay_options marshal handlers"
  let ?r1 = "do_save ?p (queued e) r"
  obtain r2 err where c: "do_commit ?p i (queued e) ?r1 = (r2, err)" by fastforce
  have "holding i (rn_shared ?r1)" by (rule held.J_save [OF assms(2)])
  note s = commit_settles [OF c this]
  have f: "commit_finished ?p (Some i) e r = r2"
    using assms(1) c s(1) by (simp add: commit_finished_def queued_def Let_def)
  obtain es where es: "rn_log ?r1 = rn_log r @ CSave (queued e) # evictions es" using do_save_evictions by blast
  have "rn_log r2 = rn_log ?r1 @ [CCommit i (queued e) None]"
    using c s(1) by (auto simp: do_commit_def Let_def split: prod.splits)
  with es show "\<exists>es. rn_log (commit_finished ?p (Some i) e r) =
      rn_log r @ CSave (queued e) # evictions es @ [CCommit i (queued e) None]"
    by (auto simp: f)
  show "settled i (rn_shared (commit_finished ?p (Some i) e r))" using s(2) by (simp add: f)
qed

lemma serve_settles:
  assumes "rn_log r = []" and "writer_ok (rn_shared r)" and "undisturbed i (rn_shared r)"
    and "CReserve n (Some i) True \<in> set (rn_log (ServeHTTP (relay_options marshal handlers) incoming r))"
  shows "settled i (rn_shared (ServeHTTP (relay_options marshal handlers) incoming r))
    \<and> (saves (rn_log (ServeHTTP (relay_options marshal handlers) incoming r)) = []
       \<or> (\<exists>before es x. rn_log (ServeHTTP (relay_options marshal handlers) incoming r)
            = before @ CSave x # evictions es @ [CCommit i x None, CCancel i, CRelease]
            \<and> IsTerminal (ex_state x) \<and> ex_persistence x = Some \<lparr>ps_state = ''queued'', ps_error = []\<rparr>))"
proof -
  let ?p = "relay_options marshal handlers"
  have shared: "rn_shared (do_release r) = rn_shared r" for r :: "world run"
    by (simp add: do_release_def)
  show ?thesis
  proof (cases rule: ServeHTTP_cases [of ?p r incoming])
    case (full r1)
    with do_admit_sel [OF full(1)] assms show ?thesis by simp
  next
    case (unreserved r1 r2 res)
    note a = do_admit_sel [OF unreserved(1)] and b = reservePersistence_sel [OF unreserved(2)]
    show ?thesis using assms by (simp add: unreserved(3) a b split: if_splits)
  next
    case (nameless r1 r2 r3 res err)
    note a = do_admit_sel [OF nameless(1)] and b = reservePersistence_sel [OF nameless(2)]
      and c = startExchange_failed [OF nameless(3)]
    have res: "res = Some i" using assms(1,4) by (auto simp: nameless(4) a b c split: option.splits if_splits)
    have "holding i (rn_shared r2)"
      by (rule reserve_holding [OF nameless(2) [unfolded res]]) (use assms(2,3) a in simp_all)
    then have h: "holding i (rn_shared r3)" using held.J_start [OF nameless(3)] by blast
    have "settled i (rn_shared (ServeHTTP ?p incoming r))"
      unfolding nameless(4) shared res cancel_deferred_def option.case
      by (rule cancel_settles) (simp add: h)
    moreover have "saves (rn_log (ServeHTTP ?p incoming r)) = []"
      using assms(1) by (simp add: nameless(4) a b c split: option.split)
    ultimately show ?thesis by simp
  next
    case (serving ph)
    have res: "ph_reservation ph = Some i" by (rule served_reserved [OF serving assms(1,4)])
    obtain r1 r2 where a: "do_admit (lim_concurrent (cs_limits (ph_snapshot ph))) r = (r1, True)"
      and b: "reservePersistence ?p (ph_snapshot ph) r1 = (r2, ph_reservation ph, True)"
      and c: "startExchange ?p incoming (ph_snapshot ph) r2 = (ph_started ph, Inr (ph_first ph))"
      and d: "receive ?p incoming (ph_snapshot ph) (ph_first ph) (ph_started ph) = (ph_ended ph, ph_last ph)"
      using serving by (auto simp: served_def)
    have "holding i (rn_shared r2)"
      by (rule reserve_holding [OF b [unfolded res]]) (use assms(2,3) do_admit_sel [OF a] in simp_all)
    then have h: "holding i (rn_shared (ph_ended ph))"
      using held.J_receive [OF d held.J_start [OF c]] by blast
    note cf = commit_finished_settles [OF served_phases(6) [OF serving] h]
    have "settled i (rn_shared (ServeHTTP ?p incoming r))"
      unfolding served_result [OF serving] shared res cancel_deferred_def option.case
      by (rule cancel_settles) (simp add: cf)
    moreover obtain es where es: "rn_log (commit_finished ?p (Some i) (ph_last ph) (ph_ended ph)) =
        rn_log (ph_ended ph) @ CSave (queued (ph_last ph)) # evictions es @ [CCommit i (queued (ph_last ph)) None]"
      using cf(1) by blast
    have "rn_log (ServeHTTP ?p incoming r) = rn_log (ph_ended ph) @ CSave (queued (ph_last ph)) # evictions es
        @ [CCommit i (queued (ph_last ph)) None, CCancel i, CRelease]"
      unfolding served_result [OF serving] by (simp add: res es)
    moreover have "IsTerminal (ex_state (queued (ph_last ph)))"
      "ex_persistence (queued (ph_last ph)) = Some \<lparr>ps_state = ''queued'', ps_error = []\<rparr>"
      using served_phases(6) [OF serving] by (simp_all add: queued_def)
    ultimately show ?thesis by blast
  qed
qed

section \<open>Requests at the same time\<close>

text \<open>The calls of a request on the admission counter.\<close>

definition admission_calls :: "call list \<Rightarrow> call list" where
  "admission_calls cs = filter (\<lambda>c. c = CAdmit True \<or> c = CAdmit False \<or> c = CRelease) cs"

text \<open>
  The states that requests running at the same time can bring the counter into: \<open>past t\<close> are the
  calls request \<open>t\<close> has made, and each request makes them in its order; the limit may be another
  at each admission (the configuration changes) but is at most \<open>bound\<close>.
\<close>

inductive admissions :: "int \<Rightarrow> pipeline \<Rightarrow> (nat \<Rightarrow> call list) \<Rightarrow> bool" for bound :: int where
  adm_start: "pl_in_flight pl = 0 \<Longrightarrow> admissions bound pl (\<lambda>_. [])"
| adm_enter: "admissions bound pl past \<Longrightarrow> past t = [] \<Longrightarrow> limit \<le> bound \<Longrightarrow> admit pl limit = (pl1, ok) \<Longrightarrow>
    admissions bound pl1 (past(t := [CAdmit ok]))"
| adm_leave: "admissions bound pl past \<Longrightarrow> past t = [CAdmit True] \<Longrightarrow>
    admissions bound (pl_release pl) (past(t := [CAdmit True, CRelease]))"
| adm_reject: "admissions bound pl past \<Longrightarrow> admissions bound (rejectAdmission pl) past"
| adm_large: "admissions bound pl past \<Longrightarrow> admissions bound (recordBodyTooLarge pl) past"

definition inside :: "(nat \<Rightarrow> call list) \<Rightarrow> nat set" where
  "inside past = {t. past t = [CAdmit True]}"

lemma inside_enter: "past t = [] \<Longrightarrow> inside (past(t := [CAdmit ok])) = (if ok then insert t (inside past) else inside past)"
  by (auto simp: inside_def)

lemma inside_leave: "inside (past(t := [CAdmit True, CRelease])) = inside past - {t}"
  by (auto simp: inside_def)

lemma admissions_count:
  assumes "admissions bound pl past" and "1 \<le> bound"
  shows "finite (inside past) \<and> pl_in_flight pl = int (card (inside past)) \<and> pl_in_flight pl \<le> bound"
  using assms(1)
proof (induction rule: admissions.induct)
  case (adm_start pl)
  then show ?case using assms(2) by (simp add: inside_def)
next
  case (adm_enter pl past t limit pl1 ok)
  have new: "t \<notin> inside past" using adm_enter.hyps(2) by (simp add: inside_def)
  show ?case
  proof (cases ok)
    case True
    then have "pl1 = pl\<lparr>pl_in_flight := pl_in_flight pl + 1\<rparr>" "pl_in_flight pl < (if limit < 1 then 1 else limit)"
      using adm_enter.hyps(4) by (auto simp: admit_def Let_def split: if_splits)
    moreover have "(if limit < 1 then 1 else limit) \<le> bound" using adm_enter.hyps(3) assms(2) by simp
    ultimately show ?thesis
      using adm_enter.IH adm_enter.hyps(2) new True by (simp add: inside_enter del: fun_upd_apply)
  next
    case False
    then have "pl_in_flight pl1 = pl_in_flight pl"
      using adm_enter.hyps(4) by (auto simp: admit_def Let_def split: if_splits)
    with adm_enter.IH adm_enter.hyps(2) False show ?thesis by (simp add: inside_enter del: fun_upd_apply)
  qed
next
  case (adm_leave pl past t)
  have "t \<in> inside past" using adm_leave.hyps(2) by (simp add: inside_def)
  with adm_leave.IH have "int (card (inside past - {t})) = int (card (inside past)) - 1"
    by (metis (no_types, lifting) One_nat_def Suc_leI card_Diff_singleton card_gt_0_iff empty_iff of_nat_1 of_nat_diff)
  with adm_leave.IH show ?case by (simp add: inside_leave pl_release_def del: fun_upd_apply)
qed (simp_all add: rejectAdmission_def recordBodyTooLarge_def)

lemma inner_no_admission: "list_all inner cs \<Longrightarrow> admission_calls cs = []"
  by (auto simp: admission_calls_def filter_empty_conv list_all_iff inner_def)

lemma admission_calls_simps [simp]:
  "admission_calls [] = []" "admission_calls (CAdmit ok # cs) = CAdmit ok # admission_calls cs"
  "admission_calls (CRelease # cs) = CRelease # admission_calls cs" "admission_calls (CReject # cs) = admission_calls cs"
  "admission_calls (CSave e # cs) = admission_calls cs" "admission_calls (CCancel i # cs) = admission_calls cs"
  "admission_calls (CReserve n res got # cs) = admission_calls cs"
  "admission_calls (CCommit i e z # cs) = admission_calls cs"
  "admission_calls (as @ bs) = admission_calls as @ admission_calls bs"
  by (cases ok; simp add: admission_calls_def)+

lemma served_admission:
  assumes "served p incoming r ph" and "rn_log r = []"
  shows "admission_calls (rn_log (ServeHTTP p incoming r)) = [CAdmit True, CRelease]"
proof -
  obtain mid tail where l: "rn_log (ServeHTTP p incoming r) = rn_log r @ CAdmit True #
      (if po_reserving p then [CReserve (reservation_size (ph_snapshot ph)) (ph_reservation ph) True] else [])
      @ CSave (ph_first ph) # mid @ tail @ [CRelease]"
    and m: "list_all inner mid"
    and t: "case ph_reservation ph of None \<Rightarrow> tail = []
        | Some i \<Rightarrow> (\<exists>es err post. tail = CSave (queued (ph_last ph)) # evictions es @ CCommit i (queued (ph_last ph)) err # post @ [CCancel i]
            \<and> (case err of None \<Rightarrow> post = []
                | Some msg \<Rightarrow> (\<exists>es. post = CSave (persistence_failed msg (queued (ph_last ph))) # evictions es)))"
    using served_log [OF assms(1)] by blast
  have "admission_calls tail = []"
    using t by (auto simp: inner_no_admission split: option.splits)
  with l m assms(2) show ?thesis by (simp add: inner_no_admission)
qed

section \<open>The callbacks of the SQLite repository\<close>

text \<open>
  \<open>OnWrite\<close> reads the exchange from the RAM history and saves it back with its persistence status,
  in two critical sections; \<open>OnCleanup\<close> drops from RAM what retention removed from the tables.
\<close>

definition persistence_of :: "string option \<Rightarrow> persistence_status" where
  "persistence_of result = (case result of
     None \<Rightarrow> \<lparr>ps_state = ''persisted'', ps_error = []\<rparr>
   | Some msg \<Rightarrow> \<lparr>ps_state = ''failed'', ps_error = msg\<rparr>)"

definition OnWrite_save :: "memory \<Rightarrow> exchange \<Rightarrow> string option \<Rightarrow> memory \<times> exchange list" where
  "OnWrite_save m e result = Save m (e\<lparr>ex_persistence := Some (persistence_of result)\<rparr>)"

definition OnWrite :: "memory \<Rightarrow> string \<Rightarrow> string option \<Rightarrow> memory \<times> exchange list" where
  "OnWrite m i result = (case Get m i of None \<Rightarrow> (m, []) | Some e \<Rightarrow> OnWrite_save m e result)"

definition OnCleanup :: "(envelope \<Rightarrow> nat option) \<Rightarrow> memory \<times> bus \<Rightarrow> gotime \<Rightarrow> gotime \<Rightarrow> memory \<times> bus" where
  "OnCleanup marshal mb now cutoff =
     (let (m, removed) = RemoveCompletedBefore (fst mb) cutoff
      in (m, foldl (\<lambda>b x. fst (Publish marshal b now (event ExchangeEvicted (ex_id x) (ex_revision x) NoData))) (snd mb) removed))"

lemma update_completed_count:
  assumes "map_of items i = Some e" and "ex_state e' = ex_state e" and "distinct (map fst items)"
  shows "length (filter terminal (map snd (AList.update i e' items))) = length (filter terminal (map snd items))"
  using assms by (induction items) auto

lemma OnWrite_present:
  assumes "mem_inv m" and "Get m i = Some e"
  shows "snd (OnWrite m i result) = []"
    and "Get (fst (OnWrite m i result)) j = (if j = i then Some (e\<lparr>ex_persistence := Some (persistence_of result)\<rparr>) else Get m j)"
proof -
  let ?e = "e\<lparr>ex_persistence := Some (persistence_of result)\<rparr>"
  have inv: "keyed (mem_items m)" "int (length (completed_items m)) \<le> mem_capacity m"
    using assms(1) by (simp_all add: mem_inv_def)
  have e: "map_of (mem_items m) i = Some e" using assms(2) by (simp add: Get_map_of)
  then have i: "ex_id e = i" using keyed_lookup [OF inv(1)] by blast
  have "length (completed_items (m\<lparr>mem_items := AList.update i ?e (mem_items m)\<rparr>)) = length (completed_items m)"
    using update_completed_count [OF e, of ?e] inv(1) by (simp add: completed_items_def keyed_def)
  with inv(2) i have n: "snd (Save m ?e) = []"
    by (simp add: Save_def evictExcess_def Let_def)
  then show "snd (OnWrite m i result) = []" using assms(2) by (simp add: OnWrite_def OnWrite_save_def)
  show "Get (fst (OnWrite m i result)) j = (if j = i then Some ?e else Get m j)"
    using assms(2) n i by (simp add: OnWrite_def OnWrite_save_def Get_save)
qed

text \<open>A removal between the two sections of \<open>OnWrite\<close> is undone by the second.\<close>

lemma OnWrite_resurrects:
  assumes "mem_inv m" and "Get m i = Some e" and "terminal e"
  shows "Get (fst (Remove m i)) i = None"
    and "Get (fst (OnWrite_save (fst (Remove m i)) e result)) i = Some (e\<lparr>ex_persistence := Some (persistence_of result)\<rparr>)
      \<or> e\<lparr>ex_persistence := Some (persistence_of result)\<rparr> \<in> set (snd (OnWrite_save (fst (Remove m i)) e result))"
proof -
  have e: "map_of (mem_items m) i = Some e" using assms(2) by (simp add: Get_map_of)
  then have i: "ex_id e = i" using assms(1) keyed_lookup by (auto simp: mem_inv_def)
  have r: "fst (Remove m i) = m\<lparr>mem_items := AList.delete i (mem_items m)\<rparr>"
    using e assms(3) by (simp add: Remove_def)
  show "Get (fst (Remove m i)) i = None" by (simp add: r Get_map_of delete_conv')
  have inv: "mem_inv (fst (Remove m i))" using mem_inv_apply [OF assms(1), of "OpRemove i"] by simp
  let ?e = "e\<lparr>ex_persistence := Some (persistence_of result)\<rparr>"
  show "Get (fst (OnWrite_save (fst (Remove m i)) e result)) i = Some ?e
      \<or> ?e \<in> set (snd (OnWrite_save (fst (Remove m i)) e result))"
  proof (cases "i \<in> ex_id ` set (snd (Save (fst (Remove m i)) ?e))")
    case True
    then obtain x where x: "x \<in> set (snd (Save (fst (Remove m i)) ?e))" "ex_id x = i" by auto
    have "x = ?e"
      using Save_evicted_origin [OF inv x(1)] x(2) i by auto
    with x(1) show ?thesis by (simp add: OnWrite_save_def)
  next
    case False
    then show ?thesis by (simp add: OnWrite_save_def Get_save i)
  qed
qed

section \<open>Properties\<close>

text \<open>
  C4. In the relay a finished exchange always reaches the writer: whatever other requests, the
  writer goroutine, maintenance and the management plane do meanwhile (short of using this
  request's own reservation), a request that reserved and entered the history ends by saving its
  terminal exchange as \<open>queued\<close> and committing it without error, and leaves no reservation open.
\<close>

theorem relay_commit_succeeds:
  assumes "rn_log r = []" and "wd_writer (rn_shared r) = Some q" and "count_inv q" and "undisturbed i (rn_shared r)"
    and "CReserve n (Some i) True \<in> set (rn_log (ServeHTTP (relay_options marshal handlers) incoming r))"
  shows "(\<exists>q1. wd_writer (rn_shared (ServeHTTP (relay_options marshal handlers) incoming r)) = Some q1
        \<and> count_inv q1 \<and> i \<notin> open_set q1)
    \<and> (saves (rn_log (ServeHTTP (relay_options marshal handlers) incoming r)) = []
       \<or> (\<exists>before es x. rn_log (ServeHTTP (relay_options marshal handlers) incoming r)
            = before @ CSave x # evictions es @ [CCommit i x None, CCancel i, CRelease]
            \<and> IsTerminal (ex_state x) \<and> ex_persistence x = Some \<lparr>ps_state = ''queued'', ps_error = []\<rparr>))"
proof -
  have "writer_ok (rn_shared r)" using assms(2,3) by (simp add: writer_ok_def)
  from serve_settles [OF assms(1) this assms(4,5)] show ?thesis by (auto simp: settled_def)
qed

definition sample_writer :: writer where
  "sample_writer = Open_writer (sample_options\<lparr>op_queue_bytes := 2000000\<rparr>)"

definition sample_world :: world where
  "sample_world = \<lparr>wd_config = sample_config, wd_revision = 1, wd_memory = NewMemory 1,
     wd_writer = Some sample_writer,
     wd_bus = NewBus \<lparr>bl_replay_count = 5, bl_replay_bytes = 5, bl_subscriber_count = 5, bl_subscriber_bytes = 5\<rparr>,
     wd_clock = (\<lambda>n. wall_time (int n + 1)), wd_random = (\<lambda>_. Some (replicate 16 7)),
     wd_others = (\<lambda>n. if n = 3 then [OWriter (WReserve 5), OMemory OpClear, OWriter (WCancel 1)] else []), wd_calls = 0\<rparr>"

definition sample_relay :: "world run" where
  "sample_relay = \<lparr>rn_pipeline = \<lparr>pl_in_flight = 0, pl_admission_rejected = 0, pl_body_too_large = 0\<rparr>,
     rn_shared = sample_world, rn_writer = fresh_writer None, rn_log = []\<rparr>"

definition sample_handlers :: "string \<Rightarrow> (request \<Rightarrow> config_snapshot \<Rightarrow> mode_result \<times> go_error option) option" where
  "sample_handlers = (\<lambda>m. if m = ModeCapture then Some CaptureHandler_Handle else None)"

theorem relay_commit_succeeds_witness:
  "\<exists>q1. wd_writer (rn_shared (ServeHTTP (relay_options (\<lambda>_. Some 1) sample_handlers) (sample_incoming ''hi'') sample_relay)) = Some q1
     \<and> 0 \<notin> open_set q1"
proof -
  have q: "wd_writer (rn_shared sample_relay) = Some sample_writer" and c: "count_inv sample_writer"
    by (simp_all add: sample_relay_def sample_world_def sample_writer_def count_inv_open)
  have u: "undisturbed 0 (rn_shared sample_relay)"
    by (simp add: undisturbed_def sample_relay_def sample_world_def)
  have l: "rn_log sample_relay = []" by (simp add: sample_relay_def)
  let ?p = "relay_options (\<lambda>_. Some 1) sample_handlers"
  obtain r1 where r1: "do_admit (lim_concurrent (cs_limits (po_snapshot ?p (rn_shared sample_relay)))) sample_relay = (r1, True)"
      and w: "rn_shared r1 = sample_world"
    by (simp add: do_admit_def admit_def relay_options_def sample_relay_def sample_world_def
        NewConfigSnapshot_def sample_config_def Defaults_def)
  let ?n = "reservation_size (po_snapshot ?p (rn_shared sample_relay))"
  have "?n = 1114112"
    by (simp add: reservation_size_def reservationBytes_def relay_options_def sample_relay_def sample_world_def
        NewConfigSnapshot_def sample_config_def Defaults_def max_i64_def Let_def)
  then have "snd (Reserve sample_writer ?n) = Some 0"
    by (simp add: Reserve_def sample_writer_def Open_writer_def applyDefaults_def sample_options_def wrap_i64_def Let_def)
  then obtain q1 where "Reserve sample_writer ?n = (q1, Some 0)" by (cases "Reserve sample_writer ?n") simp
  moreover have "wd_writer (others (\<lambda>_. Some 1) sample_world) = Some sample_writer"
    by (simp add: others_def sample_world_def)
  ultimately have "repository_Reserve (\<lambda>_. Some 1) sample_world ?n
      = ((others (\<lambda>_. Some 1) sample_world)\<lparr>wd_writer := Some q1\<rparr>, Some 0, True)"
    by (simp add: repository_Reserve_def)
  then have "po_reserve ?p (rn_shared r1) ?n = ((others (\<lambda>_. Some 1) sample_world)\<lparr>wd_writer := Some q1\<rparr>, Some 0, True)"
    unfolding w by (simp add: relay_options_def)
  moreover have "po_reserving ?p" by (simp add: relay_options_def)
  ultimately obtain r2 where r2: "reservePersistence ?p (po_snapshot ?p (rn_shared sample_relay)) r1 = (r2, Some 0, True)"
    by (simp add: reservePersistence_def Let_def)
  note m = reservation_logged [OF r1 r2, of "sample_incoming ''hi''"]
  from relay_commit_succeeds [OF l q c u m] show ?thesis by blast
qed

text \<open>
  C37. The concurrency limit holds for requests running at the same time: in any interleaving the
  counter is the number of requests that were admitted and have not left, and it never exceeds
  the largest limit configured while they were admitted.
\<close>

theorem concurrent_requests_bounded:
  assumes "admissions bound pl past" and "1 \<le> bound"
  shows "pl_in_flight pl = int (card {t. past t = [CAdmit True]}) \<and> pl_in_flight pl \<le> bound
    \<and> (\<forall>limit. pl_in_flight pl < limit \<longrightarrow> snd (admit pl limit))"
  using admissions_count [OF assms] by (simp add: inside_def admit_def Let_def)

theorem concurrent_requests_bounded_witness:
  "\<exists>pl past. admissions 1 pl past \<and> past 0 = [CAdmit True] \<and> past 1 = [CAdmit False] \<and> pl_in_flight pl = 1 \<and> pl_in_flight pl \<le> 1"
proof -
  let ?p0 = "\<lparr>pl_in_flight = 0, pl_admission_rejected = 0, pl_body_too_large = 0\<rparr> :: pipeline"
  let ?p1 = "fst (admit ?p0 1)" and ?p2 = "fst (admit (fst (admit ?p0 1)) 1)"
  have s0: "admissions 1 ?p0 (\<lambda>_. [])" by (rule adm_start) simp
  have s1: "admissions 1 ?p1 ((\<lambda>_. [])(0 := [CAdmit True]))"
    by (rule adm_enter [OF s0, where t = 0 and limit = 1]) (simp_all add: admit_def)
  have s2: "admissions 1 ?p2 (((\<lambda>_. [])(0 := [CAdmit True]))(1 := [CAdmit False]))"
    by (rule adm_enter [OF s1, where t = 1 and limit = 1]) (simp_all add: admit_def)
  have "pl_in_flight ?p2 = 1" by (simp add: admit_def)
  moreover have "pl_in_flight ?p2 \<le> 1" using concurrent_requests_bounded [OF s2] by simp
  ultimately show ?thesis using s2 by (intro exI [of _ ?p2] exI) (rule conjI, assumption, simp)
qed

text \<open>
  A request makes exactly the calls the interleavings are made of: it is either refused, or
  admitted and later released, once and in this order, on every path of \<open>ServeHTTP\<close>.
\<close>

theorem request_admission_shape:
  assumes "rn_log r = []"
  shows "admission_calls (rn_log (ServeHTTP p incoming r)) \<in> {[CAdmit False], [CAdmit True, CRelease]}"
proof (cases rule: ServeHTTP_cases [of p r incoming])
  case (full r1)
  with do_admit_sel [OF full(1)] assms show ?thesis by simp
next
  case (unreserved r1 r2 res)
  note a = do_admit_sel [OF unreserved(1)] and b = reservePersistence_sel [OF unreserved(2)]
  show ?thesis using assms by (simp add: unreserved(3) a b)
next
  case (nameless r1 r2 r3 res err)
  note a = do_admit_sel [OF nameless(1)] and b = reservePersistence_sel [OF nameless(2)]
    and c = startExchange_failed [OF nameless(3)]
  show ?thesis using assms by (simp add: nameless(4) a b c split: option.split)
next
  case (serving ph)
  show ?thesis by (simp add: served_admission [OF serving assms])
qed

theorem request_admission_shape_witness:
  "admission_calls sample_log \<in> {[CAdmit False], [CAdmit True, CRelease]}"
  by (rule request_admission_shape [OF sample_run_sel(1)])

text \<open>
  The write callback only marks: for an exchange that is in the RAM history it changes nothing
  but its persistence status, evicts nothing, and leaves every other exchange as it was.
\<close>

theorem write_callback_marks:
  assumes "mem_inv m" and "Get m i = Some e"
  shows "snd (OnWrite m i result) = []
    \<and> Get (fst (OnWrite m i result)) i = Some (e\<lparr>ex_persistence := Some (persistence_of result)\<rparr>)
    \<and> (\<forall>j. j \<noteq> i \<longrightarrow> Get (fst (OnWrite m i result)) j = Get m j)"
  using OnWrite_present [OF assms] by simp

theorem write_callback_marks_witness:
  "\<exists>e. Get (fst (OnWrite (fst (Save (NewMemory 1) (sample_exchange ''a'' StateCompleted 1 2))) ''a'' None)) ''a'' = Some e
     \<and> ex_persistence e = Some \<lparr>ps_state = ''persisted'', ps_error = []\<rparr>"
proof -
  let ?e = "sample_exchange ''a'' StateCompleted 1 2"
  let ?m = "fst (Save (NewMemory 1) ?e)"
  have "mem_inv ?m" by (rule mem_inv_save [OF mem_inv_new])
  moreover have "Get ?m ''a'' = Some ?e" by code_simp
  ultimately have "Get (fst (OnWrite ?m ''a'' None)) ''a'' = Some (?e\<lparr>ex_persistence := Some (persistence_of None)\<rparr>)"
    using write_callback_marks by blast
  then show ?thesis by (simp add: persistence_of_def)
qed

end
