(* ===== verification/Go_Net.thy ===== *)
theory Go_Net
  imports Go_Text
begin

text \<open>
  What the program uses of Go's package \<open>net\<close>: \<open>SplitHostPort\<close> and \<open>ParseIP\<close> with the address
  classes. An address is its 16 bytes, an IPv4 address in its mapped form.
\<close>

definition last_index :: "char \<Rightarrow> string \<Rightarrow> nat option" where
  "last_index c s = (if c \<in> set s then Some (length s - 1 - length (takeWhile (\<lambda>d. d \<noteq> c) (rev s))) else None)"

definition first_index :: "char \<Rightarrow> string \<Rightarrow> nat option" where
  "first_index c s = (if c \<in> set s then Some (length (takeWhile (\<lambda>d. d \<noteq> c) s)) else None)"

section \<open>\<open>SplitHostPort\<close>\<close>

text \<open>\<open>None\<close> is the error; which of the five it is does not matter to the program.\<close>

definition split_host_port :: "string \<Rightarrow> (string \<times> string) option" where
  "split_host_port s =
     (case last_index (CHR '':'') s of
        None \<Rightarrow> None
      | Some i \<Rightarrow>
          if has_prefix ''['' s then
            (case first_index (CHR '']'') s of
               None \<Rightarrow> None
             | Some close \<Rightarrow>
                 if close + 1 \<noteq> i then None
                 else if CHR ''['' \<in> set (drop 1 s) \<or> CHR '']'' \<in> set (drop (close + 1) s) then None
                 else Some (drop 1 (take close s), drop (i + 1) s))
          else if CHR '':'' \<in> set (take i s) then None
          else if CHR ''['' \<in> set s \<or> CHR '']'' \<in> set s then None
          else Some (take i s, drop (i + 1) s))"

section \<open>\<open>ParseIP\<close>\<close>

definition is_hex_digit :: "char \<Rightarrow> bool" where
  "is_hex_digit c \<longleftrightarrow> is_digit c \<or> 97 \<le> code_of c \<and> code_of c \<le> 102 \<or> 65 \<le> code_of c \<and> code_of c \<le> 70"

definition hex_value :: "char \<Rightarrow> nat" where
  "hex_value c = (if is_digit c then code_of c - 48 else if code_of c \<ge> 97 then code_of c - 87 else code_of c - 55)"

definition parse_octet :: "string \<Rightarrow> nat option" where
  "parse_octet s = (case parse_digits s of
     None \<Rightarrow> None
   | Some n \<Rightarrow> if n > 255 \<or> (length s > 1 \<and> hd s = CHR ''0'') then None else Some n)"

definition parse_ipv4 :: "string \<Rightarrow> nat list option" where
  "parse_ipv4 s = (case split_on (CHR ''.'') s of
     [a, b, c, d] \<Rightarrow> (case (parse_octet a, parse_octet b, parse_octet c, parse_octet d) of
         (Some w, Some x, Some y, Some z) \<Rightarrow> Some [w, x, y, z]
       | _ \<Rightarrow> None)
   | _ \<Rightarrow> None)"

text \<open>
  The loop over the groups of an IPv6 address: \<open>groups\<close> may still follow, \<open>ip\<close> are the bytes so
  far, \<open>ellipsis\<close> the position of \<open>::\<close>.
\<close>

fun parse_groups :: "nat \<Rightarrow> nat list \<Rightarrow> nat option \<Rightarrow> string \<Rightarrow> (nat list \<times> nat option) option" where
  "parse_groups 0 ip ellipsis s = (if s = [] then Some (ip, ellipsis) else None)"
| "parse_groups (Suc groups) ip ellipsis s =
     (let digits = takeWhile is_hex_digit s; rest = dropWhile is_hex_digit s;
          acc = foldl (\<lambda>n c. 16 * n + hex_value c) 0 digits;
          ip1 = ip @ [acc div 256, acc mod 256]
      in if digits = [] \<or> length digits > 4 then None
         else case rest of
           [] \<Rightarrow> Some (ip1, ellipsis)
         | c # more_text \<Rightarrow>
             if c = CHR ''.'' then
               (if ellipsis = None \<and> length ip \<noteq> 12 \<or> length ip + 4 > 16 then None
                else case parse_ipv4 s of None \<Rightarrow> None | Some quad \<Rightarrow> Some (ip @ quad, ellipsis))
             else if c \<noteq> CHR '':'' then None
             else (case more_text of
                 [] \<Rightarrow> None
               | d # tail \<Rightarrow>
                   if d = CHR '':'' then
                     (if ellipsis \<noteq> None then None
                      else if tail = [] then Some (ip1, Some (length ip1))
                      else parse_groups groups ip1 (Some (length ip1)) tail)
                   else parse_groups groups ip1 ellipsis more_text))"

definition expand_ellipsis :: "nat list \<times> nat option \<Rightarrow> nat list option" where
  "expand_ellipsis parsed = (case parsed of (ip, ellipsis) \<Rightarrow>
     if length ip < 16 then
       (case ellipsis of
          None \<Rightarrow> None
        | Some at \<Rightarrow> Some (take at ip @ replicate (16 - length ip) 0 @ drop at ip))
     else if ellipsis \<noteq> None then None else Some ip)"

definition parse_ipv6 :: "string \<Rightarrow> nat list option" where
  "parse_ipv6 s =
     (if has_prefix ''::'' s then
        (if length s = 2 then Some (replicate 16 0)
         else Option.bind (parse_groups 8 [] (Some 0) (drop 2 s)) expand_ellipsis)
      else Option.bind (parse_groups 8 [] None s) expand_ellipsis)"

definition mapped_v4 :: "nat list \<Rightarrow> nat list" where
  "mapped_v4 quad = replicate 10 0 @ [255, 255] @ quad"

text \<open>\<open>net.ParseIP\<close>: an address with a zone is none.\<close>

definition parse_ip :: "string \<Rightarrow> nat list option" where
  "parse_ip s =
     (if CHR ''%'' \<in> set s then None
      else case filter (\<lambda>c. c = CHR ''.'' \<or> c = CHR '':'') s of
          [] \<Rightarrow> None
        | c # _ \<Rightarrow> if c = CHR ''.'' then map_option mapped_v4 (parse_ipv4 s) else parse_ipv6 s)"

definition to_v4 :: "nat list \<Rightarrow> nat list option" where
  "to_v4 ip = (if take 12 ip = replicate 10 0 @ [255, 255] then Some (drop 12 ip) else None)"

definition is_loopback :: "nat list \<Rightarrow> bool" where
  "is_loopback ip = (case to_v4 ip of
     Some quad \<Rightarrow> quad ! 0 = 127
   | None \<Rightarrow> ip = replicate 15 0 @ [1])"

definition is_unspecified :: "nat list \<Rightarrow> bool" where
  "is_unspecified ip \<longleftrightarrow> ip = mapped_v4 [0, 0, 0, 0] \<or> ip = replicate 16 0"

definition is_multicast :: "nat list \<Rightarrow> bool" where
  "is_multicast ip = (case to_v4 ip of
     Some quad \<Rightarrow> quad ! 0 div 16 = 14
   | None \<Rightarrow> ip ! 0 = 255)"

section \<open>Lemmas\<close>

lemma takeWhile_upto: "c \<notin> set s \<Longrightarrow> takeWhile (\<lambda>d. d \<noteq> c) (s @ c # t) = s"
  by (induction s) auto

lemma last_index_append: "c \<notin> set t \<Longrightarrow> last_index c (s @ c # t) = Some (length s)"
  using takeWhile_upto [of c "rev t" "rev s"] by (simp add: last_index_def)

lemma last_index_None [simp]: "c \<notin> set s \<Longrightarrow> last_index c s = None"
  by (simp add: last_index_def)

lemma first_index_append: "c \<notin> set s \<Longrightarrow> first_index c (s @ c # t) = Some (length s)"
  by (simp add: first_index_def takeWhile_upto)

text \<open>\<open>host:port\<close> and \<open>[host]:port\<close>, the two forms \<open>SplitHostPort\<close> takes apart.\<close>

lemma split_host_port_plain:
  assumes "set host \<inter> set '':[]'' = {}" and "set port \<inter> set '':[]'' = {}"
  shows "split_host_port (host @ CHR '':'' # port) = Some (host, port)"
proof -
  have i: "last_index (CHR '':'') (host @ CHR '':'' # port) = Some (length host)"
    by (rule last_index_append) (use assms(2) in auto)
  have "\<not> has_prefix ''['' (host @ CHR '':'' # port)"
    using assms(1) by (cases host) auto
  with i assms show ?thesis by (auto simp: split_host_port_def)
qed

lemma split_host_port_brackets:
  assumes "set host \<inter> set ''[]'' = {}" and "set port \<inter> set '':[]'' = {}"
  shows "split_host_port (CHR ''['' # host @ CHR '']'' # CHR '':'' # port) = Some (host, port)"
proof -
  have i: "last_index (CHR '':'') (CHR ''['' # host @ CHR '']'' # CHR '':'' # port) = Some (length host + 2)"
    using last_index_append [of "CHR '':''" port "CHR ''['' # host @ '']''"] assms(2)
    by auto
  have j: "first_index (CHR '']'') (CHR ''['' # host @ CHR '']'' # CHR '':'' # port) = Some (length host + 1)"
    using first_index_append [of "CHR '']''" "CHR ''['' # host"] assms(1) by auto
  from i j assms show ?thesis by (auto simp: split_host_port_def)
qed


end
