(* ===== verification/Go_Url.thy ===== *)
theory Go_Url
  imports Go_Net
begin

text \<open>
  What the program uses of Go's package \<open>net/url\<close>: \<open>Parse\<close>, \<open>EscapedPath\<close>, \<open>PathUnescape\<close>,
  \<open>Hostname\<close>, \<open>Port\<close> and \<open>String\<close> for a URL without user information. A URL keeps of its user
  information only that it is there.
\<close>

record url =
  url_scheme :: string
  url_opaque :: string
  url_user :: bool
  url_host :: string
  url_path :: string
  url_raw_path :: string
  url_omit_host :: bool
  url_force_query :: bool
  url_raw_query :: string
  url_fragment :: string

section \<open>Escaping\<close>

definition is_letter :: "char \<Rightarrow> bool" where
  "is_letter c \<longleftrightarrow> is_upper c \<or> is_lower c"

definition quote_chars :: string where
  "quote_chars = [CHR 34, CHR 39]"

text \<open>\<open>shouldEscape\<close> in the modes \<open>encodePath\<close> and \<open>encodeHost\<close>.\<close>

definition escape_in_path :: "char \<Rightarrow> bool" where
  "escape_in_path c \<longleftrightarrow> \<not> (is_letter c \<or> is_digit c \<or> c \<in> set ''-_.~$&+,/:;=@'')"

definition escape_in_host :: "char \<Rightarrow> bool" where
  "escape_in_host c \<longleftrightarrow> \<not> (is_letter c \<or> is_digit c \<or> c \<in> set ''-_.~!$&()*+,;=:[]<>'' \<or> c \<in> set quote_chars)"

lemma escape_code [code]:
  "escape_in_path c = (if is_letter c then False else if is_digit c then False else c \<notin> set ''-_.~$&+,/:;=@'')"
  "escape_in_host c = (if is_letter c then False else if is_digit c then False
     else c \<notin> set ''-_.~!$&()*+,;=:[]<>'' \<and> c \<notin> set quote_chars)"
  by (simp_all add: escape_in_path_def escape_in_host_def)

definition upper_hex :: "nat \<Rightarrow> char" where
  "upper_hex d = (if d < 10 then char_of (48 + d) else char_of (55 + d))"

definition escape_with :: "(char \<Rightarrow> bool) \<Rightarrow> string \<Rightarrow> string" where
  "escape_with esc s =
     concat (map (\<lambda>c. if esc c then [CHR ''%'', upper_hex (code_of c div 16), upper_hex (code_of c mod 16)] else [c]) s)"

text \<open>
  \<open>unescape\<close>: \<open>literal\<close> says which plain bytes, \<open>encoded\<close> which encoded bytes the mode accepts.
\<close>

fun unescape_with :: "(char \<Rightarrow> bool) \<Rightarrow> (char \<Rightarrow> bool) \<Rightarrow> string \<Rightarrow> string option" where
  "unescape_with literal encoded [] = Some []"
| "unescape_with literal encoded (c # s) =
     (if c = CHR ''%'' then
        (case s of
           a # b # tail \<Rightarrow>
             let d = char_of (16 * hex_value a + hex_value b)
             in if is_hex_digit a \<and> is_hex_digit b \<and> encoded d
                then map_option (\<lambda>u. d # u) (unescape_with literal encoded tail) else None
         | _ \<Rightarrow> None)
      else if literal c then map_option (\<lambda>u. c # u) (unescape_with literal encoded s) else None)"

declare unescape_with.simps [simp del]

lemma unescape_steps [simp]:
  "unescape_with l e [] = Some []"
  "c \<noteq> CHR ''%'' \<Longrightarrow> unescape_with l e (c # s) = (if l c then map_option (\<lambda>u. c # u) (unescape_with l e s) else None)"
  "unescape_with l e (CHR ''%'' # a # b # s) =
     (if is_hex_digit a \<and> is_hex_digit b \<and> e (char_of (16 * hex_value a + hex_value b))
      then map_option (\<lambda>u. char_of (16 * hex_value a + hex_value b) # u) (unescape_with l e s) else None)"
  "unescape_with l e [CHR ''%'', a] = None" "unescape_with l e [CHR ''%''] = None"
  by (simp_all add: unescape_with.simps Let_def)

text \<open>The modes of a path and of a path segment decode alike; a host encodes only non-ASCII bytes and \<open>%\<close>.\<close>

definition path_unescape :: "string \<Rightarrow> string option" where
  "path_unescape = unescape_with (\<lambda>_. True) (\<lambda>_. True)"

definition host_unescape :: "string \<Rightarrow> string option" where
  "host_unescape = unescape_with (\<lambda>c. high_byte c \<or> \<not> escape_in_host c) (\<lambda>c. high_byte c \<or> c = CHR ''%'')"

definition zone_unescape :: "string \<Rightarrow> string option" where
  "zone_unescape = unescape_with (\<lambda>c. high_byte c \<or> \<not> escape_in_host c)
     (\<lambda>c. c = CHR ''%'' \<or> c = CHR '' '' \<or> \<not> escape_in_host c)"

definition valid_encoded :: "string \<Rightarrow> bool" where
  "valid_encoded s \<longleftrightarrow> list_all (\<lambda>c. c \<in> set ''!$&()*+,;=:@[]%'' \<or> code_of c = 39 \<or> \<not> escape_in_path c) s"

lemma valid_encoded_code [code]:
  "valid_encoded s = list_all (\<lambda>c. if \<not> escape_in_path c then True else c \<in> set ''!$&()*+,;=:@[]%'' \<or> code_of c = 39) s"
proof -
  have "(\<lambda>c. if \<not> escape_in_path c then True else c \<in> set ''!$&()*+,;=:@[]%'' \<or> code_of c = 39)
      = (\<lambda>c. c \<in> set ''!$&()*+,;=:@[]%'' \<or> code_of c = 39 \<or> \<not> escape_in_path c)"
    by (rule ext) argo
  then show ?thesis by (simp only: valid_encoded_def)
qed

definition EscapedPath :: "url \<Rightarrow> string" where
  "EscapedPath u =
     (if url_raw_path u \<noteq> [] \<and> valid_encoded (url_raw_path u) \<and> path_unescape (url_raw_path u) = Some (url_path u)
      then url_raw_path u
      else if url_path u = ''*'' then ''*''
      else escape_with escape_in_path (url_path u))"

text \<open>\<open>URL.String\<close> of a URL without user information and fragment.\<close>

definition url_string :: "url \<Rightarrow> string" where
  "url_string u =
     (if url_scheme u \<noteq> [] then url_scheme u @ '':'' else [])
     @ (if url_opaque u \<noteq> [] then url_opaque u
        else
          (if (url_scheme u \<noteq> [] \<or> url_host u \<noteq> []) \<and> \<not> (url_omit_host u \<and> url_host u = [])
               \<and> (url_host u \<noteq> [] \<or> url_path u \<noteq> [])
           then ''//'' @ escape_with escape_in_host (url_host u) else [])
          @ (let path = EscapedPath u
             in (if path \<noteq> [] \<and> hd path \<noteq> CHR ''/'' \<and> url_host u \<noteq> [] then ''/'' else []) @ path))
     @ (if url_force_query u \<or> url_raw_query u \<noteq> [] then ''?'' @ url_raw_query u else [])"

section \<open>Parsing\<close>

definition scheme_byte :: "char \<Rightarrow> bool" where
  "scheme_byte c \<longleftrightarrow> is_letter c \<or> is_digit c \<or> c \<in> set ''+-.''"

lemma scheme_byte_code [code]:
  "scheme_byte c = (if is_letter c then True else if is_digit c then True else c \<in> set ''+-.'')"
  by (simp add: scheme_byte_def)

text \<open>\<open>getScheme\<close>: the scheme, empty when there is none, and what follows it.\<close>

definition get_scheme :: "string \<Rightarrow> (string \<times> string) option" where
  "get_scheme s =
     (let p = takeWhile scheme_byte s; r = dropWhile scheme_byte s
      in if has_prefix '':'' r then
           (if p = [] then None else if is_letter (hd p) then Some (p, drop 1 r) else Some ([], s))
         else Some ([], s))"

definition valid_optional_port :: "string \<Rightarrow> bool" where
  "valid_optional_port s \<longleftrightarrow> s = [] \<or> hd s = CHR '':'' \<and> list_all is_digit (tl s)"

fun find_zone :: "string \<Rightarrow> (string \<times> string) option" where
  "find_zone [] = None"
| "find_zone (c # s) = (if has_prefix ''%25'' (c # s) then Some ([], c # s)
     else map_option (\<lambda>(a, b). (c # a, b)) (find_zone s))"

definition ipv6_literal :: "string \<Rightarrow> bool" where
  "ipv6_literal s =
     (has_prefix '':'' (filter (\<lambda>c. c \<in> set ''.:%'') s)
      \<and> (case cut_on (CHR ''%'') s of
           None \<Rightarrow> parse_ipv6 s \<noteq> None
         | Some (addr, zone) \<Rightarrow> parse_ipv6 addr \<noteq> None \<and> zone \<noteq> []))"

text \<open>
  \<open>parseHost\<close> of Go 1.26: brackets only around an IPv6 address, at most one colon otherwise.
\<close>

definition parse_host :: "string \<Rightarrow> string option" where
  "parse_host h =
     (if CHR ''['' \<in> set h then
        (case (has_prefix ''['' h, last_index (CHR '']'') h) of
           (True, Some close) \<Rightarrow>
             let port = drop (close + 1) h; name = drop 1 (take close h);
                 decoded = (case find_zone name of
                     None \<Rightarrow> host_unescape name
                   | Some (addr, zone) \<Rightarrow> Option.bind (host_unescape addr) (\<lambda>a. map_option (\<lambda>z. a @ z) (zone_unescape zone)))
             in if \<not> valid_optional_port port then None
                else (case decoded of
                    None \<Rightarrow> None
                  | Some n \<Rightarrow> if ipv6_literal n then Some (''['' @ n @ '']'' @ port) else None)
         | _ \<Rightarrow> None)
      else if valid_optional_port (dropWhile (\<lambda>c. c \<noteq> CHR '':'') h) then host_unescape h
      else None)"

definition userinfo_byte :: "char \<Rightarrow> bool" where
  "userinfo_byte c \<longleftrightarrow> is_letter c \<or> is_digit c \<or> c \<in> set ''-._:~!$&()*+,;=%@'' \<or> code_of c = 39"

text \<open>\<open>parseAuthority\<close>: whether there is user information, and the host.\<close>

definition parse_authority :: "string \<Rightarrow> (bool \<times> string) option" where
  "parse_authority a =
     (case last_index (CHR ''@'') a of
        None \<Rightarrow> map_option (\<lambda>h. (False, h)) (parse_host a)
      | Some i \<Rightarrow>
          if list_all userinfo_byte (take i a) \<and> path_unescape (take i a) \<noteq> None
          then map_option (\<lambda>h. (True, h)) (parse_host (drop (i + 1) a)) else None)"

definition set_path :: "url \<Rightarrow> string \<Rightarrow> url option" where
  "set_path u p = map_option (\<lambda>path. u\<lparr>url_path := path,
     url_raw_path := (if p = escape_with escape_in_path path then [] else p)\<rparr>) (path_unescape p)"

definition blank_url :: url where
  "blank_url = \<lparr>url_scheme = [], url_opaque = [], url_user = False, url_host = [], url_path = [],
     url_raw_path = [], url_omit_host = False, url_force_query = False, url_raw_query = [], url_fragment = []\<rparr>"

definition parse_hierarchy :: "url \<Rightarrow> string \<Rightarrow> url option" where
  "parse_hierarchy u rest =
     (if \<not> has_prefix ''/'' rest \<and> url_scheme u \<noteq> [] then Some (u\<lparr>url_opaque := rest\<rparr>)
      else if \<not> has_prefix ''/'' rest \<and> CHR '':'' \<in> set (takeWhile (\<lambda>c. c \<noteq> CHR ''/'') rest) then None
      else if has_prefix ''//'' rest \<and> (url_scheme u \<noteq> [] \<or> \<not> has_prefix ''///'' rest) then
        (let authority = takeWhile (\<lambda>c. c \<noteq> CHR ''/'') (drop 2 rest);
             path = dropWhile (\<lambda>c. c \<noteq> CHR ''/'') (drop 2 rest)
         in case parse_authority authority of
              None \<Rightarrow> None
            | Some (user, host) \<Rightarrow> set_path (u\<lparr>url_user := user, url_host := host\<rparr>) path)
      else set_path (u\<lparr>url_omit_host := (url_scheme u \<noteq> [] \<and> has_prefix ''/'' rest)\<rparr>) rest)"

definition parse_reference :: "string \<Rightarrow> url option" where
  "parse_reference s =
     (if \<not> list_all no_control s then None
      else if s = ''*'' then Some (blank_url\<lparr>url_path := ''*''\<rparr>)
      else case get_scheme s of
          None \<Rightarrow> None
        | Some (scheme, rest) \<Rightarrow>
            let u = blank_url\<lparr>url_scheme := to_lower scheme\<rparr>
            in if has_suffix ''?'' rest \<and> length (filter (\<lambda>c. c = CHR ''?'') rest) = 1
               then parse_hierarchy (u\<lparr>url_force_query := True\<rparr>) (butlast rest)
               else (case cut_on (CHR ''?'') rest of
                   None \<Rightarrow> parse_hierarchy u rest
                 | Some (front, query) \<Rightarrow> parse_hierarchy (u\<lparr>url_raw_query := query\<rparr>) front))"

text \<open>\<open>url.Parse\<close>; \<open>None\<close> is the error.\<close>

definition url_parse :: "string \<Rightarrow> url option" where
  "url_parse s =
     (case cut_on (CHR ''#'') s of
        None \<Rightarrow> parse_reference s
      | Some (front, fragment) \<Rightarrow>
          Option.bind (parse_reference front)
            (\<lambda>u. map_option (\<lambda>f. u\<lparr>url_fragment := f\<rparr>) (path_unescape fragment)))"

text \<open>\<open>URL.Hostname\<close> and \<open>URL.Port\<close>.\<close>

definition host_and_port :: "url \<Rightarrow> string \<times> string" where
  "host_and_port u =
     (let h = url_host u;
          (host, port) = (case last_index (CHR '':'') h of
              None \<Rightarrow> (h, [])
            | Some i \<Rightarrow> if valid_optional_port (drop i h) then (take i h, drop (i + 1) h) else (h, []))
      in (if has_prefix ''['' host \<and> has_suffix '']'' host then butlast (tl host) else host, port))"

end
