(* ===== verification/Proxy_Request.thy ===== *)
theory Proxy_Request
  imports Go_Url Exchange_Model
begin

text \<open>
  The request the proxy mode sends upstream: \<open>internal/proxy/url.go\<close>, \<open>internal/proxy/headers.go\<close>
  and \<open>buildRequest\<close> of \<open>internal/proxy/handler.go\<close>.
\<close>

section \<open>The upstream URL\<close>

definition joinEscapedPath :: "string \<Rightarrow> string \<Rightarrow> string" where
  "joinEscapedPath prefix path =
     (if prefix = [] \<or> prefix = ''/'' then path
      else if has_suffix ''/'' prefix then prefix @ trim_prefix ''/'' path
      else prefix @ ''/'' @ trim_prefix ''/'' path)"

definition composeURL :: "string \<Rightarrow> string \<Rightarrow> string \<Rightarrow> go_error + url" where
  "composeURL target incomingEscapedPath rawQuery =
     (case url_parse target of
        None \<Rightarrow> Inl (Plain ''parse upstream URL'')
      | Some destination \<Rightarrow>
          if \<not> equal_fold (url_scheme destination) ''http'' \<and> \<not> equal_fold (url_scheme destination) ''https''
          then Inl (Plain ''upstream scheme must be http or https'')
          else if url_host destination = [] then Inl (Plain ''upstream authority is required'')
          else if url_user destination \<or> url_fragment destination \<noteq> [] \<or> url_raw_query destination \<noteq> [] \<or> url_force_query destination
          then Inl (Plain ''upstream must not contain userinfo, fragment, or query'')
          else
            let incoming = (if incomingEscapedPath = [] then ''/'' else incomingEscapedPath)
            in if \<not> has_prefix ''/'' incoming then Inl (Plain ''incoming path must be absolute'')
               else
                 let escapedPath = joinEscapedPath (EscapedPath (destination\<lparr>url_scheme := to_lower (url_scheme destination)\<rparr>)) incoming
                 in case path_unescape escapedPath of
                      None \<Rightarrow> Inl (Plain ''incoming path has invalid escaping'')
                    | Some path \<Rightarrow> Inr (destination\<lparr>url_scheme := to_lower (url_scheme destination),
                        url_path := path, url_raw_path := escapedPath, url_raw_query := rawQuery, url_force_query := False\<rparr>))"

section \<open>Headers\<close>

definition hopByHopHeaders :: "string list" where
  "hopByHopHeaders = [''Connection'', ''Proxy-Connection'', ''Keep-Alive'', ''Proxy-Authenticate'',
     ''Proxy-Authorization'', ''TE'', ''Trailer'', ''Transfer-Encoding'', ''Upgrade'']"

text \<open>The names a \<open>Connection\<close> field lists; the loop reads the field before anything is deleted.\<close>

definition removeHopByHop :: "header \<Rightarrow> header" where
  "removeHopByHop headers =
     foldl hdr_del
       (foldl (\<lambda>h value. foldl (\<lambda>h name. hdr_del h (trim_space name)) h (split_on (CHR '','') value))
          headers (hdr_values headers ''Connection''))
       hopByHopHeaders"

definition hasUpgrade :: "header \<Rightarrow> bool" where
  "hasUpgrade headers \<longleftrightarrow> hdr_get headers ''Upgrade'' \<noteq> []
     \<or> list_ex (\<lambda>value. list_ex (\<lambda>token. equal_fold (trim_space token) ''upgrade'') (split_on (CHR '','') value))
         (hdr_values headers ''Connection'')"

definition peerHost :: "string \<Rightarrow> string" where
  "peerHost address = (case split_host_port address of
     Some (host, port) \<Rightarrow> host
   | None \<Rightarrow> if parse_ip address \<noteq> None then address else [])"

definition setForwardingHeaders :: "header \<Rightarrow> string \<Rightarrow> string \<Rightarrow> string \<Rightarrow> header" where
  "setForwardingHeaders headers remoteAddress originalHost scheme =
     (let h0 = foldl hdr_del headers [''Forwarded'', ''X-Forwarded-For'', ''X-Forwarded-Host'', ''X-Forwarded-Proto''];
          host = peerHost remoteAddress;
          h1 = (if host \<noteq> [] then hdr_set h0 ''X-Forwarded-For'' host else h0);
          h2 = (if originalHost \<noteq> [] then hdr_set h1 ''X-Forwarded-Host'' originalHost else h1)
      in if scheme = ''http'' \<or> scheme = ''https'' then hdr_set h2 ''X-Forwarded-Proto'' scheme else h2)"

section \<open>\<open>buildRequest\<close>\<close>

record upstream_request =
  ur_method :: string
  ur_url :: url
  ur_host :: string
  ur_header :: header
  ur_content_length :: int
  ur_body :: bytes

text \<open>
  \<open>http.NewRequestWithContext\<close>: an empty method is \<open>GET\<close>, another one must be a token; the URL
  is parsed again and an empty port dropped from its host.
\<close>

definition new_request :: "string \<Rightarrow> string \<Rightarrow> (string \<times> url) option" where
  "new_request method0 destination =
     (let method = (if method0 = [] then ''GET'' else method0)
      in if \<not> list_all token_byte method then None
         else map_option (\<lambda>u. (method, u\<lparr>url_host := (if has_suffix '':'' (url_host u) then butlast (url_host u) else url_host u)\<rparr>))
                (url_parse destination))"

definition buildRequest :: "string \<Rightarrow> request \<Rightarrow> go_error + upstream_request" where
  "buildRequest destination incoming =
     (case new_request (rq_method incoming) destination of
        None \<Rightarrow> Inl (Plain ''new request'')
      | Some (method, u) \<Rightarrow>
          let h0 = clone_headers (rq_headers incoming);
              h1 = removeHopByHop h0;
              h2 = hdr_del h1 ''Content-Length''
          in Inr \<lparr>ur_method = method, ur_url = u, ur_host = url_host u,
               ur_header = setForwardingHeaders h2 (rq_remote_address incoming) (rq_host incoming) (rq_scheme incoming),
               ur_content_length = int (length (rq_body incoming)), ur_body = rq_body incoming\<rparr>)"

section \<open>Removing the hop-by-hop fields\<close>

definition connection_tokens :: "header \<Rightarrow> string list" where
  "connection_tokens h = concat (map (\<lambda>value. map trim_space (split_on (CHR '','') value)) (hdr_values h ''Connection''))"

definition hop_by_hop :: "header \<Rightarrow> string \<Rightarrow> bool" where
  "hop_by_hop h n \<longleftrightarrow> n \<in> canonical_key ` (set (connection_tokens h) \<union> set hopByHopHeaders)"

lemma foldl_hdr_del: "foldl hdr_del h ks = filter (\<lambda>x. fst x \<notin> canonical_key ` set ks) h"
  by (induction ks arbitrary: h) (simp_all add: hdr_del_def split_beta)

lemma foldl_concat: "foldl (\<lambda>a x. foldl f a (g x)) a xs = foldl f a (concat (map g xs))"
  by (induction xs arbitrary: a) simp_all

lemma foldl_map_fun: "foldl (\<lambda>a x. f a (g x)) a xs = foldl f a (map g xs)"
  by (induction xs arbitrary: a) simp_all

lemma removeHopByHop_filter: "removeHopByHop h = filter (\<lambda>x. \<not> hop_by_hop h (fst x)) h"
proof -
  have "removeHopByHop h = foldl hdr_del h (connection_tokens h @ hopByHopHeaders)"
    by (simp add: removeHopByHop_def connection_tokens_def foldl_map_fun [of hdr_del trim_space]
        foldl_concat [of hdr_del "\<lambda>value. map trim_space (split_on (CHR '','') value)"])
  then show ?thesis by (simp add: foldl_hdr_del hop_by_hop_def image_Un)
qed

lemma map_of_filter_name: "map_of (filter (\<lambda>x. P (fst x)) h) n = (if P n then map_of h n else None)"
  by (induction h) auto

lemma map_of_removeHopByHop: "map_of (removeHopByHop h) n = (if hop_by_hop h n then None else map_of h n)"
  using map_of_filter_name [of "\<lambda>n. \<not> hop_by_hop h n" h n] by (simp add: removeHopByHop_filter)

lemma canonical_header_filter [simp]: "canonical_header h \<Longrightarrow> canonical_header (filter (\<lambda>x. P (fst x)) h)"
  by (auto simp: canonical_header_def list_all_iff distinct_map_filter)

lemma canonical_header_removeHopByHop [simp]: "canonical_header h \<Longrightarrow> canonical_header (removeHopByHop h)"
  using canonical_header_filter [of h "\<lambda>n. \<not> hop_by_hop h n"] by (simp add: removeHopByHop_filter)

lemma map_of_setForwardingHeaders:
  "map_of (setForwardingHeaders h remote host scheme) n =
     (if n = ''X-Forwarded-For'' then (if peerHost remote = [] then None else Some [peerHost remote])
      else if n = ''X-Forwarded-Host'' then (if host = [] then None else Some [host])
      else if n = ''X-Forwarded-Proto'' then (if scheme = ''http'' \<or> scheme = ''https'' then Some [scheme] else None)
      else if n = ''Forwarded'' then None
      else map_of h n)"
proof -
  have k: "canonical_key ''Forwarded'' = ''Forwarded'' \<and> canonical_key ''X-Forwarded-For'' = ''X-Forwarded-For''
    \<and> canonical_key ''X-Forwarded-Host'' = ''X-Forwarded-Host'' \<and> canonical_key ''X-Forwarded-Proto'' = ''X-Forwarded-Proto''"
    by code_simp
  show ?thesis
    by (simp add: setForwardingHeaders_def Let_def map_of_hdr_set map_of_hdr_del k)
qed

section \<open>The path is forwarded byte for byte\<close>

lemma unescape_append:
  "unescape_with l e s = Some u \<Longrightarrow> unescape_with l e t = Some v \<Longrightarrow> unescape_with l e (s @ t) = Some (u @ v)"
proof (induction l e s arbitrary: u rule: unescape_with.induct)
  case (2 l e c s)
  show ?case
  proof (cases "c = CHR ''%''")
    case True
    with "2.prems"(1) obtain a b tail where s: "s = a # b # tail"
      by (cases s; cases "tl s") auto
    with 2 True show ?thesis by (auto split: if_splits)
  next
    case False
    with 2 show ?thesis by (auto split: if_splits)
  qed
qed simp

lemma path_unescape_append: "path_unescape s = Some u \<Longrightarrow> path_unescape t = Some v \<Longrightarrow> path_unescape (s @ t) = Some (u @ v)"
  unfolding path_unescape_def by (rule unescape_append)

lemma path_unescape_slash: "path_unescape (CHR ''/'' # s) = map_option (\<lambda>u. CHR ''/'' # u) (path_unescape s)"
  by (simp add: path_unescape_def)

lemma set_path_escaped:
  assumes "set_path u p = Some v" and "valid_encoded p" and "p = [] \<or> hd p = CHR ''/''"
  shows "EscapedPath v = p"
proof -
  from assms(1) obtain path where path: "path_unescape p = Some path"
    and v: "v = u\<lparr>url_path := path, url_raw_path := (if p = escape_with escape_in_path path then [] else p)\<rparr>"
    by (auto simp: set_path_def)
  have "path \<noteq> ''*''"
    using assms(3) path by (cases p) (auto simp: path_unescape_def)
  then show ?thesis
    using assms(2) path by (auto simp: v EscapedPath_def escape_with_def path_unescape_def)
qed

lemma valid_encoded_append [simp]: "valid_encoded (a @ b) \<longleftrightarrow> valid_encoded a \<and> valid_encoded b"
  by (simp add: valid_encoded_def)

lemma valid_encoded_slash [simp]: "valid_encoded ''/''"
  by code_simp

lemma valid_encoded_Cons [simp]: "valid_encoded (CHR ''/'' # t) \<longleftrightarrow> valid_encoded t"
  using valid_encoded_append [of "''/''" t] by simp

lemma slash_prefix: "has_prefix ''/'' p \<longleftrightarrow> (\<exists>t. p = ''/'' @ t)"
  by (simp add: has_prefix_append)

lemma joinEscapedPath_slash:
  "joinEscapedPath a (''/'' @ t) =
     (if a = [] then ''/'' @ t else if has_suffix ''/'' a then a @ t else a @ ''/'' @ t)"
  using trim_prefix_append [of "''/''" t] by (auto simp: joinEscapedPath_def has_suffix_append)

lemma joinEscapedPath_absolute:
  "a = [] \<or> hd a = CHR ''/'' \<Longrightarrow> joinEscapedPath a (''/'' @ t) \<noteq> [] \<and> hd (joinEscapedPath a (''/'' @ t)) = CHR ''/''"
  unfolding joinEscapedPath_slash by (auto simp: has_suffix_append)

lemma valid_encoded_join:
  "valid_encoded a \<Longrightarrow> valid_encoded (''/'' @ t) \<Longrightarrow> valid_encoded (joinEscapedPath a (''/'' @ t))"
  unfolding joinEscapedPath_slash valid_encoded_append by simp

lemma path_unescape_join:
  assumes "path_unescape a \<noteq> None" and "path_unescape t \<noteq> None"
  shows "path_unescape (joinEscapedPath a (''/'' @ t)) \<noteq> None"
proof -
  from assms obtain u v where u: "path_unescape a = Some u" and v: "path_unescape t = Some v" by blast
  have s: "path_unescape (''/'' @ t) = Some (''/'' @ v)" using v by (simp add: path_unescape_slash)
  show ?thesis
    unfolding joinEscapedPath_slash using path_unescape_append [OF u v] path_unescape_append [OF u s] s by simp
qed

text \<open>The authorities the next lemmas are about: a name and perhaps a port, no literal address.\<close>

definition name_byte :: "char \<Rightarrow> bool" where
  "name_byte c \<longleftrightarrow> is_letter c \<or> is_digit c \<or> c = CHR ''-'' \<or> c = CHR ''.''"

definition plain_authority :: "string \<Rightarrow> bool" where
  "plain_authority host \<longleftrightarrow>
     (let name = takeWhile (\<lambda>c. c \<noteq> CHR '':'') host; port = drop (length name + 1) host
      in name \<noteq> [] \<and> list_all name_byte name \<and> list_all is_digit port \<and> (CHR '':'' \<in> set host \<longrightarrow> port \<noteq> []))"

lemma name_byte_code: "name_byte c \<Longrightarrow>
    code_of c \<in> {45, 46} \<union> {48..57} \<union> {65..90} \<union> {97..122}"
  by (auto simp: name_byte_def is_letter_def is_upper_def is_lower_def is_digit_def code_of_def)

lemma name_byte_literal: "name_byte c \<or> c = CHR '':'' \<Longrightarrow> \<not> escape_in_host c"
  by (auto simp: name_byte_def escape_in_host_def)

lemma plain_authority_parts:
  assumes "plain_authority host"
  obtains name port where "host = name @ port" and "list_all name_byte name" and "name \<noteq> []"
    and "port = [] \<or> (\<exists>d. port = CHR '':'' # d \<and> d \<noteq> [] \<and> list_all is_digit d)"
proof -
  define name where "name = takeWhile (\<lambda>c. c \<noteq> CHR '':'') host"
  define port where "port = dropWhile (\<lambda>c. c \<noteq> CHR '':'') host"
  have n: "name \<noteq> []" "list_all name_byte name" and d: "list_all is_digit (drop (length name + 1) host)"
    "CHR '':'' \<in> set host \<Longrightarrow> drop (length name + 1) host \<noteq> []"
    using assms by (auto simp: plain_authority_def Let_def name_def)
  have h: "host = name @ port" by (simp add: name_def port_def)
  have "port = [] \<or> (\<exists>d. port = CHR '':'' # d \<and> d \<noteq> [] \<and> list_all is_digit d)"
  proof (cases port)
    case (Cons c cs)
    then have "c = CHR '':''" using hd_dropWhile [of "\<lambda>c. c \<noteq> CHR '':''" host] by (auto simp: port_def)
    with d h Cons show ?thesis by auto
  qed simp
  with that h n show thesis by blast
qed

lemma host_byte_code:
  assumes "plain_authority host" and "c \<in> set host"
  shows "name_byte c \<or> c = CHR '':''"
proof -
  from assms(1) obtain name port where "host = name @ port" "list_all name_byte name"
    "port = [] \<or> (\<exists>d. port = CHR '':'' # d \<and> d \<noteq> [] \<and> list_all is_digit d)"
    by (rule plain_authority_parts)
  with assms(2) show ?thesis by (auto simp: list_all_iff name_byte_def)
qed

lemma host_avoids:
  assumes "plain_authority host" and "c \<in> set host"
  shows "c \<notin> set ''#?/@[]%''" and "no_control c"
  using host_byte_code [OF assms] by (auto dest!: name_byte_code simp: char_eq_code code_of_def no_control_def)

lemma path_avoids:
  assumes "valid_encoded p" and "c \<in> set p"
  shows "c \<notin> set ''#?''" and "no_control c"
proof -
  have v: "c \<in> set ''!$&()*+,;=:@[]%'' \<or> code_of c = 39 \<or> \<not> escape_in_path c"
    using assms by (simp add: valid_encoded_def list_all_iff)
  then have "valid_encoded [c]" by (simp add: valid_encoded_def)
  moreover have "\<not> valid_encoded ''#''" "\<not> valid_encoded ''?''" by code_simp+
  ultimately show "c \<notin> set ''#?''" by auto
  have "list_all no_control ''!$&()*+,;=:@[]%''" "list_all no_control ''-_.~$&+,/:;=@''" by code_simp+
  then have lists: "no_control c" if "c \<in> set ''!$&()*+,;=:@[]%'' \<or> c \<in> set ''-_.~$&+,/:;=@''"
    using that unfolding list_all_iff by blast
  from v show "no_control c"
  proof (elim disjE)
    assume "\<not> escape_in_path c"
    then have "is_letter c \<or> is_digit c \<or> c \<in> set ''-_.~$&+,/:;=@''" unfolding escape_in_path_def by blast
    then show ?thesis
      using lists by (elim disjE) (auto simp: no_control_def is_letter_def is_upper_def is_lower_def is_digit_def)
  qed (use lists in \<open>auto simp: no_control_def\<close>)
qed

lemma unescape_literal: "list_all (\<lambda>c. c \<noteq> CHR ''%'' \<and> l c) s \<Longrightarrow> unescape_with l e s = Some s"
  by (induction s) simp_all

lemma parse_host_plain:
  assumes "plain_authority host"
  shows "parse_host host = Some host"
proof -
  obtain name port where h: "host = name @ port" and n: "list_all name_byte name"
    and p: "port = [] \<or> (\<exists>d. port = CHR '':'' # d \<and> d \<noteq> [] \<and> list_all is_digit d)"
    using assms by (rule plain_authority_parts)
  have "\<not> name_byte CHR '':''" by code_simp
  then have "CHR '':'' \<notin> set name" using n by (auto simp: list_all_iff)
  then have "dropWhile (\<lambda>c. c \<noteq> CHR '':'') host = dropWhile (\<lambda>c. c \<noteq> CHR '':'') port"
    unfolding h by (intro dropWhile_append2) auto
  then have "dropWhile (\<lambda>c. c \<noteq> CHR '':'') host = port"
    using p by auto
  moreover have "valid_optional_port port" using p by (auto simp: valid_optional_port_def)
  moreover have "CHR ''['' \<notin> set host" using host_avoids [OF assms] by auto
  moreover have "host_unescape host = Some host"
    unfolding host_unescape_def
    by (rule unescape_literal) (use host_avoids [OF assms] host_byte_code [OF assms] in \<open>auto simp: list_all_iff name_byte_literal\<close>)
  ultimately show ?thesis by (simp add: parse_host_def)
qed

lemma get_scheme_http:
  assumes "scheme = ''http'' \<or> scheme = ''https''"
  shows "get_scheme (scheme @ '':'' @ rest) = Some (scheme, rest)"
proof -
  have s: "scheme_byte CHR ''h''" "scheme_byte CHR ''t''" "scheme_byte CHR ''p''" "scheme_byte CHR ''s''"
    "\<not> scheme_byte CHR '':''" "is_letter CHR ''h''"
    by code_simp+
  show ?thesis using assms by (auto simp: get_scheme_def s)
qed

lemma takeWhile_slash:
  "CHR ''/'' \<notin> set host \<Longrightarrow> prefix = [] \<or> hd prefix = CHR ''/'' \<Longrightarrow>
    takeWhile (\<lambda>c. c \<noteq> CHR ''/'') (host @ prefix) = host \<and> dropWhile (\<lambda>c. c \<noteq> CHR ''/'') (host @ prefix) = prefix"
proof (induction host)
  case Nil
  then show ?case by (cases prefix) simp_all
qed auto

text \<open>Queries that survive parsing: no fragment mark and no control byte.\<close>

definition plain_query :: "string \<Rightarrow> bool" where
  "plain_query query \<longleftrightarrow> list_all (\<lambda>c. c \<noteq> CHR ''#'' \<and> no_control c) query"

definition query_part :: "string \<Rightarrow> string" where
  "query_part query = (if query = [] then [] else CHR ''?'' # query)"

lemma url_parse_plain:
  assumes "scheme = ''http'' \<or> scheme = ''https''" and "plain_authority host"
    and "valid_encoded prefix" and "prefix = [] \<or> hd prefix = CHR ''/''" and "plain_query query"
  shows "url_parse (scheme @ ''://'' @ host @ prefix @ query_part query)
    = set_path (blank_url\<lparr>url_scheme := scheme, url_raw_query := query, url_host := host\<rparr>) prefix"
proof -
  let ?front = "''//'' @ host @ prefix"
  let ?rest = "?front @ query_part query"
  let ?s = "scheme @ ''://'' @ host @ prefix @ query_part query"
  let ?u = "blank_url\<lparr>url_scheme := scheme\<rparr>"
  have query: "CHR ''#'' \<notin> set query" "list_all no_control query"
    using assms(5) by (auto simp: plain_query_def list_all_iff)
  have avoid: "CHR ''#'' \<notin> set ?s" "CHR ''?'' \<notin> set ?front" "CHR ''@'' \<notin> set host" "CHR ''/'' \<notin> set host"
    using assms(1) host_avoids [OF assms(2)] path_avoids [OF assms(3)] query(1) by (auto simp: query_part_def)
  have ctl: "list_all no_control ?s"
    using assms(1) host_avoids(2) [OF assms(2)] path_avoids(2) [OF assms(3)] query(2)
    by (auto simp: list_all_iff no_control_def code_of_def query_part_def)
  have h: "parse_hierarchy (?u\<lparr>url_raw_query := query\<rparr>) ?front
      = set_path (blank_url\<lparr>url_scheme := scheme, url_raw_query := query, url_host := host\<rparr>) prefix" for query
    using assms(1) takeWhile_slash [OF avoid(4) assms(4)] avoid(3)
    by (auto simp: parse_hierarchy_def parse_authority_def parse_host_plain [OF assms(2)] blank_url_def)
  have "parse_reference ?s = parse_hierarchy (?u\<lparr>url_raw_query := query\<rparr>) ?front"
  proof -
    have g: "get_scheme ?s = Some (scheme, ?rest)" using get_scheme_http [OF assms(1), of ?rest] by simp
    have q: "\<not> (has_suffix ''?'' ?rest \<and> length (filter (\<lambda>c. c = CHR ''?'') ?rest) = 1)"
    proof (cases query rule: rev_cases)
      case Nil
      have "\<not> has_suffix ''?'' ?front"
      proof
        assume "has_suffix ''?'' ?front"
        then obtain a where "?front = a @ ''?''" unfolding has_suffix_append by blast
        then have "CHR ''?'' \<in> set ?front" by (simp only: set_append list.set) simp
        with avoid(2) show False ..
      qed
      with Nil show ?thesis by (simp add: query_part_def)
    next
      case (snoc xs x)
      then show ?thesis unfolding has_suffix_append query_part_def by auto
    qed
    have c: "cut_on (CHR ''?'') ?rest = (if query = [] then None else Some (?front, query))"
    proof (cases "query = []")
      case True
      have "cut_on (CHR ''?'') ?front = None" unfolding cut_on_None by (rule avoid(2))
      with True show ?thesis unfolding query_part_def by simp
    next
      case False
      with cut_on_append [OF avoid(2), of query] show ?thesis unfolding query_part_def by simp
    qed
    have l: "to_lower scheme = scheme" using assms(1) by (auto simp: to_lower_def lower_char_def is_upper_def code_of_def)
    have "?s \<noteq> ''*''" using assms(1) by auto
    then have "parse_reference ?s = (case cut_on (CHR ''?'') ?rest of
        None \<Rightarrow> parse_hierarchy ?u ?rest
      | Some (front, query) \<Rightarrow> parse_hierarchy (?u\<lparr>url_raw_query := query\<rparr>) front)"
      unfolding parse_reference_def g using ctl q l by (simp only: if_True if_False option.case prod.case Let_def not_True_eq_False)
    then show ?thesis unfolding c
      by (cases "query = []") (simp_all add: query_part_def blank_url_def)
  qed
  moreover have "cut_on (CHR ''#'') ?s = None" using avoid(1) unfolding cut_on_None .
  ultimately show ?thesis using h unfolding url_parse_def by (simp only: option.case)
qed

lemma escape_with_id: "list_all (\<lambda>c. \<not> esc c) s \<Longrightarrow> escape_with esc s = s"
  by (induction s) (simp_all add: escape_with_def)

lemma set_path_sel:
  assumes "set_path u p = Some v"
  shows "url_scheme v = url_scheme u" "url_opaque v = url_opaque u" "url_user v = url_user u" "url_host v = url_host u"
    "url_omit_host v = url_omit_host u" "url_force_query v = url_force_query u"
    "url_raw_query v = url_raw_query u" "url_fragment v = url_fragment u"
  using assms by (auto simp: set_path_def)

lemma EscapedPath_scheme [simp]:
  "EscapedPath (u\<lparr>url_scheme := s\<rparr>) = EscapedPath u" "EscapedPath (u\<lparr>url_host := h\<rparr>) = EscapedPath u"
  by (simp_all add: EscapedPath_def)

lemma composeURL_plain:
  assumes "scheme = ''http'' \<or> scheme = ''https''" and "plain_authority host"
    and "valid_encoded prefix" and "prefix = [] \<or> hd prefix = CHR ''/''" and "path_unescape prefix \<noteq> None"
    and "valid_encoded (''/'' @ path)" and "path_unescape path \<noteq> None"
  obtains u where "composeURL (scheme @ ''://'' @ host @ prefix) (''/'' @ path) query = Inr u"
    and "EscapedPath u = joinEscapedPath prefix (''/'' @ path)"
    and "url_string u = scheme @ ''://'' @ host @ joinEscapedPath prefix (''/'' @ path) @ query_part query"
proof -
  let ?joined = "joinEscapedPath prefix (''/'' @ path)"
  obtain v where v: "set_path (blank_url\<lparr>url_scheme := scheme, url_raw_query := [], url_host := host\<rparr>) prefix = Some v"
    using assms(5) by (auto simp: set_path_def)
  have parse: "url_parse (scheme @ ''://'' @ host @ prefix) = Some v"
    using url_parse_plain [OF assms(1-4), of "[]"] v by (simp add: plain_query_def query_part_def)
  have esc: "EscapedPath v = prefix" by (rule set_path_escaped [OF v assms(3,4)])
  obtain decoded where decoded: "path_unescape ?joined = Some decoded"
    using path_unescape_join [OF assms(5,7)] by blast
  have l: "to_lower scheme = scheme" "equal_fold scheme ''http'' \<or> equal_fold scheme ''https''"
    using assms(1) by (auto simp: to_lower_def lower_char_def is_upper_def code_of_def equal_fold_def)
  have host: "host \<noteq> []" using assms(2) by (auto simp: plain_authority_def)
  let ?u = "v\<lparr>url_scheme := scheme, url_path := decoded, url_raw_path := ?joined, url_raw_query := query, url_force_query := False\<rparr>"
  have compose: "composeURL (scheme @ ''://'' @ host @ prefix) (''/'' @ path) query = Inr ?u"
    unfolding composeURL_def using parse l set_path_sel [OF v] host decoded esc by (simp add: blank_url_def)
  have nonempty: "?joined \<noteq> []" "hd ?joined = CHR ''/''"
    using joinEscapedPath_absolute [OF assms(4)] by blast+
  have escu: "EscapedPath ?u = ?joined"
    using nonempty(1) valid_encoded_join [OF assms(3,6)] decoded by (simp add: EscapedPath_def)
  have "escape_with escape_in_host host = host"
    by (rule escape_with_id) (use host_byte_code [OF assms(2)] in \<open>auto simp: list_all_iff name_byte_literal\<close>)
  moreover have "scheme \<noteq> []" using assms(1) by auto
  ultimately have "url_string ?u = scheme @ ''://'' @ host @ ?joined @ query_part query"
    unfolding url_string_def escu using nonempty host set_path_sel [OF v] by (simp add: blank_url_def query_part_def)
  with compose escu that show thesis by blast
qed

section \<open>Properties\<close>


definition sample_request :: request where
  "sample_request = \<lparr>rq_method = ''GET'', rq_scheme = ''http'', rq_protocol = ''HTTP/1.1'', rq_host = ''relay.local:8081'',
     rq_target = ''/a%2Fb?x=1'', rq_path = ''/a%2Fb'', rq_raw_query = ''x=1'', rq_remote_address = ''10.0.0.7:4711'',
     rq_headers = [(''Accept'', [''*/*'']), (''Connection'', [''keep-alive, X-Trace'']), (''X-Trace'', [''7'']),
        (''X-Forwarded-For'', [''1.2.3.4'']), (''Content-Length'', [''0''])],
     rq_content_type = [], rq_body = [], rq_observed = 0, rq_complete = True, rq_header_bytes = 100,
     rq_preview = [], rq_preview_truncated = False, rq_decoded_preview = None, rq_preview_error = []\<rparr>"


text \<open>A raw \<open>#\<close> in the query is taken for a fragment when the URL is parsed again.\<close>

lemma query_fragment_lost:
  "(case composeURL ''http://backend'' ''/a'' ''x#y'' of Inl err \<Rightarrow> None
    | Inr u \<Rightarrow> (case buildRequest (url_string u) sample_request of Inl err \<Rightarrow> None
        | Inr r \<Rightarrow> Some (url_raw_query u, url_raw_query (ur_url r)))) = Some (''x#y'', ''x'')"
  by code_simp

text \<open>
  C27. The headers of a forwarded request: every hop-by-hop field and every field its
  \<open>Connection\<close> lists is gone, the forwarding fields are the ones the relay observed (never the
  client's), \<open>Content-Length\<close> and \<open>Forwarded\<close> are removed, and every other field has its values
  in their order.
\<close>

theorem forwarded_headers:
  assumes "buildRequest destination incoming = Inr r" and "canonical_header (rq_headers incoming)"
  shows "map_of (ur_header r) name =
     (if name = ''X-Forwarded-For'' then
        (if peerHost (rq_remote_address incoming) = [] then None else Some [peerHost (rq_remote_address incoming)])
      else if name = ''X-Forwarded-Host'' then (if rq_host incoming = [] then None else Some [rq_host incoming])
      else if name = ''X-Forwarded-Proto'' then
        (if rq_scheme incoming = ''http'' \<or> rq_scheme incoming = ''https'' then Some [rq_scheme incoming] else None)
      else if name \<in> {''Forwarded'', ''Content-Length''} \<or> hop_by_hop (rq_headers incoming) name then None
      else map_of (rq_headers incoming) name)
   \<and> canonical_header (ur_header r)"
proof -
  have "canonical_key ''Content-Length'' = ''Content-Length''" by code_simp
  moreover have "ur_header r = setForwardingHeaders (hdr_del (removeHopByHop (rq_headers incoming)) ''Content-Length'')
      (rq_remote_address incoming) (rq_host incoming) (rq_scheme incoming)"
    using assms(1) by (auto simp: buildRequest_def Let_def clone_headers_def split: option.splits)
  moreover have "canonical_header (setForwardingHeaders h a b c)" if "canonical_header h" for h a b c
    using that by (simp add: setForwardingHeaders_def Let_def)
  ultimately show ?thesis
    using assms(2) by (simp add: map_of_setForwardingHeaders map_of_hdr_del map_of_removeHopByHop)
qed

theorem forwarded_headers_witness:
  "\<exists>r. buildRequest ''http://backend/'' sample_request = Inr r
    \<and> map_of (ur_header r) ''X-Forwarded-For'' = Some [''10.0.0.7''] \<and> map_of (ur_header r) ''X-Trace'' = None
    \<and> map_of (ur_header r) ''Connection'' = None \<and> map_of (ur_header r) ''Accept'' = Some [''*/*'']"
proof -
  have "buildRequest ''http://backend/'' sample_request \<noteq> Inl x" for x by (simp add: buildRequest_def) code_simp
  then obtain r where r: "buildRequest ''http://backend/'' sample_request = Inr r" by (metis sum.exhaust)
  have c: "canonical_header (rq_headers sample_request)" and p: "peerHost (rq_remote_address sample_request) = ''10.0.0.7''"
    and h: "hop_by_hop (rq_headers sample_request) ''X-Trace''" "hop_by_hop (rq_headers sample_request) ''Connection''"
      "\<not> hop_by_hop (rq_headers sample_request) ''Accept''"
    and a: "map_of (rq_headers sample_request) ''Accept'' = Some [''*/*'']"
    by code_simp+
  from r forwarded_headers [OF r c] p h a show ?thesis by auto
qed

end
