(* ===== verification/Proxy_Response.thy ===== *)
theory Proxy_Response
  imports Proxy_Request Capture_Body
begin

text \<open>
  The proxy mode handler: \<open>internal/proxy/inspection.go\<close> and \<open>internal/proxy/handler.go\<close>.

  What the handler does not compute itself is in \<open>proxy_env\<close>: the HTTP client (a function from
  the header limit and the request to an error or a reply, with the times its trace callbacks
  saw), the two contexts as they are when the call has returned, the clock, and the
  decompressors of \<open>compress/gzip\<close> and \<open>compress/zlib\<close> (an error when the header is wrong, or a
  reader and the result of its \<open>Close\<close>). Nothing is assumed of any of them.
\<close>

section \<open>Error texts\<close>

fun error_text :: "go_error \<Rightarrow> string" where
  "error_text (Plain s) = s"
| "error_text (Wrapped m e) = m @ '': '' @ error_text e"
| "error_text (ModeError s c m None) = m"
| "error_text (ModeError s c m (Some e)) = error_text e"
| "error_text Canceled = ''context canceled''"
| "error_text DeadlineExceeded = ''context deadline exceeded''"
| "error_text BodyTooLarge = ''request body exceeds configured limit''"
| "error_text ResponseBodyTooLarge = ''upstream response body exceeds configured limit''"
| "error_text QueueFull = ''sqlite writer queue is full''"
| "error_text (InvalidTransition s t) = transition_error (InvalidTransition s t)"

section \<open>Inspection of encoded bodies\<close>

type_synonym decompressor = "bytes \<Rightarrow> string + (reader \<times> string option)"

record decompressors =
  dc_gzip :: decompressor
  dc_zlib :: decompressor

definition maximumExpansionRatio :: int where
  "maximumExpansionRatio = 100"

definition parseEncodings :: "string \<Rightarrow> string list" where
  "parseEncodings raw =
     filter (\<lambda>name. name \<noteq> [] \<and> name \<noteq> ''identity'') (map (\<lambda>part. to_lower (trim_space part)) (split_on (CHR '','') raw))"

definition decodeOne :: "decompressors \<Rightarrow> bytes \<Rightarrow> string \<Rightarrow> int \<Rightarrow> go_error + bytes" where
  "decodeOne dc encoded encoding limit =
     (let opened = (if encoding = ''gzip'' \<or> encoding = ''x-gzip'' then Some (dc_gzip dc encoded)
                    else if encoding = ''deflate'' then Some (dc_zlib dc encoded) else None)
      in case opened of
           None \<Rightarrow> Inl (Plain (''unsupported content encoding '' @ [CHR 34] @ encoding @ [CHR 34]))
         | Some (Inl err) \<Rightarrow> Inl (Wrapped (''decode '' @ encoding @ '' preview'') (Plain err))
         | Some (Inr (reader, closeErr)) \<Rightarrow>
             let ratioLimit = wrap_i64 (int (length encoded) * maximumExpansionRatio);
                 ratioBound = (ratioLimit < limit);
                 allowed0 = (if ratioBound then ratioLimit else limit);
                 allowed = (if allowed0 < 1 then 1 else allowed0)
             in case limited_read_all reader (wrap_i64 (allowed + 1)) of
                  (data, Some err) \<Rightarrow> Inl (Wrapped (''decode '' @ encoding @ '' preview'') (Plain err))
                | (data, None) \<Rightarrow>
                    (case closeErr of
                       Some err \<Rightarrow> Inl (Wrapped (''close '' @ encoding @ '' preview'') (Plain err))
                     | None \<Rightarrow>
                         if int (length data) > allowed then
                           (if ratioBound then Inl (Plain ''decoded preview exceeds expansion ratio'')
                            else Inl (Plain ''decoded preview exceeds configured limit''))
                         else Inr data))"

text \<open>The loop of \<open>decodeEncodings\<close>, over the codings from the last one applied to the first.\<close>

fun decode_all :: "decompressors \<Rightarrow> bytes \<Rightarrow> string list \<Rightarrow> int \<Rightarrow> go_error + bytes" where
  "decode_all dc current [] limit = Inr current"
| "decode_all dc current (encoding # encodings) limit =
     (case decodeOne dc current encoding limit of
        Inl err \<Rightarrow> Inl err
      | Inr decoded \<Rightarrow> decode_all dc decoded encodings limit)"

definition decodeEncodings :: "decompressors \<Rightarrow> bytes \<Rightarrow> string \<Rightarrow> int \<Rightarrow> go_error + bytes" where
  "decodeEncodings dc body raw limit =
     (let encodings = parseEncodings raw
      in if encodings = [] then Inl (Plain ''content encoding is empty'')
         else decode_all dc body (rev encodings) limit)"

definition inspectionPrefix :: "bytes \<Rightarrow> preview_settings \<Rightarrow> bytes \<times> bool" where
  "inspectionPrefix body settings =
     (if \<not> pv_enabled settings \<or> int (length body) \<le> pv_bytes settings then (body, False)
      else (take (nat (pv_bytes settings)) body, True))"

definition inspect :: "decompressors \<Rightarrow> bytes \<Rightarrow> string \<Rightarrow> preview_settings \<Rightarrow> int \<Rightarrow> inspection" where
  "inspect dc body encoding settings hardLimit =
     (if trim_space encoding = [] \<or> equal_fold (trim_space encoding) ''identity'' then
        (let (pre, truncated) = inspectionPrefix body settings
         in \<lparr>in_preview = pre, in_truncated = truncated, in_decoded = None, in_error = []\<rparr>)
      else case decodeEncodings dc body encoding hardLimit of
          Inl err \<Rightarrow> (let (pre, truncated) = inspectionPrefix body settings
            in \<lparr>in_preview = pre, in_truncated = truncated, in_decoded = None, in_error = error_text err\<rparr>)
        | Inr decoded \<Rightarrow> (let (pre, truncated) = inspectionPrefix decoded settings
            in \<lparr>in_preview = pre, in_truncated = truncated, in_decoded = Some (int (length pre)), in_error = []\<rparr>))"

section \<open>The response\<close>

definition readResponseBody :: "reader \<Rightarrow> int \<Rightarrow> bytes \<times> int \<times> go_error option" where
  "readResponseBody rd limit =
     (if limit \<le> 0 then ([], 0, Some (Plain ''response body limit must be positive''))
      else case limited_read_all rd (wrap_i64 (limit + 1)) of
          (data, Some err) \<Rightarrow> ([], int (length data), Some (Wrapped ''read upstream response'' (Plain err)))
        | (data, None) \<Rightarrow>
            let observed = int (length data)
            in if observed > limit then (take (nat limit) data, observed, Some ResponseBodyTooLarge)
               else (data, observed, None))"

definition adjustContentLength :: "header \<Rightarrow> string \<Rightarrow> int \<Rightarrow> int \<Rightarrow> header" where
  "adjustContentLength headers method status bodyLength =
     (if method = ''HEAD'' \<or> status = 304 then headers
      else if status \<ge> 100 \<and> status < 200 \<or> status = 204 \<or> status = 205 then hdr_del headers ''Content-Length''
      else hdr_set headers ''Content-Length'' (format_int bodyLength))"

section \<open>Timing\<close>

record trace_recorder =
  tr_started :: gotime
  tr_written :: gotime
  tr_first_byte :: gotime

definition timing_time :: "gotime \<Rightarrow> gotime option" where
  "timing_time value = (if is_zero value then None else Some (utc value))"

definition timing_duration :: "gotime \<Rightarrow> gotime \<Rightarrow> int option" where
  "timing_duration started completed =
     (if is_zero started \<or> is_zero completed \<or> time_before completed started then None
      else Some (microseconds (time_sub completed started)))"

text \<open>\<open>timing\<close>; the sum of three durations in microseconds is far from the bounds of \<open>int64\<close>.\<close>

definition timing :: "trace_recorder \<Rightarrow> gotime option \<Rightarrow> proxy_timing" where
  "timing recorder capturedAt =
     (let dispatch = timing_duration (tr_started recorder) (tr_written recorder);
          wait = timing_duration (tr_written recorder) (tr_first_byte recorder);
          receive = (case capturedAt of None \<Rightarrow> None | Some at \<Rightarrow> timing_duration (tr_first_byte recorder) at)
      in \<lparr>pt_upstream_started = timing_time (tr_started recorder),
          pt_request_written = timing_time (tr_written recorder),
          pt_first_byte = timing_time (tr_first_byte recorder),
          pt_captured = (case capturedAt of None \<Rightarrow> None | Some at \<Rightarrow> timing_time at),
          pt_downstream_completed = None,
          pt_dispatch_us = dispatch, pt_wait_us = wait, pt_receive_us = receive,
          pt_upstream_total_us = (case capturedAt of
              None \<Rightarrow> None
            | Some at \<Rightarrow> (case (dispatch, wait, receive) of
                  (Some a, Some b, Some c) \<Rightarrow> Some (a + b + c)
                | _ \<Rightarrow> timing_duration (tr_started recorder) at)),
          pt_downstream_write_us = None, pt_proxy_total_us = None\<rparr>)"

section \<open>The handler\<close>

record upstream_reply =
  uy_status :: int
  uy_header :: header
  uy_body :: reader
  uy_close_error :: "string option"

record round_trip =
  tp_result :: "go_error + upstream_reply"
  tp_written :: gotime
  tp_first_byte :: gotime

record proxy_env =
  pe_transport :: "int \<Rightarrow> upstream_request \<Rightarrow> round_trip"
  pe_parent_error :: "go_error option"
  pe_timeout_error :: "go_error option"
  pe_started :: gotime
  pe_captured :: gotime
  pe_decompressors :: decompressors

definition proxy_failure :: "int \<Rightarrow> string \<Rightarrow> string \<Rightarrow> go_error option \<Rightarrow> go_error" where
  "proxy_failure status category message cause = ModeError status category message cause"

definition context_is :: "go_error option \<Rightarrow> go_error \<Rightarrow> bool" where
  "context_is err target = (case err of None \<Rightarrow> False | Some e \<Rightarrow> errors_is e target)"

definition classifyTransportError :: "go_error option \<Rightarrow> go_error option \<Rightarrow> go_error \<Rightarrow> go_error" where
  "classifyTransportError parentErr timeoutErr err =
     (if context_is parentErr Canceled then the parentErr
      else if context_is timeoutErr DeadlineExceeded \<or> errors_is err DeadlineExceeded
      then proxy_failure 504 ''upstream_timeout'' ''Upstream request timed out.'' (Some err)
      else if contains_str ''response headers exceeded'' (error_text err)
      then proxy_failure 502 ''response_headers_too_large'' ''Upstream response headers exceed configured limit.'' (Some err)
      else proxy_failure 502 ''upstream_unavailable'' ''Upstream connection could not be established.'' (Some err))"

definition zero_result :: mode_result where
  "zero_result = \<lparr>mr_response = \<lparr>dr_status = 0, dr_headers = [], dr_body = []\<rparr>, mr_captured = None,
     mr_upstream = [], mr_timing = None, mr_inspection = None, mr_header_bytes = 0, mr_body_bytes = 0\<rparr>"

definition body_failure :: "proxy_env \<Rightarrow> go_error \<Rightarrow> go_error" where
  "body_failure env readError =
     (if errors_is readError ResponseBodyTooLarge
      then proxy_failure 502 ''response_body_too_large'' ''Upstream response body exceeds configured limit.'' (Some readError)
      else if context_is (pe_timeout_error env) DeadlineExceeded
      then proxy_failure 504 ''upstream_timeout'' ''Upstream request timed out.'' (Some readError)
      else if context_is (pe_parent_error env) Canceled then the (pe_parent_error env)
      else proxy_failure 502 ''response_body_read_failed'' ''Upstream response body could not be read.'' (Some readError))"

text \<open>What \<open>Handle\<close> does with the reply of the client.\<close>

definition handle_reply ::
    "proxy_env \<Rightarrow> request \<Rightarrow> config_snapshot \<Rightarrow> mode_result \<Rightarrow> trace_recorder \<Rightarrow> upstream_reply \<Rightarrow> mode_result \<times> go_error option" where
  "handle_reply env incoming snapshot result recorder response =
     (let untimed = result\<lparr>mr_timing := Some (timing recorder None)\<rparr>;
          closeError = map_option Plain (uy_close_error response)
      in if uy_status response = 101 then
           (untimed, Some (proxy_failure 502 ''unsupported_upstream_upgrade'' ''Upstream attempted an unsupported protocol upgrade.'' closeError))
         else
           let headers = removeHopByHop (clone_headers (uy_header response));
               headerBytes = HeaderBytesEstimate headers [];
               result1 = result\<lparr>mr_header_bytes := headerBytes\<rparr>
           in if headerBytes > lim_response_header (cs_limits snapshot) then
                (result1\<lparr>mr_timing := Some (timing recorder None)\<rparr>,
                 Some (proxy_failure 502 ''response_headers_too_large'' ''Upstream response headers exceed configured limit.'' closeError))
              else
                let (body, observed, readError0) = readResponseBody (uy_body response) (lim_response_body (cs_limits snapshot));
                    result2 = result1\<lparr>mr_body_bytes := observed\<rparr>;
                    readError = (if readError0 = None \<and> closeError \<noteq> None
                                 then map_option (Wrapped ''close upstream response'') closeError else readError0)
                in case readError of
                     Some err \<Rightarrow> (result2\<lparr>mr_timing := Some (timing recorder None)\<rparr>, Some (body_failure env err))
                   | None \<Rightarrow>
                       let seen = inspect (pe_decompressors env) body (hdr_get headers ''Content-Encoding'')
                                    (cs_preview snapshot) (lim_response_body (cs_limits snapshot));
                           sent = adjustContentLength headers (rq_method incoming) (uy_status response) (int (length body))
                       in (result2\<lparr>mr_timing := Some (timing recorder (Some (pe_captured env))),
                             mr_captured := Some \<lparr>rs_status = uy_status response, rs_headers = clone_headers sent, rs_body = [] @ body,
                               rs_observed = observed, rs_complete = True, rs_header_bytes = HeaderBytesEstimate sent [],
                               rs_origin = ''upstream'', rs_preview = in_preview seen, rs_preview_truncated = in_truncated seen,
                               rs_decoded_preview = in_decoded seen, rs_preview_error = in_error seen\<rparr>,
                             mr_response := \<lparr>dr_status = uy_status response, dr_headers = sent, dr_body = body\<rparr>\<rparr>, None))"

definition Proxy_Handle :: "proxy_env \<Rightarrow> request \<Rightarrow> config_snapshot \<Rightarrow> mode_result \<times> go_error option" where
  "Proxy_Handle env incoming snapshot =
     (case composeURL (up_url (cs_upstream snapshot)) (rq_path incoming) (rq_raw_query incoming) of
        Inl err \<Rightarrow> (zero_result, Some (proxy_failure 502 ''invalid_upstream'' ''Configured upstream URL is invalid.'' (Some err)))
      | Inr destination \<Rightarrow>
          let seen = inspect (pe_decompressors env) (rq_body incoming) (hdr_get (rq_headers incoming) ''Content-Encoding'')
                       (cs_preview snapshot) (lim_request_body (cs_limits snapshot));
              result = zero_result\<lparr>mr_upstream := url_string destination, mr_inspection := Some seen\<rparr>
          in if rq_method incoming = ''CONNECT'' \<or> hasUpgrade (rq_headers incoming) then
               (result, Some (proxy_failure 501 ''unsupported_upgrade'' ''HTTP upgrades and CONNECT tunnels are not supported.'' None))
             else
               (case buildRequest (url_string destination) incoming of
                  Inl err \<Rightarrow> (result, Some (proxy_failure 502 ''upstream_request_failed'' ''Upstream request could not be created.'' (Some err)))
                | Inr upstream_req \<Rightarrow>
                    let trip = pe_transport env (lim_response_header (cs_limits snapshot)) upstream_req;
                        recorder = \<lparr>tr_started = pe_started env, tr_written = tp_written trip, tr_first_byte = tp_first_byte trip\<rparr>
                    in case tp_result trip of
                         Inl err \<Rightarrow> (result\<lparr>mr_timing := Some (timing recorder None)\<rparr>,
                           Some (classifyTransportError (pe_parent_error env) (pe_timeout_error env) err))
                       | Inr response \<Rightarrow> handle_reply env incoming snapshot result recorder response))"

section \<open>Lemmas\<close>

lemma readResponseBody_cases:
  assumes "0 < limit" and "limit < max_i64"
  shows "readResponseBody rd limit =
    (if limit < int (length (rd_data rd)) then (take (nat limit) (rd_data rd), limit + 1, Some ResponseBodyTooLarge)
     else case rd_error rd of
         None \<Rightarrow> (rd_data rd, int (length (rd_data rd)), None)
       | Some err \<Rightarrow> ([], int (length (rd_data rd)), Some (Wrapped ''read upstream response'' (Plain err))))"
  using assms
  by (auto simp: readResponseBody_def limited_read_all_def wrap_Suc_limit Let_def min_def split: option.splits)

lemma limited_read_all_short:
  "limited_read_all rd n = (data, err) \<Longrightarrow> int (length data) \<le> max 0 n"
  by (auto simp: limited_read_all_def split: if_splits)

text \<open>One decoder: its output is bounded by the limit and by 100 times its input, but never below one byte.\<close>

lemma decodeOne_bounded:
  assumes "decodeOne dc encoded encoding limit = Inr data" and "int (length encoded) * maximumExpansionRatio \<le> max_i64"
  shows "int (length data) \<le> max 1 (min limit (100 * int (length encoded)))"
proof -
  let ?ratio = "int (length encoded) * maximumExpansionRatio"
  have "wrap_i64 ?ratio = ?ratio"
    by (rule wrap_i64_id) (use assms(2) in \<open>simp add: in_i64_def min_i64_def maximumExpansionRatio_def\<close>)
  with assms(1) show ?thesis
    by (auto simp: decodeOne_def Let_def maximumExpansionRatio_def split: option.splits sum.splits prod.splits if_splits)
qed

lemma decode_all_bounded:
  assumes "decode_all dc body encodings limit = Inr d" and "1 \<le> limit" and "limit * maximumExpansionRatio \<le> max_i64"
    and "encodings \<noteq> []" and "int (length body) * maximumExpansionRatio \<le> max_i64"
  shows "int (length d) \<le> limit"
  using assms
proof (induction encodings arbitrary: body)
  case (Cons c cs)
  then obtain e where e: "decodeOne dc body c limit = Inr e" "decode_all dc e cs limit = Inr d"
    by (auto split: sum.splits)
  have l: "int (length e) \<le> limit"
    using decodeOne_bounded [OF e(1) Cons.prems(5)] Cons.prems(2) by simp
  show ?case
  proof (cases "cs = []")
    case True
    with e(2) l show ?thesis by simp
  next
    case False
    have "int (length e) * maximumExpansionRatio \<le> limit * maximumExpansionRatio"
      using l by (simp add: maximumExpansionRatio_def)
    with Cons.IH [OF e(2)] Cons.prems False show ?thesis by simp
  qed
qed simp

lemma inspectionPrefix_take:
  assumes "inspectionPrefix body settings = (pre, truncated)" and "0 \<le> pv_bytes settings"
  shows "pre = take (length pre) body" and "truncated \<longleftrightarrow> length pre < length body"
    and "pv_enabled settings \<Longrightarrow> int (length pre) \<le> pv_bytes settings"
    and "\<not> truncated \<Longrightarrow> pre = body"
  using assms by (auto simp: inspectionPrefix_def min_def split: if_splits)

lemma decodeOne_error_nonempty: "decodeOne dc encoded encoding limit = Inl err \<Longrightarrow> error_text err \<noteq> []"
  by (auto simp: decodeOne_def Let_def split: option.splits sum.splits prod.splits if_splits)

lemma decodeEncodings_error_nonempty: "decodeEncodings dc body raw limit = Inl err \<Longrightarrow> error_text err \<noteq> []"
proof -
  have "decode_all dc body es limit = Inl err \<Longrightarrow> error_text err \<noteq> []" for es
    by (induction es arbitrary: body) (auto split: sum.splits dest: decodeOne_error_nonempty)
  then show "decodeEncodings dc body raw limit = Inl err \<Longrightarrow> error_text err \<noteq> []"
    by (auto simp: decodeEncodings_def Let_def split: if_splits)
qed

lemma map_of_adjustContentLength:
  "map_of (adjustContentLength h method status n) name =
     (if name = ''Content-Length'' \<and> method \<noteq> ''HEAD'' \<and> status \<noteq> 304
      then (if status \<ge> 100 \<and> status < 200 \<or> status = 204 \<or> status = 205 then None else Some [format_int n])
      else map_of h name)"
proof -
  have "canonical_key ''Content-Length'' = ''Content-Length''" by code_simp
  then show ?thesis by (auto simp: adjustContentLength_def map_of_hdr_set map_of_hdr_del)
qed

text \<open>The paths of \<open>Handle\<close> that reach the client's reply.\<close>

lemma Proxy_Handle_ok:
  assumes "Proxy_Handle env incoming snapshot = (res, None)"
  obtains u r response recorder result where
    "composeURL (up_url (cs_upstream snapshot)) (rq_path incoming) (rq_raw_query incoming) = Inr u"
    and "buildRequest (url_string u) incoming = Inr r"
    and "tp_result (pe_transport env (lim_response_header (cs_limits snapshot)) r) = Inr response"
    and "handle_reply env incoming snapshot result recorder response = (res, None)"
    and "rq_method incoming \<noteq> ''CONNECT''" and "\<not> hasUpgrade (rq_headers incoming)"
  using assms unfolding Proxy_Handle_def Let_def
  by (auto split: sum.splits if_splits)

lemma handle_reply_ok:
  assumes "handle_reply env incoming snapshot result recorder response = (res, None)"
  obtains body observed seen where "uy_status response \<noteq> 101"
    and "HeaderBytesEstimate (removeHopByHop (uy_header response)) [] \<le> lim_response_header (cs_limits snapshot)"
    and "readResponseBody (uy_body response) (lim_response_body (cs_limits snapshot)) = (body, observed, None)"
    and "mr_response res = \<lparr>dr_status = uy_status response,
      dr_headers = adjustContentLength (removeHopByHop (uy_header response)) (rq_method incoming) (uy_status response) (int (length body)),
      dr_body = body\<rparr>"
    and "mr_captured res = Some \<lparr>rs_status = uy_status response, rs_headers = dr_headers (mr_response res), rs_body = body,
      rs_observed = observed, rs_complete = True, rs_header_bytes = HeaderBytesEstimate (dr_headers (mr_response res)) [],
      rs_origin = ''upstream'', rs_preview = in_preview seen, rs_preview_truncated = in_truncated seen,
      rs_decoded_preview = in_decoded seen, rs_preview_error = in_error seen\<rparr>"
    and "seen = inspect (pe_decompressors env) body (hdr_get (removeHopByHop (uy_header response)) ''Content-Encoding'')
      (cs_preview snapshot) (lim_response_body (cs_limits snapshot))"
  using assms unfolding handle_reply_def Let_def clone_headers_def
  by (auto split: if_splits option.splits prod.splits)

section \<open>Properties\<close>

text \<open>
  What the proxy passes on is what the upstream sent: when \<open>Handle\<close> succeeds, the client
  answered with a complete body within the limit and with headers within theirs; the response for
  the client and the captured response have that status and that whole body, the upstream's
  headers without the hop-by-hop fields, and a \<open>Content-Length\<close> that is the length of the body
  (removed where there must be none, left alone for \<open>HEAD\<close> and 304).
\<close>

theorem proxy_response_faithful:
  assumes "Proxy_Handle env incoming snapshot = (res, None)"
    and "0 < lim_response_body (cs_limits snapshot)" and "lim_response_body (cs_limits snapshot) < max_i64"
  shows "\<exists>u r response c.
      composeURL (up_url (cs_upstream snapshot)) (rq_path incoming) (rq_raw_query incoming) = Inr u
    \<and> buildRequest (url_string u) incoming = Inr r
    \<and> tp_result (pe_transport env (lim_response_header (cs_limits snapshot)) r) = Inr response
    \<and> uy_status response \<noteq> 101 \<and> rd_error (uy_body response) = None
    \<and> int (length (rd_data (uy_body response))) \<le> lim_response_body (cs_limits snapshot)
    \<and> dr_status (mr_response res) = uy_status response \<and> dr_body (mr_response res) = rd_data (uy_body response)
    \<and> (\<forall>name. map_of (dr_headers (mr_response res)) name =
         (if name = ''Content-Length'' \<and> rq_method incoming \<noteq> ''HEAD'' \<and> uy_status response \<noteq> 304
          then (if bodiless (uy_status response) then None else Some [format_int (int (length (rd_data (uy_body response))))])
          else if hop_by_hop (uy_header response) name then None else map_of (uy_header response) name))
    \<and> mr_captured res = Some c \<and> rs_status c = uy_status response \<and> rs_body c = rd_data (uy_body response)
    \<and> rs_headers c = dr_headers (mr_response res) \<and> rs_complete c \<and> rs_origin c = ''upstream''
    \<and> rs_observed c = int (length (rd_data (uy_body response)))"
proof -
  obtain u r response recorder result where
    u: "composeURL (up_url (cs_upstream snapshot)) (rq_path incoming) (rq_raw_query incoming) = Inr u"
      "buildRequest (url_string u) incoming = Inr r"
      "tp_result (pe_transport env (lim_response_header (cs_limits snapshot)) r) = Inr response"
    and h: "handle_reply env incoming snapshot result recorder response = (res, None)"
    by (rule Proxy_Handle_ok [OF assms(1)])
  obtain body observed seen where s: "uy_status response \<noteq> 101"
    and "HeaderBytesEstimate (removeHopByHop (uy_header response)) [] \<le> lim_response_header (cs_limits snapshot)"
    and b: "readResponseBody (uy_body response) (lim_response_body (cs_limits snapshot)) = (body, observed, None)"
    and m: "mr_response res = \<lparr>dr_status = uy_status response,
      dr_headers = adjustContentLength (removeHopByHop (uy_header response)) (rq_method incoming) (uy_status response) (int (length body)),
      dr_body = body\<rparr>"
    and c: "mr_captured res = Some \<lparr>rs_status = uy_status response, rs_headers = dr_headers (mr_response res), rs_body = body,
      rs_observed = observed, rs_complete = True, rs_header_bytes = HeaderBytesEstimate (dr_headers (mr_response res)) [],
      rs_origin = ''upstream'', rs_preview = in_preview seen, rs_preview_truncated = in_truncated seen,
      rs_decoded_preview = in_decoded seen, rs_preview_error = in_error seen\<rparr>"
    and "seen = inspect (pe_decompressors env) body (hdr_get (removeHopByHop (uy_header response)) ''Content-Encoding'')
      (cs_preview snapshot) (lim_response_body (cs_limits snapshot))"
    by (rule handle_reply_ok [OF h])
  have body: "body = rd_data (uy_body response)" "observed = int (length body)" "rd_error (uy_body response) = None"
    "int (length (rd_data (uy_body response))) \<le> lim_response_body (cs_limits snapshot)"
    using b unfolding readResponseBody_cases [OF assms(2,3)] by (auto split: if_splits option.splits)
  show ?thesis
    by (intro exI conjI allI, rule u(1), rule u(2), rule u(3))
       (use s m c body in \<open>auto simp: map_of_adjustContentLength map_of_removeHopByHop bodiless_def\<close>)
qed

section \<open>Failures\<close>

definition gateway_failures :: "(int \<times> string) set" where
  "gateway_failures = {(502, ''invalid_upstream''), (501, ''unsupported_upgrade''), (502, ''upstream_request_failed''),
     (502, ''unsupported_upstream_upgrade''), (502, ''response_headers_too_large''), (502, ''response_body_too_large''),
     (502, ''response_body_read_failed''), (502, ''upstream_unavailable''), (504, ''upstream_timeout'')}"

definition classified :: "go_error option \<Rightarrow> go_error option \<Rightarrow> go_error \<Rightarrow> bool" where
  "classified parentErr timeoutErr err \<longleftrightarrow>
     context_is parentErr Canceled \<and> parentErr = Some err
     \<or> (\<exists>status category message cause. err = ModeError status category message cause
          \<and> (status, category) \<in> gateway_failures
          \<and> (status = 504 \<longrightarrow> context_is timeoutErr DeadlineExceeded
               \<or> (\<exists>e. cause = Some e \<and> errors_is e DeadlineExceeded)))"

lemma classified_failure:
  "(status, category) \<in> gateway_failures \<Longrightarrow> status \<noteq> 504 \<Longrightarrow> classified parentErr timeoutErr (proxy_failure status category m c)"
  by (auto simp: classified_def proxy_failure_def)

lemma classified_transport: "classified parentErr timeoutErr (classifyTransportError parentErr timeoutErr e)"
  by (auto simp: classified_def classifyTransportError_def proxy_failure_def context_is_def gateway_failures_def split: option.splits)

lemma classified_body: "classified (pe_parent_error env) (pe_timeout_error env) (body_failure env e)"
  by (auto simp: classified_def body_failure_def proxy_failure_def context_is_def gateway_failures_def split: option.splits)

lemma handle_reply_failed:
  assumes "handle_reply env incoming snapshot result recorder response = (res, Some err)"
  shows "mr_captured res = mr_captured result \<and> mr_response res = mr_response result
    \<and> classified (pe_parent_error env) (pe_timeout_error env) err"
proof (cases "uy_status response = 101 \<or> HeaderBytesEstimate (removeHopByHop (uy_header response)) [] > lim_response_header (cs_limits snapshot)")
  case True
  with assms show ?thesis
    unfolding handle_reply_def Let_def clone_headers_def
    by (auto split: if_splits intro!: classified_failure simp: gateway_failures_def)
next
  case False
  with assms show ?thesis
    unfolding handle_reply_def Let_def clone_headers_def
    by (auto split: prod.splits option.splits simp: classified_body)
qed

lemma Proxy_Handle_failed:
  assumes "Proxy_Handle env incoming snapshot = (res, Some err)"
  shows "mr_captured res = None \<and> mr_response res = mr_response zero_result
    \<and> classified (pe_parent_error env) (pe_timeout_error env) err"
proof (cases "composeURL (up_url (cs_upstream snapshot)) (rq_path incoming) (rq_raw_query incoming)")
  case (Inl e)
  with assms show ?thesis
    by (auto simp: Proxy_Handle_def zero_result_def gateway_failures_def intro!: classified_failure)
next
  case (Inr u)
  note compose = this
  show ?thesis
  proof (cases "rq_method incoming = ''CONNECT'' \<or> hasUpgrade (rq_headers incoming)")
    case True
    with assms Inr show ?thesis
      by (auto simp: Proxy_Handle_def Let_def zero_result_def gateway_failures_def intro!: classified_failure)
  next
    case False
    show ?thesis
    proof (cases "buildRequest (url_string u) incoming")
      case (Inl e)
      with assms compose False show ?thesis
        by (auto simp: Proxy_Handle_def Let_def zero_result_def gateway_failures_def intro!: classified_failure)
    next
      case (Inr r)
      with assms compose False show ?thesis
        by (auto simp: Proxy_Handle_def Let_def zero_result_def classified_transport split: sum.splits dest!: handle_reply_failed)
    qed
  qed
qed

lemma handle_reply_response:
  assumes "handle_reply env incoming snapshot result recorder response = (res, None)"
    and "0 < lim_response_body (cs_limits snapshot)" and "lim_response_body (cs_limits snapshot) < max_i64"
  shows "dr_status (mr_response res) = uy_status response \<and> dr_body (mr_response res) = rd_data (uy_body response)"
proof -
  obtain body observed seen where "readResponseBody (uy_body response) (lim_response_body (cs_limits snapshot)) = (body, observed, None)"
    and "dr_status (mr_response res) = uy_status response" and "dr_body (mr_response res) = body"
    by (rule handle_reply_ok [OF assms(1)]) simp
  with readResponseBody_cases [OF assms(2,3)] show ?thesis by (auto split: if_splits option.splits)
qed

text \<open>
  Every failure of the proxy is classified: nothing is captured or passed on as a response, and
  the error is either the cancellation of the client's own request, or one of the nine failures
  of the table, all answered with a gateway status or 501; a timeout is reported as 504 and only
  when a deadline has passed.
\<close>

theorem proxy_failures_classified:
  assumes "Proxy_Handle env incoming snapshot = (res, Some err)"
  shows "mr_captured res = None \<and> mr_response res = mr_response zero_result
    \<and> classified (pe_parent_error env) (pe_timeout_error env) err"
  using assms by (rule Proxy_Handle_failed)

definition sample_snapshot :: config_snapshot where
  "sample_snapshot = NewConfigSnapshot (Defaults\<lparr>cf_mode := ModeProxy,
     cf_upstream := \<lparr>up_url = ''http://backend:9000/api'', up_timeout = 30 * second_ns\<rparr>\<rparr>) 1"

definition sample_reply :: upstream_reply where
  "sample_reply = \<lparr>uy_status = 200,
     uy_header = [(''Content-Type'', [''text/plain'']), (''Connection'', [''close'']), (''Content-Length'', [''99''])],
     uy_body = \<lparr>rd_data = ''hello'', rd_error = None\<rparr>, uy_close_error = None\<rparr>"

definition sample_env :: "go_error + upstream_reply \<Rightarrow> proxy_env" where
  "sample_env result = \<lparr>pe_transport = (\<lambda>_ _. \<lparr>tp_result = result, tp_written = wall_time 3000, tp_first_byte = wall_time 5000\<rparr>),
     pe_parent_error = None, pe_timeout_error = Some DeadlineExceeded, pe_started = wall_time 1000, pe_captured = wall_time 9000,
     pe_decompressors = \<lparr>dc_gzip = (\<lambda>b. Inr (\<lparr>rd_data = b @ b, rd_error = None\<rparr>, None)), dc_zlib = (\<lambda>_. Inl ''zlib: invalid header'')\<rparr>\<rparr>"

theorem proxy_response_faithful_witness:
  "\<exists>c. mr_captured (fst (Proxy_Handle (sample_env (Inr sample_reply)) sample_request sample_snapshot)) = Some c
    \<and> rs_status c = 200 \<and> rs_body c = ''hello'' \<and> map_of (rs_headers c) ''Content-Length'' = Some [''5'']
    \<and> map_of (rs_headers c) ''Connection'' = None"
proof -
  let ?h = "Proxy_Handle (sample_env (Inr sample_reply)) sample_request sample_snapshot"
  have "snd ?h = None" by code_simp
  then have h: "?h = (fst ?h, None)" by (metis prod.collapse)
  have l: "0 < lim_response_body (cs_limits sample_snapshot)" "lim_response_body (cs_limits sample_snapshot) < max_i64"
    by code_simp+
  have n: "format_int 5 = ''5''" "hop_by_hop (uy_header sample_reply) ''Connection''" "rq_method sample_request = ''GET''" by code_simp+
  have t: "tp_result (pe_transport (sample_env (Inr sample_reply)) n r) = Inr sample_reply" for n r
    by (simp add: sample_env_def)
  have s: "uy_status sample_reply = 200" "rd_data (uy_body sample_reply) = ''hello''" by (simp_all add: sample_reply_def)
  from proxy_response_faithful [OF h l] n show ?thesis
    by (auto simp: t s bodiless_def)
qed

theorem proxy_failures_classified_witness:
  "mr_captured (fst (Proxy_Handle (sample_env (Inl (Plain ''dial tcp: refused''))) sample_request sample_snapshot)) = None
   \<and> (\<exists>err. snd (Proxy_Handle (sample_env (Inl (Plain ''dial tcp: refused''))) sample_request sample_snapshot) = Some err
        \<and> classified None (Some DeadlineExceeded) err)"
proof -
  let ?h = "Proxy_Handle (sample_env (Inl (Plain ''dial tcp: refused''))) sample_request sample_snapshot"
  have "snd ?h \<noteq> None" by code_simp
  then obtain err where e: "snd ?h = Some err" by blast
  then have "?h = (fst ?h, Some err)" by (metis prod.collapse)
  from proxy_failures_classified [OF this] e show ?thesis by (simp add: sample_env_def)
qed

text \<open>
  Inspecting a body is bounded and never loses it: the preview is at most the configured
  size; a body without a content coding, or one that cannot be decoded, is previewed as it is
  (with the error noted in the second case); a decoded body is at most the limit, whatever the
  decompressors return.
\<close>

theorem inspection_bounded:
  assumes "1 \<le> limit" and "limit * maximumExpansionRatio \<le> max_i64"
    and "int (length body) * maximumExpansionRatio \<le> max_i64" and "0 \<le> pv_bytes settings"
    and "i = inspect dc body encoding settings limit"
  shows "(pv_enabled settings \<longrightarrow> int (length (in_preview i)) \<le> pv_bytes settings)
    \<and> (case in_decoded i of
        None \<Rightarrow> in_preview i = take (length (in_preview i)) body
          \<and> (in_truncated i \<longleftrightarrow> length (in_preview i) < length body)
          \<and> (in_error i = [] \<longleftrightarrow> trim_space encoding = [] \<or> equal_fold (trim_space encoding) ''identity'')
      | Some n \<Rightarrow> n = int (length (in_preview i)) \<and> in_error i = []
          \<and> (\<exists>d. decodeEncodings dc body encoding limit = Inr d \<and> int (length d) \<le> limit
               \<and> in_preview i = take (length (in_preview i)) d
               \<and> (in_truncated i \<longleftrightarrow> length (in_preview i) < length d)))"
proof (cases "trim_space encoding = [] \<or> equal_fold (trim_space encoding) ''identity''")
  case True
  obtain pre tr where p: "inspectionPrefix body settings = (pre, tr)" by fastforce
  from True assms(5) p inspectionPrefix_take [OF p assms(4)] show ?thesis
    unfolding inspect_def by simp
next
  case plain: False
  show ?thesis
  proof (cases "decodeEncodings dc body encoding limit")
    case (Inl err)
    obtain pre tr where p: "inspectionPrefix body settings = (pre, tr)" by fastforce
    from plain Inl assms(5) p inspectionPrefix_take [OF p assms(4)] decodeEncodings_error_nonempty [OF Inl] show ?thesis
      unfolding inspect_def by simp
  next
    case (Inr d)
    obtain pre tr where p: "inspectionPrefix d settings = (pre, tr)" by fastforce
    have "int (length d) \<le> limit"
      using Inr decode_all_bounded [OF _ assms(1,2) _ assms(3)] by (auto simp: decodeEncodings_def Let_def split: if_splits)
    with plain Inr assms(5) p inspectionPrefix_take [OF p assms(4)] show ?thesis
      unfolding inspect_def by simp
  qed
qed

theorem inspection_bounded_witness:
  "in_preview (inspect (pe_decompressors (sample_env (Inr sample_reply))) ''ab'' ''x-gzip, GZIP'' (cs_preview sample_snapshot) 100) = ''abababab''
   \<and> (\<exists>d. decodeEncodings (pe_decompressors (sample_env (Inr sample_reply))) ''ab'' ''x-gzip, GZIP'' 100 = Inr d \<and> int (length d) \<le> 100)"
proof -
  let ?i = "inspect (pe_decompressors (sample_env (Inr sample_reply))) ''ab'' ''x-gzip, GZIP'' (cs_preview sample_snapshot) 100"
  have "in_decoded ?i = Some 8" and p: "in_preview ?i = ''abababab''" by code_simp+
  moreover have "0 \<le> pv_bytes (cs_preview sample_snapshot)" by code_simp
  ultimately show ?thesis
    using inspection_bounded [of 100 "''ab''" "cs_preview sample_snapshot" ?i "pe_decompressors (sample_env (Inr sample_reply))" "''x-gzip, GZIP''"]
    by (auto simp: maximumExpansionRatio_def max_i64_def)
qed

end
