(* ===== verification/Relay_Proxy.thy ===== *)
theory Relay_Proxy
  imports Traffic_System Proxy_Response
begin

text \<open>
  The two mode handlers of the relay together with the pipeline: what a client of the traffic
  listener receives, and what the history records, when the mode is proxy.
\<close>

definition relay_handlers :: "proxy_env \<Rightarrow> string \<Rightarrow> (request \<Rightarrow> config_snapshot \<Rightarrow> mode_result \<times> go_error option) option" where
  "relay_handlers env mode =
     (if mode = ModeCapture then Some CaptureHandler_Handle
      else if mode = ModeProxy then Some (Proxy_Handle env) else None)"

abbreviation traffic :: "(envelope \<Rightarrow> nat option) \<Rightarrow> proxy_env \<Rightarrow> world pipeline_options" where
  "traffic marshal env \<equiv> relay_options marshal (relay_handlers env)"

lemma traffic_handlers [simp]: "po_handlers (traffic marshal env) = relay_handlers env"
  by (simp add: relay_options_def)

lemma relay_handlers_proxy [simp]: "relay_handlers env ModeProxy = Some (Proxy_Handle env)"
  by (simp add: relay_handlers_def)

text \<open>A request the pipeline hands to the proxy handler.\<close>

definition proxied :: "http_request \<Rightarrow> config_snapshot \<Rightarrow> bool" where
  "proxied incoming snapshot \<longleftrightarrow> cs_mode snapshot = ModeProxy \<and> headers_fit incoming snapshot
     \<and> snd (snd (ReadBody (hq_body incoming) (lim_request_body (cs_limits snapshot)))) = None"

lemma writeDownstream_fresh:
  assumes "200 \<le> dr_status response" and "dr_status response \<le> 599"
  shows "map_option fst (rw_sent (fst (writeDownstream (fresh_writer None) response))) = Some (dr_status response)"
    and "rw_output (fst (writeDownstream (fresh_writer None) response))
      = (if bodiless (dr_status response) then [] else dr_body response)"
  using assms writeDownstream_sent [of "fresh_writer None" response]
  by (simp_all add: writeDownstream_def Write_def WriteHeader_def fresh_writer_def Let_def normalizedStatus_id split: if_splits)

text \<open>Without persistence, a request within the concurrency limit enters the history.\<close>

lemma relay_memory_serves:
  assumes "wd_writer (rn_shared r) = None" and "wd_others (rn_shared r) = (\<lambda>_. [])"
    and "wd_random (rn_shared r) = (\<lambda>_. Some bytes)"
    and "pl_in_flight (rn_pipeline r) < 1"
  shows "saves (rn_log (ServeHTTP (traffic marshal env) incoming r)) \<noteq> []"
proof -
  let ?p = "traffic marshal env" and ?sn = "po_snapshot (traffic marshal env) (rn_shared r)"
  have others: "others marshal w = w\<lparr>wd_calls := wd_calls w + 1\<rparr>" if "wd_others w = (\<lambda>_. [])" for w
    using that by (simp add: others_def)
  show ?thesis
  proof (cases rule: ServeHTTP_cases [of ?p r incoming])
    case (full r1)
    with assms(4) show ?thesis by (auto simp: do_admit_def admit_def Let_def split: if_splits prod.splits)
  next
    case (unreserved r1 r2 res)
    then have "rn_shared r1 = rn_shared r" by (simp add: do_admit_sel)
    with unreserved(2) assms show ?thesis
      by (simp add: reservePersistence_def relay_options_def repository_Reserve_def Let_def others split: prod.splits)
  next
    case (nameless r1 r2 r3 res err)
    then have "rn_shared r1 = rn_shared r" by (simp add: do_admit_sel)
    with nameless(2) assms have "wd_others (rn_shared r2) = (\<lambda>_. [])" "wd_random (rn_shared r2) = (\<lambda>_. Some bytes)"
      by (auto simp: reservePersistence_def relay_options_def repository_Reserve_def Let_def others log_call_def)
    with nameless(3) show ?thesis
      by (simp add: startExchange_def do_now_def do_id_def relay_options_def Let_def others NewID_def split: sum.splits)
  next
    case (serving ph)
    from served_saves [OF this] show ?thesis by auto
  qed
qed


text \<open>
  C15. Failures of the proxy reach the client and the history: when the proxy handler fails and the
  client did not cancel, the exchange ends failed with one of the nine categories, and the client
  receives the status that belongs to it.
\<close>

theorem proxied_failure_reported:
  assumes "rn_log r = []" and "saves (rn_log (ServeHTTP (traffic marshal env) incoming r)) \<noteq> []"
    and "snapshot = po_snapshot (traffic marshal env) (rn_shared r)" and "proxied incoming snapshot"
    and "Proxy_Handle env (received_request incoming snapshot) snapshot = (res, Some err)"
    and "rw_sent (rn_writer r) = None" and "hq_context_err incoming = None" and "\<not> errors_is err Canceled"
  shows "\<exists>status category. (status, category) \<in> gateway_failures
    \<and> ex_state (last (saves (rn_log (ServeHTTP (traffic marshal env) incoming r)))) = StateFailed
    \<and> map_option ee_category (ex_error (last (saves (rn_log (ServeHTTP (traffic marshal env) incoming r))))) = Some category
    \<and> map_option fst (rw_sent (rn_writer (ServeHTTP (traffic marshal env) incoming r))) = Some status"
proof -
  have "classified (pe_parent_error env) (pe_timeout_error env) err"
    using Proxy_Handle_failed [OF assms(5)] by simp
  then obtain status category message cause where err: "err = ModeError status category message cause"
    and g: "(status, category) \<in> gateway_failures"
    using assms(8) by (auto simp: classified_def context_is_def)
  have range: "normalizedStatus status = status" "200 \<le> status"
    using g by (auto simp: gateway_failures_def normalizedStatus_def)
  obtain body observed where "ReadBody (hq_body incoming) (lim_request_body (cs_limits snapshot)) = (body, observed, None)"
    using assms(4) by (cases "ReadBody (hq_body incoming) (lim_request_body (cs_limits snapshot))") (simp add: proxied_def)
  then have "outcome (traffic marshal env) incoming snapshot (rn_writer r) = (StateFailed, Some category, status)"
    using assms(4,5,7,8) err range by (simp add: outcome_def mode_outcome_def proxied_def headers_fit_def modeFailure_def)
  from saved_outcome [OF assms(1,6,2) this [unfolded assms(3)]] g range show ?thesis by blast
qed

definition proxy_config :: config where
  "proxy_config = Defaults\<lparr>cf_mode := ModeProxy, cf_upstream := \<lparr>up_url = ''http://backend:9000/api'', up_timeout = 30 * second_ns\<rparr>\<rparr>"

definition proxy_relay :: "world run" where
  "proxy_relay = sample_relay\<lparr>rn_shared := sample_world\<lparr>wd_config := proxy_config, wd_writer := None, wd_others := (\<lambda>_. [])\<rparr>\<rparr>"

lemma proxy_relay_saves:
  "rn_log proxy_relay = []" "rn_writer proxy_relay = fresh_writer None"
  "saves (rn_log (ServeHTTP (traffic (\<lambda>_. Some 1) env) (sample_incoming ''hi'') proxy_relay)) \<noteq> []"
  "po_snapshot (traffic (\<lambda>_. Some 1) env) (rn_shared proxy_relay) = NewConfigSnapshot proxy_config 1"
proof -
  show "saves (rn_log (ServeHTTP (traffic (\<lambda>_. Some 1) env) (sample_incoming ''hi'') proxy_relay)) \<noteq> []"
    by (rule relay_memory_serves) (simp_all add: proxy_relay_def sample_relay_def sample_world_def)
qed (simp_all add: proxy_relay_def sample_relay_def sample_world_def relay_options_def)

lemma proxy_relay_proxied: "proxied (sample_incoming ''hi'') (NewConfigSnapshot proxy_config 1)"
  unfolding proxied_def headers_fit_def by code_simp


theorem proxied_failure_reported_witness:
  "ex_state (last (saves (rn_log (ServeHTTP (traffic (\<lambda>_. Some 1) (sample_env (Inl (Plain ''dial tcp: refused'')))) (sample_incoming ''hi'') proxy_relay)))) = StateFailed"
proof -
  let ?sn = "NewConfigSnapshot proxy_config 1" and ?env = "sample_env (Inl (Plain ''dial tcp: refused''))"
  let ?h = "Proxy_Handle ?env (received_request (sample_incoming ''hi'') ?sn) ?sn"
  have "(case snd ?h of None \<Rightarrow> False | Some err \<Rightarrow> \<not> errors_is err Canceled)" by code_simp
  then obtain err where e: "snd ?h = Some err" "\<not> errors_is err Canceled" by (auto split: option.splits)
  then have h: "?h = (fst ?h, Some err)" by (metis prod.collapse)
  have w: "rw_sent (rn_writer proxy_relay) = None" by (simp add: proxy_relay_saves fresh_writer_def)
  have c: "hq_context_err (sample_incoming ''hi'') = None" by (simp add: sample_incoming_def)
  from proxied_failure_reported [OF proxy_relay_saves(1,3) proxy_relay_saves(4) [symmetric] proxy_relay_proxied h w c e(2)]
  show ?thesis by blast
qed

end
