(* ===== verification/Config_Rules.thy ===== *)
theory Config_Rules
  imports Config_Types Go_Url
begin

text \<open>
  The rules of \<open>internal/config/config.go\<close>: \<open>Validate\<close> with its helpers, \<open>ResolveConfigPath\<close>
  and \<open>DefaultPaths\<close>. \<open>errors.Join\<close> of the collected errors is the list of them, empty for \<open>nil\<close>;
  an error is named by what it says, without its text. A header map is a list, so errors about
  headers come in its order.
\<close>

datatype config_error =
    BadMode | ListenerMissing string | ListenerMalformed string | ListenersEqual
  | UpstreamUnparsable | UpstreamScheme | UpstreamAuthority | UpstreamExtra | UpstreamLoops
  | BadTimeout | BadCaptureStatus | BadHeaderName string | FramingHeader string | HeaderLineBreak string
  | BadBodyLimits | BadHeaderLimits | BadConcurrency | BadPreview | PreviewExceedsBody | BadHistory
  | BadStorageMode | BadRetention | HalfCredentials | BadSessionTTL | BadShutdown
  | BadUDPMode | UDPListenerTaken | BadDatagramBytes | BadSessionCount | BadUDPSessionTTL | BadReplyRate
  | BadReplyByteRate | ReplyTooLarge | UDPUpstreamInCapture | UDPUpstreamMissing | UDPUpstreamMalformed
  | UDPUpstreamNotUnicast | UDPReplyInProxy

section \<open>Listeners and upstreams\<close>

definition validateListener :: "string \<Rightarrow> string \<Rightarrow> config_error option" where
  "validateListener name address =
     (if address = [] then Some (ListenerMissing name)
      else if split_host_port address = None then Some (ListenerMalformed name) else None)"

definition validateUpstream :: "string \<Rightarrow> config_error option" where
  "validateUpstream raw =
     (case url_parse raw of
        None \<Rightarrow> Some UpstreamUnparsable
      | Some parsed \<Rightarrow>
          if \<not> equal_fold (url_scheme parsed) ''http'' \<and> \<not> equal_fold (url_scheme parsed) ''https'' then Some UpstreamScheme
          else if url_host parsed = [] then Some UpstreamAuthority
          else if url_user parsed \<or> url_fragment parsed \<noteq> [] \<or> url_raw_query parsed \<noteq> [] \<or> url_force_query parsed
          then Some UpstreamExtra else None)"

definition localHostsOverlap :: "string \<Rightarrow> string \<Rightarrow> bool" where
  "localHostsOverlap listenerHost upstreamHost =
     (let listenerLocal = (listenerHost = [] \<or> equal_fold listenerHost ''localhost''
            \<or> (case parse_ip listenerHost of None \<Rightarrow> False | Some ip \<Rightarrow> is_loopback ip \<or> is_unspecified ip));
          upstreamLocal = (equal_fold upstreamHost ''localhost''
            \<or> (case parse_ip upstreamHost of None \<Rightarrow> False | Some ip \<Rightarrow> is_loopback ip))
      in listenerLocal \<and> upstreamLocal)"

definition upstreamLoopsToListener :: "string \<Rightarrow> listeners \<Rightarrow> bool" where
  "upstreamLoopsToListener raw ls =
     (case url_parse raw of
        None \<Rightarrow> False
      | Some parsed \<Rightarrow>
          let (upstreamHost, port) = host_and_port parsed;
              upstreamPort = (if port \<noteq> [] then port
                 else if equal_fold (url_scheme parsed) ''http'' then ''80''
                 else if url_scheme parsed = ''https'' then ''443'' else [])
          in list_ex (\<lambda>address. case split_host_port address of
                 None \<Rightarrow> False
               | Some (listenerHost, listenerPort) \<Rightarrow> listenerPort = upstreamPort
                   \<and> (equal_fold listenerHost upstreamHost \<or> localHostsOverlap listenerHost upstreamHost))
               [ls_management ls, ls_traffic ls])"

definition isIPv4Broadcast :: "nat list \<Rightarrow> bool" where
  "isIPv4Broadcast ip = (case to_v4 ip of None \<Rightarrow> False
     | Some q \<Rightarrow> q ! 0 = 255 \<and> q ! 1 = 255 \<and> q ! 2 = 255 \<and> q ! 3 = 255)"

definition validateUDPUpstream :: "string \<Rightarrow> config_error option" where
  "validateUDPUpstream address =
     (case split_host_port address of
        None \<Rightarrow> Some UDPUpstreamMalformed
      | Some (host, port) \<Rightarrow>
          if host = [] \<or> port = [] then Some UDPUpstreamMalformed
          else (case parse_ip host of
              None \<Rightarrow> None
            | Some ip \<Rightarrow> if is_unspecified ip \<or> is_multicast ip \<or> isIPv4Broadcast ip then Some UDPUpstreamNotUnicast else None))"

text \<open>A byte above 127 is part of a character above 127.\<close>

definition validHeaderName :: "string \<Rightarrow> bool" where
  "validHeaderName name \<longleftrightarrow> name \<noteq> []
     \<and> list_all (\<lambda>c. \<not> (code_of c > 127 \<or> c \<in> set ''()<>@,;:/[]?={} '' \<or> code_of c \<in> {9, 34, 92} \<or> code_of c < 33)) name"

section \<open>\<open>Validate\<close>\<close>

definition check :: "bool \<Rightarrow> config_error \<Rightarrow> config_error list" where
  "check bad e = (if bad then [e] else [])"

definition list_of :: "'a option \<Rightarrow> 'a list" where
  "list_of x = (case x of None \<Rightarrow> [] | Some e \<Rightarrow> [e])"

definition header_errors :: "string \<times> string list \<Rightarrow> config_error list" where
  "header_errors h = (case h of (name, values) \<Rightarrow>
     check (\<not> validHeaderName name) (BadHeaderName name)
     @ check (to_lower name \<in> {''content-length'', ''transfer-encoding'', ''trailer'', ''connection''}) (FramingHeader name)
     @ concat (map (\<lambda>value. check (CHR 13 \<in> set value \<or> CHR 10 \<in> set value) (HeaderLineBreak name)) values))"

definition validateUDP :: "config \<Rightarrow> config_error list" where
  "validateUDP cfg =
     (let u = cf_udp cfg; ls = cf_listeners cfg
      in check (udp_mode u \<noteq> ModeCapture \<and> udp_mode u \<noteq> ModeProxy) BadUDPMode
         @ list_of (validateListener ''UDP listener'' (udp_listen u))
         @ check (udp_listen u = ls_management ls \<or> udp_listen u = ls_traffic ls) UDPListenerTaken
         @ check (udp_max_datagram u \<le> 0 \<or> udp_max_datagram u > 65507) BadDatagramBytes
         @ check (udp_max_sessions u \<le> 0 \<or> udp_max_sessions u > 4096) BadSessionCount
         @ check (udp_session_ttl u \<le> 0 \<or> udp_session_ttl u > 30 * second_ns) BadUDPSessionTTL
         @ check (udp_max_replies u \<le> 0) BadReplyRate
         @ check (udp_max_reply_bytes u \<le> 0) BadReplyByteRate
         @ check (int (length (udp_capture_response u)) > udp_max_datagram u) ReplyTooLarge
         @ (if udp_mode u = ModeCapture then check (udp_upstream u \<noteq> []) UDPUpstreamInCapture
            else if udp_mode u = ModeProxy then
              (if udp_upstream u = [] then [UDPUpstreamMissing] else list_of (validateUDPUpstream (udp_upstream u)))
              @ check (udp_capture_response u \<noteq> []) UDPReplyInProxy
            else []))"

definition Validate :: "config \<Rightarrow> config_error list" where
  "Validate cfg =
     (let ls = cf_listeners cfg; l = cf_limits cfg; p = cf_preview cfg
      in check (cf_mode cfg \<noteq> ModeCapture \<and> cf_mode cfg \<noteq> ModeProxy) BadMode
         @ list_of (validateListener ''management listener'' (ls_management ls))
         @ list_of (validateListener ''traffic listener'' (ls_traffic ls))
         @ check (ls_management ls = ls_traffic ls) ListenersEqual
         @ (if cf_mode cfg = ModeProxy then
              (case validateUpstream (up_url (cf_upstream cfg)) of
                 Some e \<Rightarrow> [e]
               | None \<Rightarrow> check (upstreamLoopsToListener (up_url (cf_upstream cfg)) ls) UpstreamLoops)
            else [])
         @ check (up_timeout (cf_upstream cfg) \<le> 0) BadTimeout
         @ check (cap_status (cf_capture cfg) < 200 \<or> cap_status (cf_capture cfg) > 599) BadCaptureStatus
         @ concat (map header_errors (cap_headers (cf_capture cfg)))
         @ check (lim_request_body l \<le> 0 \<or> lim_response_body l \<le> 0) BadBodyLimits
         @ check (lim_request_header l \<le> 0 \<or> lim_response_header l \<le> 0) BadHeaderLimits
         @ check (lim_concurrent l \<le> 0) BadConcurrency
         @ (if pv_bytes p \<le> 0 then [BadPreview]
            else check (pv_bytes p > lim_request_body l \<or> pv_bytes p > lim_response_body l) PreviewExceedsBody)
         @ check (cf_history_max cfg \<le> 0) BadHistory
         @ check (sto_mode (cf_storage cfg) \<noteq> StorageMemory \<and> sto_mode (cf_storage cfg) \<noteq> StorageSQLite) BadStorageMode
         @ check (sto_retention_days (cf_storage cfg) < 0) BadRetention
         @ check ((au_username (cf_auth cfg) = []) \<noteq> (au_password (cf_auth cfg) = [])) HalfCredentials
         @ check (au_session_ttl (cf_auth cfg) \<le> 0) BadSessionTTL
         @ validateUDP cfg
         @ check (cf_shutdown cfg \<le> 0) BadShutdown)"

section \<open>Configuration paths\<close>

text \<open>\<open>filepath.Clean\<close>, \<open>Join\<close>, \<open>Dir\<close> and \<open>IsAbs\<close> with \<open>/\<close> as separator.\<close>

fun clean_elements :: "bool \<Rightarrow> string list \<Rightarrow> string list \<Rightarrow> string list" where
  "clean_elements rooted out [] = rev out"
| "clean_elements rooted out (e # es) =
     (if e = [] \<or> e = ''.'' then clean_elements rooted out es
      else if e = ''..'' then
        (case out of
           [] \<Rightarrow> clean_elements rooted (if rooted then [] else [''..'']) es
         | prev # rest \<Rightarrow> clean_elements rooted (if prev = ''..'' then ''..'' # out else rest) es)
      else clean_elements rooted (e # out) es)"

fun join_with :: "string \<Rightarrow> string list \<Rightarrow> string" where
  "join_with sep [] = []"
| "join_with sep [s] = s"
| "join_with sep (s # t # ss) = s @ sep @ join_with sep (t # ss)"

definition path_clean :: "string \<Rightarrow> string" where
  "path_clean p =
     (let rooted = has_prefix ''/'' p; body = join_with ''/'' (clean_elements rooted [] (split_on (CHR ''/'') p))
      in if rooted then ''/'' @ body else if body = [] then ''.'' else body)"

definition path_join :: "string list \<Rightarrow> string" where
  "path_join elements =
     (case dropWhile (\<lambda>e. e = []) elements of [] \<Rightarrow> [] | es \<Rightarrow> path_clean (join_with ''/'' es))"

definition path_dir :: "string \<Rightarrow> string" where
  "path_dir p = path_clean (rev (dropWhile (\<lambda>c. c \<noteq> CHR ''/'') (rev p)))"

definition Prefix :: string where
  "Prefix = ''REQRELAY''"

text \<open>The loop over the arguments, then over the two environment variables, then the default.\<close>

datatype path_error = EmptyPath string | NoHome | NoAppData

fun config_argument :: "string list \<Rightarrow> (path_error + string) option" where
  "config_argument [] = None"
| "config_argument (argument # args) =
     (if argument = ''--config'' then
        Some (case args of [] \<Rightarrow> Inl (EmptyPath ''--config'')
          | next # _ \<Rightarrow> if next = [] then Inl (EmptyPath ''--config'') else Inr next)
      else if has_prefix ''--config='' argument then
        (let path = trim_prefix ''--config='' argument
         in Some (if path = [] then Inl (EmptyPath ''--config'') else Inr path))
      else config_argument args)"

fun config_variable :: "string list \<Rightarrow> (string \<Rightarrow> string option) \<Rightarrow> (path_error + string) option" where
  "config_variable [] lookupEnv = None"
| "config_variable (envKey # keys) lookupEnv =
     (case lookupEnv envKey of
        Some path \<Rightarrow> Some (if path = [] then Inl (EmptyPath envKey) else Inr path)
      | None \<Rightarrow> config_variable keys lookupEnv)"

definition ResolveConfigPath :: "string list \<Rightarrow> (string \<Rightarrow> string option) \<Rightarrow> path_error + string \<Rightarrow> (path_error + string) \<times> bool" where
  "ResolveConfigPath args lookupEnv defaultPath =
     (case config_argument args of
        Some r \<Rightarrow> (r, True)
      | None \<Rightarrow> (case config_variable [Prefix @ ''_CONFIG'', ''REQUESTINSPECTOR_RELAY_CONFIG''] lookupEnv of
            Some r \<Rightarrow> (r, True)
          | None \<Rightarrow> (defaultPath, False)))"

definition DefaultPaths :: "string \<Rightarrow> string \<Rightarrow> string \<Rightarrow> string \<Rightarrow> string \<Rightarrow> string \<Rightarrow> path_error + (string \<times> string)" where
  "DefaultPaths goos home xdgConfig xdgData appData localAppData =
     (if goos = ''darwin'' then
        (if home = [] then Inl NoHome
         else let directory = path_join [home, ''Library'', ''Application Support'', ''RequestInspectorRelay'']
              in Inr (path_join [directory, ''reqrelay.yaml''], path_join [directory, ''reqrelay.db'']))
      else if goos = ''windows'' then
        (if appData = [] \<or> localAppData = [] then Inl NoAppData
         else Inr (path_join [appData, ''RequestInspectorRelay'', ''reqrelay.yaml''],
                   path_join [localAppData, ''RequestInspectorRelay'', ''reqrelay.db'']))
      else if home = [] \<and> (xdgConfig = [] \<or> xdgData = []) then Inl NoHome
      else
        let configRoot = (if xdgConfig = [] then path_join [home, ''.config''] else xdgConfig);
            dataRoot = (if xdgData = [] then path_join [home, ''.local'', ''share''] else xdgData)
        in Inr (path_join [configRoot, ''requestinspector-relay'', ''reqrelay.yaml''],
                path_join [dataRoot, ''requestinspector-relay'', ''reqrelay.db'']))"

text \<open>\<open>resolveSQLitePath\<close>; the default path is that of \<open>DefaultPaths\<close> on the running system.\<close>

definition resolveSQLitePath :: "path_error + string \<Rightarrow> config \<Rightarrow> string \<Rightarrow> path_error + config" where
  "resolveSQLitePath defaultSQLite cfg configPath =
     (let p = sto_sqlite_path (cf_storage cfg)
      in if p = [] then
           (case defaultSQLite of Inl e \<Rightarrow> Inl e
            | Inr path \<Rightarrow> Inr (cfg\<lparr>cf_storage := (cf_storage cfg)\<lparr>sto_sqlite_path := path\<rparr>\<rparr>))
         else if \<not> has_prefix ''/'' p
         then Inr (cfg\<lparr>cf_storage := (cf_storage cfg)\<lparr>sto_sqlite_path := path_join [path_dir configPath, p]\<rparr>\<rparr>)
         else Inr cfg)"

section \<open>Lemmas\<close>

lemma check_empty [simp]: "check bad e = [] \<longleftrightarrow> \<not> bad"
  by (simp add: check_def)

lemma list_of_empty [simp]: "list_of x = [] \<longleftrightarrow> x = None"
  by (simp add: list_of_def split: option.split)

lemma validateListener_ok: "validateListener name address = None \<longleftrightarrow> split_host_port address \<noteq> None"
  by (auto simp: validateListener_def split_host_port_def)

text \<open>What the empty list of errors says, one fact per rule.\<close>

lemma Validate_ok:
  assumes "Validate cfg = []"
  shows "cf_mode cfg = ModeCapture \<or> cf_mode cfg = ModeProxy"
    and "split_host_port (ls_management (cf_listeners cfg)) \<noteq> None"
    and "split_host_port (ls_traffic (cf_listeners cfg)) \<noteq> None"
    and "ls_management (cf_listeners cfg) \<noteq> ls_traffic (cf_listeners cfg)"
    and "cf_mode cfg = ModeProxy \<Longrightarrow> validateUpstream (up_url (cf_upstream cfg)) = None
      \<and> \<not> upstreamLoopsToListener (up_url (cf_upstream cfg)) (cf_listeners cfg)"
    and "0 < up_timeout (cf_upstream cfg)"
    and "200 \<le> cap_status (cf_capture cfg)" "cap_status (cf_capture cfg) \<le> 599"
    and "0 < lim_request_body (cf_limits cfg)" "0 < lim_response_body (cf_limits cfg)"
    and "0 < lim_request_header (cf_limits cfg)" "0 < lim_response_header (cf_limits cfg)" "0 < lim_concurrent (cf_limits cfg)"
    and "0 < pv_bytes (cf_preview cfg)" "pv_bytes (cf_preview cfg) \<le> lim_request_body (cf_limits cfg)"
      "pv_bytes (cf_preview cfg) \<le> lim_response_body (cf_limits cfg)"
    and "0 < cf_history_max cfg" and "validateUDP cfg = []"
    and "(au_username (cf_auth cfg) = []) = (au_password (cf_auth cfg) = [])"
  using assms unfolding Validate_def Let_def
  by (auto simp: validateListener_ok not_le split: if_splits option.splits)


lemma Validate_Defaults: "Validate Defaults = []"
  by code_simp

text \<open>The record update keeps whatever a rule does not read.\<close>

lemma Validate_config_path [simp]: "Validate (cfg\<lparr>cf_config_path := path\<rparr>) = Validate cfg"
  by (simp add: Validate_def validateUDP_def Let_def split: option.split)

lemma Validate_sqlite_path [simp]:
  "Validate (cfg\<lparr>cf_storage := (cf_storage cfg)\<lparr>sto_sqlite_path := path\<rparr>\<rparr>) = Validate cfg"
  by (simp add: Validate_def validateUDP_def Let_def split: option.split)

lemma Validate_upstream:
  assumes "Validate cfg = []" and "cf_mode cfg = ModeProxy"
  obtains u where "url_parse (up_url (cf_upstream cfg)) = Some u"
    and "equal_fold (url_scheme u) ''http'' \<or> equal_fold (url_scheme u) ''https''" and "url_host u \<noteq> []"
    and "\<not> url_user u" and "url_fragment u = []" and "url_raw_query u = []" and "\<not> url_force_query u"
    and "\<not> upstreamLoopsToListener (up_url (cf_upstream cfg)) (cf_listeners cfg)"
  using Validate_ok(5) [OF assms] unfolding validateUpstream_def by (auto split: option.splits if_splits)

lemma no_loop:
  assumes "\<not> upstreamLoopsToListener raw ls" and "url_parse raw = Some u" and "host_and_port u = (host, port)"
    and "port \<noteq> []" and "address \<in> {ls_management ls, ls_traffic ls}" and "split_host_port address = Some (lhost, port)"
  shows "\<not> equal_fold lhost host" and "\<not> localHostsOverlap lhost host"
  using assms by (auto simp: upstreamLoopsToListener_def)

lemma Validate_udp:
  assumes "Validate cfg = []"
  shows "0 < udp_max_datagram (cf_udp cfg)" and "udp_max_datagram (cf_udp cfg) \<le> 65507"
    and "0 < udp_max_sessions (cf_udp cfg)" and "udp_max_sessions (cf_udp cfg) \<le> 4096"
    and "0 < udp_session_ttl (cf_udp cfg)" and "udp_session_ttl (cf_udp cfg) \<le> 30 * second_ns"
    and "0 < udp_max_replies (cf_udp cfg)" and "0 < udp_max_reply_bytes (cf_udp cfg)"
    and "int (length (udp_capture_response (cf_udp cfg))) \<le> udp_max_datagram (cf_udp cfg)"
    and "udp_mode (cf_udp cfg) = ModeCapture \<or> udp_mode (cf_udp cfg) = ModeProxy"
    and "udp_listen (cf_udp cfg) \<notin> {ls_management (cf_listeners cfg), ls_traffic (cf_listeners cfg)}"
  using Validate_ok(18) [OF assms] unfolding validateUDP_def Let_def
  by (auto simp: not_le split: if_splits)

section \<open>Properties\<close>

definition sample_proxy_config :: config where
  "sample_proxy_config = Defaults\<lparr>cf_mode := ModeProxy,
     cf_upstream := \<lparr>up_url = ''http://127.0.0.1:9000/api'', up_timeout = second_ns\<rparr>\<rparr>"

lemma Validate_sample: "Validate sample_proxy_config = []" "cf_mode sample_proxy_config = ModeProxy"
  by code_simp+



text \<open>
  The host \<open>0.0.0.0\<close> reaches the local machine as well, but is not counted as local: a relay
  that listens on every interface accepts itself as its upstream.
\<close>

lemma unspecified_upstream_accepted:
  "Validate (Defaults\<lparr>cf_mode := ModeProxy,
     cf_listeners := \<lparr>ls_management = ''127.0.0.1:8080'', ls_traffic = '':8081''\<rparr>,
     cf_upstream := \<lparr>up_url = ''http://0.0.0.0:8081'', up_timeout = second_ns\<rparr>\<rparr>) = []"
  by code_simp

text \<open>A path that \<open>ResolveConfigPath\<close> takes from the command line or the environment is not empty.\<close>

lemma config_argument_path: "config_argument args = Some (Inr path) \<Longrightarrow> path \<noteq> []"
proof (induction args)
  case (Cons argument args)
  from Cons.prems show ?case
    unfolding config_argument.simps(2) Let_def using Cons.IH
    by (auto simp del: config_argument.simps split: if_splits list.splits)
qed simp

lemma config_variable_path: "config_variable keys env = Some (Inr path) \<Longrightarrow> path \<noteq> []"
  by (induction keys) (auto split: if_splits option.splits)

lemma ResolveConfigPath_explicit: "ResolveConfigPath args env d = (Inr path, True) \<Longrightarrow> path \<noteq> []"
  by (auto simp: ResolveConfigPath_def config_argument_path config_variable_path simp del: config_variable.simps split: option.splits)

lemma resolveSQLitePath_Validate: "resolveSQLitePath d cfg path = Inr cfg' \<Longrightarrow> Validate cfg' = Validate cfg"
  by (auto simp: resolveSQLitePath_def Let_def split: if_splits sum.splits)

end
