(* ===== verification/Go_Duration.thy ===== *)
theory Go_Duration
  imports Go_Text
begin

text \<open>
  Go's \<open>time.ParseDuration\<close>, which \<open>decodeDuration\<close> of \<open>internal/config/config.go\<close> calls: a sign,
  then terms of an integer part, an optional fraction and a unit. The fraction of a unit is
  computed in floating point there, \<open>uint64(float64(f) * (float64(unit) / scale))\<close>; this one
  product is the parameter \<open>frac\<close> of the definitions, of the fraction's digits \<open>f\<close>, the unit and
  the number of digits.
\<close>

definition limit_2_63 :: int where
  "limit_2_63 = 9223372036854775808"

fun leading_int :: "int \<Rightarrow> string \<Rightarrow> (int \<times> string) option" where
  "leading_int x [] = Some (x, [])"
| "leading_int x (c # s) =
     (if \<not> is_digit c then Some (x, c # s)
      else if x > 922337203685477580 then None
      else if 10 * x + int (digit_value c) > limit_2_63 then None
      else leading_int (10 * x + int (digit_value c)) s)"

text \<open>\<open>leadingFraction\<close>: digits that would overflow are read and dropped.\<close>

fun leading_fraction :: "int \<Rightarrow> nat \<Rightarrow> bool \<Rightarrow> string \<Rightarrow> int \<times> nat \<times> string" where
  "leading_fraction x k overflow [] = (x, k, [])"
| "leading_fraction x k overflow (c # s) =
     (if \<not> is_digit c then (x, k, c # s)
      else if overflow \<or> x > 922337203685477580 \<or> 10 * x + int (digit_value c) > limit_2_63
      then leading_fraction x k True s
      else leading_fraction (10 * x + int (digit_value c)) (k + 1) False s)"

definition duration_units :: "(string \<times> int) list" where
  "duration_units = [(''ns'', 1), (''us'', 1000), ([CHR 0xC2, CHR 0xB5, CHR ''s''], 1000),
     ([CHR 0xCE, CHR 0xBC, CHR ''s''], 1000), (''ms'', 1000000), (''s'', 1000000000),
     (''m'', 60000000000), (''h'', 3600000000000)]"

text \<open>One pass of the loop: the nanoseconds of the first term, and the text after it.\<close>

definition duration_term :: "(int \<Rightarrow> int \<Rightarrow> nat \<Rightarrow> int) \<Rightarrow> string \<Rightarrow> (int \<times> string) option" where
  "duration_term frac s =
     (if s = [] \<or> \<not> (hd s = CHR ''.'' \<or> is_digit (hd s)) then None
      else case leading_int 0 s of
          None \<Rightarrow> None
        | Some (v, s1) \<Rightarrow>
            let (f, k, s2) = (if has_prefix ''.'' s1 then leading_fraction 0 0 False (tl s1) else (0, 0, s1));
                post = (has_prefix ''.'' s1 \<and> length s2 < length (tl s1));
                letter = (\<lambda>c. \<not> (c = CHR ''.'' \<or> is_digit c));
                u = takeWhile letter s2; rest = dropWhile letter s2
            in if length s1 = length s \<and> \<not> post then None
               else if u = [] then None
               else (case map_of duration_units u of
                   None \<Rightarrow> None
                 | Some unit \<Rightarrow>
                     if v > limit_2_63 div unit then None
                     else if f > 0 \<and> v * unit + frac f unit k > limit_2_63 then None
                     else Some (v * unit + (if f > 0 then frac f unit k else 0), rest)))"

lemma leading_int_length: "leading_int x s = Some (v, r) \<Longrightarrow> length r \<le> length s"
  by (induction x s rule: leading_int.induct) (auto split: if_splits)

lemma leading_fraction_length: "leading_fraction x k b s = (f, j, r) \<Longrightarrow> length r \<le> length s"
  by (induction x k b s rule: leading_fraction.induct) (auto split: if_splits)

lemma duration_term_length:
  assumes "duration_term frac s = Some (v, rest)"
  shows "length rest < length s"
proof -
  let ?letter = "\<lambda>c. \<not> (c = CHR ''.'' \<or> is_digit c)"
  obtain w s1 where s1: "leading_int 0 s = Some (w, s1)"
    using assms by (auto simp: duration_term_def split: if_splits option.splits)
  obtain f k s2 where s2: "(if has_prefix ''.'' s1 then leading_fraction 0 0 False (tl s1) else (0, 0, s1)) = (f, k, s2)"
    by (rule prod_cases3)
  have u: "takeWhile ?letter s2 \<noteq> []" and r: "rest = dropWhile ?letter s2"
    using assms s1 s2 by (auto simp: duration_term_def Let_def split: if_splits option.splits)
  have "length s2 \<le> length s1"
    using s2 leading_fraction_length [of 0 0 False "tl s1"] by (auto split: if_splits)
  moreover have "length rest < length s2"
  proof -
    have "length (takeWhile ?letter s2) + length rest = length s2"
      unfolding r by (metis length_append takeWhile_dropWhile_id)
    then show ?thesis using u by (cases "takeWhile ?letter s2") auto
  qed
  ultimately show ?thesis using leading_int_length [OF s1] by simp
qed

function duration_loop :: "(int \<Rightarrow> int \<Rightarrow> nat \<Rightarrow> int) \<Rightarrow> int \<Rightarrow> string \<Rightarrow> int option" where
  "duration_loop frac d s =
     (if s = [] then Some d
      else case duration_term frac s of
          None \<Rightarrow> None
        | Some (v, rest) \<Rightarrow> if d + v > limit_2_63 then None else duration_loop frac (d + v) rest)"
  by pat_completeness auto
termination
  by (relation "measure (\<lambda>(frac, d, s). length s)") (auto dest: duration_term_length)

declare duration_loop.simps [simp del]

definition parse_duration :: "(int \<Rightarrow> int \<Rightarrow> nat \<Rightarrow> int) \<Rightarrow> string \<Rightarrow> int option" where
  "parse_duration frac s =
     (let negative = has_prefix ''-'' s; body = (if negative \<or> has_prefix ''+'' s then tl s else s)
      in if body = ''0'' then Some 0
         else if body = [] then None
         else case duration_loop frac 0 body of
             None \<Rightarrow> None
           | Some d \<Rightarrow> if negative then Some (- d) else if d > max_i64 then None else Some d)"

text \<open>A parsed duration is an \<open>int64\<close>, if the fractions are not negative.\<close>

lemma leading_int_bounds: "leading_int x s = Some (v, r) \<Longrightarrow> 0 \<le> x \<Longrightarrow> 0 \<le> v"
  by (induction x s rule: leading_int.induct) (auto split: if_splits)

lemma duration_term_nonneg:
  assumes "duration_term frac s = Some (v, rest)" and "\<And>f u k. 0 \<le> frac f u k"
  shows "0 \<le> v"
proof -
  have units: "0 \<le> unit" if "map_of duration_units u = Some unit" for u unit
    using map_of_SomeD [OF that] by (auto simp: duration_units_def)
  show ?thesis
    using assms(1) units leading_int_bounds assms(2)
    by (auto simp: duration_term_def Let_def split: if_splits option.splits prod.splits)
qed

lemma duration_loop_bound:
  "duration_loop frac d s = Some n \<Longrightarrow> (\<And>f u k. 0 \<le> frac f u k) \<Longrightarrow> 0 \<le> d \<Longrightarrow> d \<le> limit_2_63
    \<Longrightarrow> 0 \<le> n \<and> n \<le> limit_2_63"
proof (induction frac d s rule: duration_loop.induct)
  case (1 frac d s)
  show ?case
  proof (cases "s = []")
    case True
    with "1.prems" show ?thesis by (simp add: duration_loop.simps [of frac d "[]"])
  next
    case False
    with "1.prems"(1) obtain v rest where t: "duration_term frac s = Some (v, rest)" "\<not> d + v > limit_2_63"
      "duration_loop frac (d + v) rest = Some n"
      by (subst (asm) duration_loop.simps) (auto split: if_splits option.splits)
    have "0 \<le> v" by (rule duration_term_nonneg [OF t(1)]) (rule "1.prems"(2))
    then show ?thesis using "1.IH" [OF False t(1) refl t(2,3) "1.prems"(2)] "1.prems"(3) t(2) by simp
  qed
qed

lemma parse_duration_in:
  assumes "parse_duration frac s = Some d" and "\<And>f u k. 0 \<le> frac f u k"
  shows "in_i64 d"
proof -
  have "in_i64 (- n)" "n \<le> max_i64 \<Longrightarrow> in_i64 n" if "duration_loop frac 0 t = Some n" for t n
    using duration_loop_bound [OF that assms(2)]
    by (auto simp: in_i64_def min_i64_def max_i64_def limit_2_63_def)
  with assms(1) show ?thesis
    by (auto simp: parse_duration_def Let_def not_less split: if_splits option.splits) (simp_all add: in_i64_def min_i64_def max_i64_def)
qed

lemma parse_duration_examples:
  "parse_duration frac ''30s'' = Some 30000000000"
  "parse_duration frac ''1h15m'' = Some 4500000000000"
  "parse_duration frac ''-250ms'' = Some (-250000000)"
  "parse_duration frac ''3x'' = None" "parse_duration frac '''' = None"
  by code_simp+

end
