(* ===== verification/Config_Manager.thy ===== *)
theory Config_Manager
  imports Config_Rules Go_Duration "HOL-Library.AList"
begin

text \<open>
  \<open>internal/config/manager.go\<close> and the override part of \<open>internal/config/config.go\<close>: the layers of
  the configuration, the two-phase update with its revision check, the file written by \<open>persist\<close>,
  the view and the origins.

  YAML values have the type \<open>'n\<close>; what the program does with them goes through the record
  \<open>yaml_library\<close>, the parameter that stands for \<open>gopkg.in/yaml.v3\<close> and \<open>ardanlabs/conf\<close>. A Go map
  is an association list with distinct keys; the iteration order of a Go map is the order of the
  list, which is unspecified, and \<open>applyOverrides_perm\<close> shows that it does not matter.
  Copies (\<open>cloneConfig\<close>, \<open>cloneNodes\<close>) are the identity on values.
\<close>

section \<open>The libraries\<close>

text \<open>
  \<open>Decode\<close> into a field gets the value the field has, since a null node leaves it unchanged.
  \<open>yl_json\<close> is \<open>jsonNode\<close>, \<open>yl_marshal\<close> and \<open>yl_parse\<close> encode and decode the document (its base node,
  if there is one, and the overrides), \<open>yl_check_base\<close> decodes the base into a \<open>Config\<close> with known
  fields only, \<open>yl_base_value\<close> decodes it into nested maps, and \<open>yl_conf\<close> is \<open>conf.ParseWithOptions\<close>
  on the command line and environment of the process, with whether the capture headers are set.
\<close>

datatype base_value = BaseMap "(string \<times> base_value) list" | BaseOther

record 'n yaml_library =
  yl_string :: "'n \<Rightarrow> string \<Rightarrow> string option"
  yl_int :: "'n \<Rightarrow> int \<Rightarrow> int option"
  yl_bool :: "'n \<Rightarrow> bool \<Rightarrow> bool option"
  yl_headers :: "'n \<Rightarrow> header option"
  yl_fraction :: "int \<Rightarrow> int \<Rightarrow> nat \<Rightarrow> int"
  yl_json :: "string \<Rightarrow> 'n option"
  yl_marshal :: "'n \<Rightarrow> (string \<times> 'n) list \<Rightarrow> bytes option"
  yl_parse :: "bytes \<Rightarrow> ('n option \<times> (string \<times> 'n) list) option"
  yl_check_base :: "'n \<Rightarrow> bool"
  yl_base_value :: "'n \<Rightarrow> base_value option"
  yl_empty_mapping :: 'n
  yl_conf :: "config \<Rightarrow> 'n option \<Rightarrow> (config \<times> bool) option"

datatype manager_error =
    RevisionConflict | UnknownField string | BadField string | Invalid "config_error list" | NotExist
  | PathUnavailable | EncodeFailed | FileFailed string | ParseFailed | PathFailed path_error

definition decodeDuration :: "'n yaml_library \<Rightarrow> 'n \<Rightarrow> int option" where
  "decodeDuration y node = Option.bind (yl_string y node []) (parse_duration (yl_fraction y))"

section \<open>Overrides\<close>

text \<open>The cases of \<open>applyOverrides\<close>, field by field.\<close>

definition listener_decoders :: "'n yaml_library \<Rightarrow> (string \<times> ('n \<Rightarrow> config \<Rightarrow> config option)) list" where
  "listener_decoders y = [
     (''mode'', \<lambda>v c. map_option (\<lambda>x. c\<lparr>cf_mode := x\<rparr>) (yl_string y v (cf_mode c))),
     (''listeners.management'', \<lambda>v c. map_option (\<lambda>x. c\<lparr>cf_listeners := (cf_listeners c)\<lparr>ls_management := x\<rparr>\<rparr>)
        (yl_string y v (ls_management (cf_listeners c)))),
     (''listeners.traffic'', \<lambda>v c. map_option (\<lambda>x. c\<lparr>cf_listeners := (cf_listeners c)\<lparr>ls_traffic := x\<rparr>\<rparr>)
        (yl_string y v (ls_traffic (cf_listeners c)))),
     (''upstream.url'', \<lambda>v c. map_option (\<lambda>x. c\<lparr>cf_upstream := (cf_upstream c)\<lparr>up_url := x\<rparr>\<rparr>)
        (yl_string y v (up_url (cf_upstream c)))),
     (''upstream.timeout'', \<lambda>v c. map_option (\<lambda>x. c\<lparr>cf_upstream := (cf_upstream c)\<lparr>up_timeout := x\<rparr>\<rparr>)
        (decodeDuration y v)),
     (''capture_response.status'', \<lambda>v c. map_option (\<lambda>x. c\<lparr>cf_capture := (cf_capture c)\<lparr>cap_status := x\<rparr>\<rparr>)
        (yl_int y v (cap_status (cf_capture c)))),
     (''capture_response.headers'', \<lambda>v c. map_option (\<lambda>x. c\<lparr>cf_capture := (cf_capture c)\<lparr>cap_headers := x\<rparr>\<rparr>)
        (yl_headers y v)),
     (''capture_response.body'', \<lambda>v c. map_option (\<lambda>x. c\<lparr>cf_capture := (cf_capture c)\<lparr>cap_body := x\<rparr>\<rparr>)
        (yl_string y v (cap_body (cf_capture c)))),
     (''cors.enabled'', \<lambda>v c. map_option (\<lambda>x. c\<lparr>cf_cors_enabled := x\<rparr>) (yl_bool y v (cf_cors_enabled c)))]"

definition limit_decoders :: "'n yaml_library \<Rightarrow> (string \<times> ('n \<Rightarrow> config \<Rightarrow> config option)) list" where
  "limit_decoders y = [
     (''limits.request_body_bytes'', \<lambda>v c. map_option (\<lambda>x. c\<lparr>cf_limits := (cf_limits c)\<lparr>lim_request_body := x\<rparr>\<rparr>)
        (yl_int y v (lim_request_body (cf_limits c)))),
     (''limits.response_body_bytes'', \<lambda>v c. map_option (\<lambda>x. c\<lparr>cf_limits := (cf_limits c)\<lparr>lim_response_body := x\<rparr>\<rparr>)
        (yl_int y v (lim_response_body (cf_limits c)))),
     (''limits.request_header_bytes'', \<lambda>v c. map_option (\<lambda>x. c\<lparr>cf_limits := (cf_limits c)\<lparr>lim_request_header := x\<rparr>\<rparr>)
        (yl_int y v (lim_request_header (cf_limits c)))),
     (''limits.response_header_bytes'', \<lambda>v c. map_option (\<lambda>x. c\<lparr>cf_limits := (cf_limits c)\<lparr>lim_response_header := x\<rparr>\<rparr>)
        (yl_int y v (lim_response_header (cf_limits c)))),
     (''limits.concurrent_exchanges'', \<lambda>v c. map_option (\<lambda>x. c\<lparr>cf_limits := (cf_limits c)\<lparr>lim_concurrent := x\<rparr>\<rparr>)
        (yl_int y v (lim_concurrent (cf_limits c)))),
     (''preview.enabled'', \<lambda>v c. map_option (\<lambda>x. c\<lparr>cf_preview := (cf_preview c)\<lparr>pv_enabled := x\<rparr>\<rparr>)
        (yl_bool y v (pv_enabled (cf_preview c)))),
     (''preview.bytes'', \<lambda>v c. map_option (\<lambda>x. c\<lparr>cf_preview := (cf_preview c)\<lparr>pv_bytes := x\<rparr>\<rparr>)
        (yl_int y v (pv_bytes (cf_preview c)))),
     (''history.max_exchanges'', \<lambda>v c. map_option (\<lambda>x. c\<lparr>cf_history_max := x\<rparr>) (yl_int y v (cf_history_max c)))]"

definition storage_decoders :: "'n yaml_library \<Rightarrow> (string \<times> ('n \<Rightarrow> config \<Rightarrow> config option)) list" where
  "storage_decoders y = [
     (''storage.mode'', \<lambda>v c. map_option (\<lambda>x. c\<lparr>cf_storage := (cf_storage c)\<lparr>sto_mode := x\<rparr>\<rparr>)
        (yl_string y v (sto_mode (cf_storage c)))),
     (''storage.sqlite_path'', \<lambda>v c. map_option (\<lambda>x. c\<lparr>cf_storage := (cf_storage c)\<lparr>sto_sqlite_path := x\<rparr>\<rparr>)
        (yl_string y v (sto_sqlite_path (cf_storage c)))),
     (''storage.retention_days'', \<lambda>v c. map_option (\<lambda>x. c\<lparr>cf_storage := (cf_storage c)\<lparr>sto_retention_days := x\<rparr>\<rparr>)
        (yl_int y v (sto_retention_days (cf_storage c)))),
     (''authentication.username'', \<lambda>v c. map_option (\<lambda>x. c\<lparr>cf_auth := (cf_auth c)\<lparr>au_username := x\<rparr>\<rparr>)
        (yl_string y v (au_username (cf_auth c)))),
     (''authentication.password'', \<lambda>v c. map_option (\<lambda>x. c\<lparr>cf_auth := (cf_auth c)\<lparr>au_password := x\<rparr>\<rparr>)
        (yl_string y v (au_password (cf_auth c)))),
     (''authentication.session_ttl'', \<lambda>v c. map_option (\<lambda>x. c\<lparr>cf_auth := (cf_auth c)\<lparr>au_session_ttl := x\<rparr>\<rparr>)
        (decodeDuration y v))]"

definition udp_decoders :: "'n yaml_library \<Rightarrow> (string \<times> ('n \<Rightarrow> config \<Rightarrow> config option)) list" where
  "udp_decoders y = [
     (''udp.enabled'', \<lambda>v c. map_option (\<lambda>x. c\<lparr>cf_udp := (cf_udp c)\<lparr>udp_enabled := x\<rparr>\<rparr>)
        (yl_bool y v (udp_enabled (cf_udp c)))),
     (''udp.listen'', \<lambda>v c. map_option (\<lambda>x. c\<lparr>cf_udp := (cf_udp c)\<lparr>udp_listen := x\<rparr>\<rparr>)
        (yl_string y v (udp_listen (cf_udp c)))),
     (''udp.mode'', \<lambda>v c. map_option (\<lambda>x. c\<lparr>cf_udp := (cf_udp c)\<lparr>udp_mode := x\<rparr>\<rparr>)
        (yl_string y v (udp_mode (cf_udp c)))),
     (''udp.upstream'', \<lambda>v c. map_option (\<lambda>x. c\<lparr>cf_udp := (cf_udp c)\<lparr>udp_upstream := x\<rparr>\<rparr>)
        (yl_string y v (udp_upstream (cf_udp c)))),
     (''udp.max_datagram_bytes'', \<lambda>v c. map_option (\<lambda>x. c\<lparr>cf_udp := (cf_udp c)\<lparr>udp_max_datagram := x\<rparr>\<rparr>)
        (yl_int y v (udp_max_datagram (cf_udp c)))),
     (''udp.max_sessions'', \<lambda>v c. map_option (\<lambda>x. c\<lparr>cf_udp := (cf_udp c)\<lparr>udp_max_sessions := x\<rparr>\<rparr>)
        (yl_int y v (udp_max_sessions (cf_udp c)))),
     (''udp.session_ttl'', \<lambda>v c. map_option (\<lambda>x. c\<lparr>cf_udp := (cf_udp c)\<lparr>udp_session_ttl := x\<rparr>\<rparr>)
        (decodeDuration y v)),
     (''udp.capture_response'', \<lambda>v c. map_option (\<lambda>x. c\<lparr>cf_udp := (cf_udp c)\<lparr>udp_capture_response := x\<rparr>\<rparr>)
        (yl_string y v (udp_capture_response (cf_udp c)))),
     (''udp.max_replies_per_second'', \<lambda>v c. map_option (\<lambda>x. c\<lparr>cf_udp := (cf_udp c)\<lparr>udp_max_replies := x\<rparr>\<rparr>)
        (yl_int y v (udp_max_replies (cf_udp c)))),
     (''udp.max_reply_bytes_per_second'', \<lambda>v c. map_option (\<lambda>x. c\<lparr>cf_udp := (cf_udp c)\<lparr>udp_max_reply_bytes := x\<rparr>\<rparr>)
        (yl_int y v (udp_max_reply_bytes (cf_udp c)))),
     (''shutdown_timeout'', \<lambda>v c. map_option (\<lambda>x. c\<lparr>cf_shutdown := x\<rparr>) (decodeDuration y v))]"

definition override_decoders :: "'n yaml_library \<Rightarrow> (string \<times> ('n \<Rightarrow> config \<Rightarrow> config option)) list" where
  "override_decoders y = listener_decoders y @ limit_decoders y @ storage_decoders y @ udp_decoders y"

fun applyOverrides :: "'n yaml_library \<Rightarrow> (string \<times> 'n) list \<Rightarrow> config \<Rightarrow> manager_error + config" where
  "applyOverrides y [] cfg = Inr cfg"
| "applyOverrides y ((field, value) # overrides) cfg =
     (case map_of (override_decoders y) field of
        None \<Rightarrow> Inl (UnknownField field)
      | Some decode \<Rightarrow>
          (case decode value cfg of
             None \<Rightarrow> Inl (BadField field)
           | Some cfg1 \<Rightarrow> applyOverrides y overrides cfg1))"

definition knownOverrideFields :: "string list" where
  "knownOverrideFields = [''mode'', ''listeners.management'', ''listeners.traffic'', ''upstream.url'', ''upstream.timeout'',
     ''capture_response.status'', ''capture_response.headers'', ''capture_response.body'', ''cors.enabled'',
     ''limits.request_body_bytes'', ''limits.response_body_bytes'', ''limits.request_header_bytes'',
     ''limits.response_header_bytes'', ''limits.concurrent_exchanges'', ''preview.enabled'', ''preview.bytes'',
     ''history.max_exchanges'', ''storage.mode'', ''storage.sqlite_path'', ''storage.retention_days'',
     ''authentication.username'', ''authentication.password'', ''authentication.session_ttl'', ''shutdown_timeout'',
     ''udp.enabled'', ''udp.listen'', ''udp.mode'', ''udp.upstream'', ''udp.max_datagram_bytes'', ''udp.max_sessions'',
     ''udp.session_ttl'', ''udp.capture_response'', ''udp.max_replies_per_second'', ''udp.max_reply_bytes_per_second'']"

definition knownField :: "string \<Rightarrow> bool" where
  "knownField field \<longleftrightarrow> field \<in> set knownOverrideFields"

lemma override_fields: "set (map fst (override_decoders y)) = set knownOverrideFields"
  "distinct (map fst (override_decoders y))"
  unfolding override_decoders_def listener_decoders_def limit_decoders_def storage_decoders_def udp_decoders_def
    knownOverrideFields_def by (simp_all add: insert_commute) 

section \<open>The manager\<close>

record 'n manager =
  mg_lower :: config
  mg_effective :: config
  mg_base :: "'n option"
  mg_overrides :: "(string \<times> 'n) list"
  mg_origins :: "(string \<times> string) list"
  mg_revision :: u64
  mg_path :: string

record update_request =
  up_expected :: u64
  up_values :: "(string \<times> string) list"
  up_removals :: "string list"

record 'n prepared =
  pr_expected :: u64
  pr_overrides :: "(string \<times> 'n) list"
  pr_effective :: config

definition Current :: "'n manager \<Rightarrow> config \<times> u64" where
  "Current m = (mg_effective m, mg_revision m)"

text \<open>\<open>delete\<close> and assignment on a Go map.\<close>

definition without_field :: "string \<Rightarrow> (string \<times> 'n) list \<Rightarrow> (string \<times> 'n) list" where
  "without_field field os = filter (\<lambda>o1. fst o1 \<noteq> field) os"

fun remove_fields :: "string list \<Rightarrow> (string \<times> 'n) list \<Rightarrow> manager_error + (string \<times> 'n) list" where
  "remove_fields [] os = Inr os"
| "remove_fields (field # names) os =
     (if \<not> knownField field then Inl (UnknownField field) else remove_fields names (without_field field os))"

fun set_fields :: "'n yaml_library \<Rightarrow> (string \<times> string) list \<Rightarrow> (string \<times> 'n) list \<Rightarrow> manager_error + (string \<times> 'n) list" where
  "set_fields y [] os = Inr os"
| "set_fields y ((field, raw) # values) os =
     (if \<not> knownField field then Inl (UnknownField field)
      else case yl_json y raw of
          None \<Rightarrow> Inl (BadField field)
        | Some node \<Rightarrow> set_fields y values (AList.update field node os))"

text \<open>What \<open>Prepare\<close> and \<open>activate\<close> do with the next overrides.\<close>

definition effective_of :: "'n yaml_library \<Rightarrow> config \<Rightarrow> (string \<times> 'n) list \<Rightarrow> manager_error + config" where
  "effective_of y lower os =
     (case applyOverrides y os lower of
        Inl e \<Rightarrow> Inl e
      | Inr next \<Rightarrow> if Validate next \<noteq> [] then Inl (Invalid (Validate next)) else Inr next)"

definition Prepare :: "'n yaml_library \<Rightarrow> 'n manager \<Rightarrow> update_request \<Rightarrow> manager_error + 'n prepared" where
  "Prepare y m u =
     (if up_expected u \<noteq> mg_revision m then Inl RevisionConflict
      else case remove_fields (up_removals u) (mg_overrides m) of
          Inl e \<Rightarrow> Inl e
        | Inr os1 \<Rightarrow>
            (case set_fields y (up_values u) os1 of
               Inl e \<Rightarrow> Inl e
             | Inr os2 \<Rightarrow>
                 (case effective_of y (mg_lower m) os2 of
                    Inl e \<Rightarrow> Inl e
                  | Inr next \<Rightarrow> Inr \<lparr>pr_expected = up_expected u, pr_overrides = os2, pr_effective = next\<rparr>)))"

section \<open>The file\<close>

text \<open>
  \<open>persist\<close> writes a temporary file beside the configuration and renames it. Files are a map from
  paths to contents; what the operating system answers is the record \<open>persist_io\<close>: which calls
  succeed, the name \<open>CreateTemp\<close> picks (one that does not exist), and how many bytes a write
  leaves in the file. The deferred \<open>cleanup\<close> removes the temporary file on every path.
\<close>

type_synonym files = "string \<Rightarrow> bytes option"

record persist_io =
  io_mkdir :: bool
  io_create :: "string option"
  io_chmod :: bool
  io_write :: bool
  io_written :: nat
  io_sync :: bool
  io_close :: bool
  io_rename :: bool
  io_remove :: bool

definition persist :: "'n yaml_library \<Rightarrow> persist_io \<Rightarrow> 'n manager \<Rightarrow> (string \<times> 'n) list \<Rightarrow> files \<Rightarrow> files \<times> manager_error option" where
  "persist y io m os fs =
     (if mg_path m = [] then (fs, Some PathUnavailable)
      else
        let base = (case mg_base m of None \<Rightarrow> yl_empty_mapping y | Some n \<Rightarrow> n)
        in case yl_marshal y base os of
             None \<Rightarrow> (fs, Some EncodeFailed)
           | Some data \<Rightarrow>
               if \<not> io_mkdir io then (fs, Some (FileFailed ''create configuration directory''))
               else (case io_create io of
                   None \<Rightarrow> (fs, Some (FileFailed ''create temporary configuration''))
                 | Some temp \<Rightarrow>
                     if fs temp \<noteq> None then (fs, Some (FileFailed ''create temporary configuration''))
                     else
                       let cleanup = (\<lambda>g. if io_remove io then g(temp := None) else g);
                           created = fs(temp \<mapsto> []);
                           written = fs(temp \<mapsto> (if io_write io then data else take (io_written io) data))
                       in if \<not> io_chmod io then (cleanup created, Some (FileFailed ''protect temporary configuration''))
                          else if \<not> io_write io then (cleanup written, Some (FileFailed ''write temporary configuration''))
                          else if \<not> io_sync io then (cleanup written, Some (FileFailed ''sync temporary configuration''))
                          else if \<not> io_close io then (cleanup written, Some (FileFailed ''close temporary configuration''))
                          else if \<not> io_rename io then (cleanup written, Some (FileFailed ''replace configuration''))
                          else (cleanup (written(mg_path m := written temp, temp := None)), None)))"

section \<open>Changing the configuration\<close>

definition Commit :: "'n yaml_library \<Rightarrow> persist_io \<Rightarrow> 'n prepared \<Rightarrow> 'n manager \<Rightarrow> files
    \<Rightarrow> 'n manager \<times> files \<times> (manager_error + config)" where
  "Commit y io p m fs =
     (if pr_expected p \<noteq> mg_revision m then (m, fs, Inl RevisionConflict)
      else case persist y io m (pr_overrides p) fs of
          (fs1, Some e) \<Rightarrow> (m, fs1, Inl e)
        | (fs1, None) \<Rightarrow>
            (m\<lparr>mg_effective := pr_effective p, mg_overrides := pr_overrides p, mg_revision := mg_revision m + 1\<rparr>,
             fs1, Inr (pr_effective p)))"

definition UpdateWithRemovals :: "'n yaml_library \<Rightarrow> persist_io \<Rightarrow> u64 \<Rightarrow> (string \<times> string) list \<Rightarrow> string list
    \<Rightarrow> 'n manager \<Rightarrow> files \<Rightarrow> 'n manager \<times> files \<times> (manager_error + config)" where
  "UpdateWithRemovals y io expected values removals m fs =
     (case Prepare y m \<lparr>up_expected = expected, up_values = values, up_removals = removals\<rparr> of
        Inl e \<Rightarrow> (m, fs, Inl e)
      | Inr p \<Rightarrow> Commit y io p m fs)"

definition activate :: "'n yaml_library \<Rightarrow> persist_io \<Rightarrow> (string \<times> 'n) list \<Rightarrow> 'n manager \<Rightarrow> files
    \<Rightarrow> 'n manager \<times> files \<times> (manager_error + config)" where
  "activate y io os m fs =
     (case effective_of y (mg_lower m) os of
        Inl e \<Rightarrow> (m, fs, Inl e)
      | Inr next \<Rightarrow>
          (case persist y io m os fs of
             (fs1, Some e) \<Rightarrow> (m, fs1, Inl e)
           | (fs1, None) \<Rightarrow>
               (m\<lparr>mg_effective := next, mg_overrides := os, mg_revision := mg_revision m + 1\<rparr>, fs1, Inr next)))"

definition RemoveOverride :: "'n yaml_library \<Rightarrow> persist_io \<Rightarrow> u64 \<Rightarrow> string \<Rightarrow> 'n manager \<Rightarrow> files
    \<Rightarrow> 'n manager \<times> files \<times> (manager_error + config)" where
  "RemoveOverride y io expected field m fs =
     (if expected \<noteq> mg_revision m then (m, fs, Inl RevisionConflict)
      else if map_of (mg_overrides m) field = None then (m, fs, Inl NotExist)
      else activate y io (without_field field (mg_overrides m)) m fs)"

definition RemoveAuthentication :: "'n yaml_library \<Rightarrow> persist_io \<Rightarrow> u64 \<Rightarrow> 'n manager \<Rightarrow> files
    \<Rightarrow> 'n manager \<times> files \<times> (manager_error + config)" where
  "RemoveAuthentication y io expected m fs =
     (let names = [''authentication.username'', ''authentication.password'']
      in if expected \<noteq> mg_revision m then (m, fs, Inl RevisionConflict)
         else if list_all (\<lambda>field. map_of (mg_overrides m) field = None) names then (m, fs, Inl NotExist)
         else activate y io (fold without_field names (mg_overrides m)) m fs)"

section \<open>The view\<close>

record configuration_view =
  vw_effective :: config
  vw_config_path :: string
  vw_authentication_username :: string
  vw_authentication_configured :: bool
  vw_origins :: "(string \<times> string) list"
  vw_overrides :: "string list"
  vw_pending_restart :: "string list"
  vw_revision :: u64

definition sortedKeys :: "(string \<times> 'n) list \<Rightarrow> string list" where
  "sortedKeys nodes = sort (map fst nodes)"

definition pendingRestart :: "string list \<Rightarrow> string list" where
  "pendingRestart overrides = filter (\<lambda>field. field = ''storage.mode'' \<or> field = ''storage.sqlite_path'') overrides"

definition View :: "'n manager \<Rightarrow> configuration_view" where
  "View m =
     (let overrides = sortedKeys (mg_overrides m); effective = mg_effective m; auth = cf_auth effective
      in \<lparr>vw_effective = effective\<lparr>cf_auth := auth\<lparr>au_username := [], au_password := []\<rparr>\<rparr>,
          vw_config_path = mg_path m,
          vw_authentication_username = au_username auth,
          vw_authentication_configured = (au_username auth \<noteq> [] \<and> au_password auth \<noteq> []),
          vw_origins = fold (\<lambda>field origins. AList.update field ''ui'' origins) overrides (mg_origins m),
          vw_overrides = overrides,
          vw_pending_restart = pendingRestart overrides,
          vw_revision = mg_revision m\<rparr>)"

section \<open>Origins\<close>

fun base_lookup :: "base_value \<Rightarrow> string list \<Rightarrow> bool" where
  "base_lookup v [] = True"
| "base_lookup v (part # parts) =
     (case v of
        BaseOther \<Rightarrow> False
      | BaseMap mapping \<Rightarrow> (case map_of mapping part of None \<Rightarrow> False | Some v1 \<Rightarrow> base_lookup v1 parts))"

definition baseContains :: "base_value option \<Rightarrow> string \<Rightarrow> bool" where
  "baseContains values field =
     (case values of None \<Rightarrow> False | Some v \<Rightarrow> base_lookup v (split_on (CHR ''.'') field))"

definition commandLineHas :: "string list \<Rightarrow> string \<Rightarrow> bool" where
  "commandLineHas args name =
     list_ex (\<lambda>argument. argument = ''--'' @ name \<or> has_prefix (''--'' @ name @ ''='') argument) args"

definition fieldSources :: "(string \<times> string \<times> string) list" where
  "fieldSources = [
     (''mode'', ''mode'', ''MODE''), (''listeners.management'', ''management-listen'', ''MANAGEMENT_LISTEN''),
     (''listeners.traffic'', ''traffic-listen'', ''TRAFFIC_LISTEN''),
     (''upstream.url'', ''upstream-url'', ''UPSTREAM_URL''), (''upstream.timeout'', ''upstream-timeout'', ''UPSTREAM_TIMEOUT''),
     (''capture_response.status'', ''capture-status'', ''CAPTURE_STATUS''), (''capture_response.headers'', [], []),
     (''capture_response.body'', ''capture-body'', ''CAPTURE_BODY''),
     (''cors.enabled'', ''cors-enabled'', ''CORS_ENABLED''),
     (''limits.request_body_bytes'', ''max-request-body-bytes'', ''MAX_REQUEST_BODY_BYTES''),
     (''limits.response_body_bytes'', ''max-response-body-bytes'', ''MAX_RESPONSE_BODY_BYTES''),
     (''limits.request_header_bytes'', ''max-request-header-bytes'', ''MAX_REQUEST_HEADER_BYTES''),
     (''limits.response_header_bytes'', ''max-response-header-bytes'', ''MAX_RESPONSE_HEADER_BYTES''),
     (''limits.concurrent_exchanges'', ''max-concurrent-exchanges'', ''MAX_CONCURRENT_EXCHANGES''),
     (''preview.enabled'', ''preview-enabled'', ''PREVIEW_ENABLED''), (''preview.bytes'', ''preview-bytes'', ''PREVIEW_BYTES''),
     (''history.max_exchanges'', ''history-max-exchanges'', ''HISTORY_MAX_EXCHANGES''),
     (''storage.mode'', ''storage-mode'', ''STORAGE_MODE''), (''storage.sqlite_path'', ''sqlite-path'', ''SQLITE_PATH''),
     (''storage.retention_days'', ''retention-days'', ''RETENTION_DAYS''),
     (''authentication.username'', ''auth-username'', ''AUTH_USERNAME''),
     (''authentication.password'', ''auth-password'', ''AUTH_PASSWORD''),
     (''authentication.session_ttl'', ''auth-session-ttl'', ''AUTH_SESSION_TTL''),
     (''shutdown_timeout'', ''shutdown-timeout'', ''SHUTDOWN_TIMEOUT''),
     (''udp.enabled'', ''udp-enabled'', ''UDP_ENABLED''), (''udp.listen'', ''udp-listen'', ''UDP_LISTEN''),
     (''udp.mode'', ''udp-mode'', ''UDP_MODE''), (''udp.upstream'', ''udp-upstream'', ''UDP_UPSTREAM''),
     (''udp.max_datagram_bytes'', ''udp-max-datagram-bytes'', ''UDP_MAX_DATAGRAM_BYTES''),
     (''udp.max_sessions'', ''udp-max-sessions'', ''UDP_MAX_SESSIONS''),
     (''udp.session_ttl'', ''udp-session-ttl'', ''UDP_SESSION_TTL''),
     (''udp.capture_response'', ''udp-capture-response'', ''UDP_CAPTURE_RESPONSE''),
     (''udp.max_replies_per_second'', ''udp-max-replies-per-second'', ''UDP_MAX_REPLIES_PER_SECOND''),
     (''udp.max_reply_bytes_per_second'', ''udp-max-reply-bytes-per-second'', ''UDP_MAX_REPLY_BYTES_PER_SECOND'')]"

definition initialOrigins :: "bool \<Rightarrow> base_value option \<Rightarrow> string list \<Rightarrow> (string \<Rightarrow> string option) \<Rightarrow> (string \<times> string) list" where
  "initialOrigins detect base args lookupEnv =
     map (\<lambda>(field, flag, env).
       (field,
        if \<not> detect then ''startup''
        else if flag \<noteq> [] \<and> commandLineHas args flag then ''cli''
        else if env \<noteq> [] \<and> lookupEnv (Prefix @ ''_'' @ env) \<noteq> None then ''env''
        else if baseContains base field then ''file''
        else ''default'')) fieldSources"

section \<open>Loading\<close>

text \<open>
  \<open>readDocument\<close> with \<open>parseDocument\<close>: the base node, if the document has one, and the overrides.
  \<open>readable\<close> is \<open>False\<close> where reading fails for another reason than a missing file.
\<close>

definition parseDocument :: "'n yaml_library \<Rightarrow> bytes \<Rightarrow> manager_error + ('n option \<times> (string \<times> 'n) list)" where
  "parseDocument y data =
     (case yl_parse y data of
        None \<Rightarrow> Inl ParseFailed
      | Some (None, os) \<Rightarrow> Inr (None, os)
      | Some (Some base, os) \<Rightarrow> if yl_check_base y base then Inr (Some base, os) else Inl ParseFailed)"

definition readDocument :: "'n yaml_library \<Rightarrow> bool \<Rightarrow> files \<Rightarrow> string \<Rightarrow> bool
    \<Rightarrow> manager_error + ('n option \<times> (string \<times> 'n) list)" where
  "readDocument y readable fs path explicit =
     (if \<not> readable then Inl (FileFailed ''read configuration'')
      else case fs path of
          None \<Rightarrow> if explicit then Inl (FileFailed ''read configuration'') else Inr (None, [])
        | Some data \<Rightarrow> if length data > 1048576 then Inl (FileFailed ''configuration exceeds 1 MiB'') else parseDocument y data)"

text \<open>
  What \<open>Load\<close> and \<open>loadLowerConfiguration\<close> share: defaults, file, environment and flags, then the
  default header.
\<close>

definition layered :: "'n yaml_library \<Rightarrow> string \<Rightarrow> 'n option \<Rightarrow> manager_error + config" where
  "layered y path base =
     (case yl_conf y (Defaults\<lparr>cf_config_path := path\<rparr>) base of
        None \<Rightarrow> Inl ParseFailed
      | Some (cfg, headers_set) \<Rightarrow>
          Inr (if headers_set then cfg
               else cfg\<lparr>cf_capture := (cf_capture cfg)\<lparr>cap_headers := [(''Content-Type'', [''application/json''])]\<rparr>\<rparr>))"

text \<open>Resolving the database path and the final check.\<close>

definition checked :: "path_error + string \<Rightarrow> string \<Rightarrow> config \<Rightarrow> manager_error + config" where
  "checked defaultSQLite path cfg =
     (case resolveSQLitePath defaultSQLite cfg path of
        Inl e \<Rightarrow> Inl (PathFailed e)
      | Inr cfg1 \<Rightarrow> if Validate cfg1 \<noteq> [] then Inl (Invalid (Validate cfg1)) else Inr cfg1)"

definition Load :: "'n yaml_library \<Rightarrow> string list \<Rightarrow> (string \<Rightarrow> string option) \<Rightarrow> path_error + string \<Rightarrow> path_error + string
    \<Rightarrow> bool \<Rightarrow> files \<Rightarrow> manager_error + config" where
  "Load y args lookupEnv defaultPath defaultSQLite readable fs =
     (case ResolveConfigPath args lookupEnv defaultPath of
        (Inl e, explicit) \<Rightarrow> Inl (PathFailed e)
      | (Inr path, explicit) \<Rightarrow>
          (case readDocument y readable fs path explicit of
             Inl e \<Rightarrow> Inl e
           | Inr (base, os) \<Rightarrow>
               (case layered y path base of
                  Inl e \<Rightarrow> Inl e
                | Inr cfg \<Rightarrow>
                    (case applyOverrides y os cfg of Inl e \<Rightarrow> Inl e | Inr cfg1 \<Rightarrow> checked defaultSQLite path cfg1))))"

definition loadLowerConfiguration :: "'n yaml_library \<Rightarrow> path_error + string \<Rightarrow> string \<Rightarrow> 'n option \<Rightarrow> manager_error + config" where
  "loadLowerConfiguration y defaultSQLite path base =
     (case layered y path base of Inl e \<Rightarrow> Inl e | Inr cfg \<Rightarrow> checked defaultSQLite path cfg)"

definition NewManager :: "'n yaml_library \<Rightarrow> string list \<Rightarrow> (string \<Rightarrow> string option) \<Rightarrow> path_error + string
    \<Rightarrow> bool \<Rightarrow> files \<Rightarrow> config \<Rightarrow> manager_error + 'n manager" where
  "NewManager y args lookupEnv defaultSQLite readable fs initial =
     (let path = cf_config_path initial;
          fresh = \<lparr>mg_lower = initial, mg_effective = initial, mg_base = None, mg_overrides = [],
            mg_origins = initialOrigins (path \<noteq> []) None args lookupEnv, mg_revision = 1, mg_path = path\<rparr>
      in if path = [] then Inr fresh
         else case readDocument y readable fs path False of
             Inl e \<Rightarrow> Inl e
           | Inr (base, os) \<Rightarrow>
               let m = fresh\<lparr>mg_overrides := os, mg_base := base,
                     mg_origins := initialOrigins True (Option.bind base (yl_base_value y)) args lookupEnv\<rparr>
               in if os = [] then Inr m
                  else (case loadLowerConfiguration y defaultSQLite path base of
                      Inl e \<Rightarrow> Inl e | Inr lower \<Rightarrow> Inr (m\<lparr>mg_lower := lower\<rparr>)))"

section \<open>Overrides commute\<close>

text \<open>Two decoders commute: each reads and writes its own field.\<close>

definition commute :: "('n \<Rightarrow> config \<Rightarrow> config option) \<Rightarrow> ('n \<Rightarrow> config \<Rightarrow> config option) \<Rightarrow> bool" where
  "commute d1 d2 \<longleftrightarrow> (\<forall>v w c. Option.bind (d1 v c) (d2 w) = Option.bind (d2 w c) (d1 v))"

lemma commute_sym: "commute d1 d2 \<Longrightarrow> commute d2 d1"
  by (simp add: commute_def)

text \<open>Within each group of fields, and between two groups.\<close>

lemma listener_commute: "sorted_wrt commute (map snd (listener_decoders y))"
  by (simp add: listener_decoders_def commute_def map_option_case split: option.split)

lemma limit_commute: "sorted_wrt commute (map snd (limit_decoders y))"
  by (simp add: limit_decoders_def commute_def map_option_case split: option.split)

lemma storage_commute: "sorted_wrt commute (map snd (storage_decoders y))"
  by (simp add: storage_decoders_def commute_def map_option_case split: option.split)

lemma udp_commute: "sorted_wrt commute (map snd (udp_decoders y))"
  by (simp add: udp_decoders_def commute_def map_option_case split: option.split)

lemma listener_limit_commute: "d \<in> set (map snd (listener_decoders y)) \<Longrightarrow> e \<in> set (map snd (limit_decoders y)) \<Longrightarrow> commute d e"
proof -
  have "list_all (\<lambda>d. list_all (commute d) (map snd (limit_decoders y))) (map snd (listener_decoders y))"
    by (simp add: listener_decoders_def limit_decoders_def commute_def map_option_case split: option.split)
  then show "d \<in> set (map snd (listener_decoders y)) \<Longrightarrow> e \<in> set (map snd (limit_decoders y)) \<Longrightarrow> commute d e"
    unfolding list_all_iff by blast
qed

lemma listener_storage_commute: "d \<in> set (map snd (listener_decoders y)) \<Longrightarrow> e \<in> set (map snd (storage_decoders y)) \<Longrightarrow> commute d e"
proof -
  have "list_all (\<lambda>d. list_all (commute d) (map snd (storage_decoders y))) (map snd (listener_decoders y))"
    by (simp add: listener_decoders_def storage_decoders_def commute_def map_option_case split: option.split)
  then show "d \<in> set (map snd (listener_decoders y)) \<Longrightarrow> e \<in> set (map snd (storage_decoders y)) \<Longrightarrow> commute d e"
    unfolding list_all_iff by blast
qed

lemma listener_udp_commute: "d \<in> set (map snd (listener_decoders y)) \<Longrightarrow> e \<in> set (map snd (udp_decoders y)) \<Longrightarrow> commute d e"
proof -
  have "list_all (\<lambda>d. list_all (commute d) (map snd (udp_decoders y))) (map snd (listener_decoders y))"
    by (simp add: listener_decoders_def udp_decoders_def commute_def map_option_case split: option.split)
  then show "d \<in> set (map snd (listener_decoders y)) \<Longrightarrow> e \<in> set (map snd (udp_decoders y)) \<Longrightarrow> commute d e"
    unfolding list_all_iff by blast
qed

lemma limit_storage_commute: "d \<in> set (map snd (limit_decoders y)) \<Longrightarrow> e \<in> set (map snd (storage_decoders y)) \<Longrightarrow> commute d e"
proof -
  have "list_all (\<lambda>d. list_all (commute d) (map snd (storage_decoders y))) (map snd (limit_decoders y))"
    by (simp add: limit_decoders_def storage_decoders_def commute_def map_option_case split: option.split)
  then show "d \<in> set (map snd (limit_decoders y)) \<Longrightarrow> e \<in> set (map snd (storage_decoders y)) \<Longrightarrow> commute d e"
    unfolding list_all_iff by blast
qed

lemma limit_udp_commute: "d \<in> set (map snd (limit_decoders y)) \<Longrightarrow> e \<in> set (map snd (udp_decoders y)) \<Longrightarrow> commute d e"
proof -
  have "list_all (\<lambda>d. list_all (commute d) (map snd (udp_decoders y))) (map snd (limit_decoders y))"
    by (simp add: limit_decoders_def udp_decoders_def commute_def map_option_case split: option.split)
  then show "d \<in> set (map snd (limit_decoders y)) \<Longrightarrow> e \<in> set (map snd (udp_decoders y)) \<Longrightarrow> commute d e"
    unfolding list_all_iff by blast
qed

lemma storage_udp_commute: "d \<in> set (map snd (storage_decoders y)) \<Longrightarrow> e \<in> set (map snd (udp_decoders y)) \<Longrightarrow> commute d e"
proof -
  have "list_all (\<lambda>d. list_all (commute d) (map snd (udp_decoders y))) (map snd (storage_decoders y))"
    by (simp add: storage_decoders_def udp_decoders_def commute_def map_option_case split: option.split)
  then show "d \<in> set (map snd (storage_decoders y)) \<Longrightarrow> e \<in> set (map snd (udp_decoders y)) \<Longrightarrow> commute d e"
    unfolding list_all_iff by blast
qed

lemma decoders_commute: "sorted_wrt commute (map snd (override_decoders y))"
  unfolding override_decoders_def map_append sorted_wrt_append set_append ball_Un
  by (intro conjI ballI listener_commute limit_commute storage_commute udp_commute)
    (erule (1) listener_limit_commute | erule (1) listener_storage_commute | erule (1) listener_udp_commute | erule (1) limit_storage_commute | erule (1) limit_udp_commute | erule (1) storage_udp_commute)+

text \<open>Setting the database path commutes with every other decoder.\<close>

definition set_sqlite_path :: "string \<Rightarrow> config \<Rightarrow> config" where
  "set_sqlite_path path c = c\<lparr>cf_storage := (cf_storage c)\<lparr>sto_sqlite_path := path\<rparr>\<rparr>"

lemma decoders_keep_sqlite_path:
  "list_all (\<lambda>(field, d). field = ''storage.sqlite_path'' \<or>
     (\<forall>v c path. d v (set_sqlite_path path c) = map_option (set_sqlite_path path) (d v c)
        \<and> (\<forall>c1. d v c = Some c1 \<longrightarrow> sto_sqlite_path (cf_storage c1) = sto_sqlite_path (cf_storage c))))
     (override_decoders y)"
  by (simp add: override_decoders_def listener_decoders_def limit_decoders_def storage_decoders_def udp_decoders_def
      set_sqlite_path_def map_option_case split: option.split)

definition right :: "'e + 'a \<Rightarrow> 'a option" where
  "right r = (case r of Inl e \<Rightarrow> None | Inr x \<Rightarrow> Some x)"

lemma right_Some [simp]: "right r = Some x \<longleftrightarrow> r = Inr x"
  by (cases r) (auto simp: right_def)

definition apply_override :: "'n yaml_library \<Rightarrow> string \<times> 'n \<Rightarrow> config \<Rightarrow> config option" where
  "apply_override y fv c = Option.bind (map_of (override_decoders y) (fst fv)) (\<lambda>d. d (snd fv) c)"

lemma applyOverrides_right:
  "right (applyOverrides y [] c) = Some c"
  "right (applyOverrides y (fv # os) c) = Option.bind (apply_override y fv c) (\<lambda>c1. right (applyOverrides y os c1))"
  by (auto simp: right_def apply_override_def split: option.splits prod.splits) (cases fv; auto split: option.splits)+

lemma sorted_wrt_pair: "sorted_wrt P xs \<Longrightarrow> x \<in> set xs \<Longrightarrow> z \<in> set xs \<Longrightarrow> x \<noteq> z \<Longrightarrow> P x z \<or> P z x"
  by (induction xs) auto

lemma apply_override_field:
  "map_of (override_decoders y) (fst a) = None \<Longrightarrow> apply_override y a = (\<lambda>c. None)"
  "map_of (override_decoders y) (fst a) = Some d \<Longrightarrow> apply_override y a = d (snd a)"
  by (simp_all add: apply_override_def fun_eq_iff)

lemma apply_override_commute:
  assumes "fst a \<noteq> fst b"
  shows "Option.bind (apply_override y a c) (apply_override y b) = Option.bind (apply_override y b c) (apply_override y a)"
proof (cases "map_of (override_decoders y) (fst a)"; cases "map_of (override_decoders y) (fst b)")
  fix d1 d2
  assume d: "map_of (override_decoders y) (fst a) = Some d1" "map_of (override_decoders y) (fst b) = Some d2"
  have "sorted_wrt (\<lambda>x z. commute (snd x) (snd z)) (override_decoders y)"
    using decoders_commute [of y] by (simp add: sorted_wrt_map)
  then have "commute d1 d2 \<or> commute d2 d1"
    using sorted_wrt_pair [OF _ map_of_SomeD [OF d(1)] map_of_SomeD [OF d(2)]] assms by fastforce
  then have "commute d1 d2" using commute_sym by blast
  then show ?thesis by (simp add: apply_override_field(2) [OF d(1)] apply_override_field(2) [OF d(2)] commute_def)
qed (simp_all add: apply_override_field)

lemma applyOverrides_front:
  "distinct (map fst (xs @ a # zs)) \<Longrightarrow>
    right (applyOverrides y (xs @ a # zs) c) = right (applyOverrides y (a # xs @ zs) c)"
proof (induction xs arbitrary: c)
  case (Cons x xs)
  let ?rest = "\<lambda>c. right (applyOverrides y (xs @ zs) c)"
  have ne: "fst x \<noteq> fst a" using Cons.prems by auto
  have "right (applyOverrides y ((x # xs) @ a # zs) c)
      = Option.bind (apply_override y x c) (\<lambda>c1. Option.bind (apply_override y a c1) ?rest)"
    using Cons by (simp add: applyOverrides_right cong: Option.bind_cong)
  also have "\<dots> = Option.bind (Option.bind (apply_override y x c) (apply_override y a)) ?rest"
    by simp
  also have "\<dots> = Option.bind (Option.bind (apply_override y a c) (apply_override y x)) ?rest"
    by (simp only: apply_override_commute [OF ne])
  finally show ?case by (simp add: applyOverrides_right cong: Option.bind_cong)
qed simp

lemma applyOverrides_mset:
  "mset os = mset os' \<Longrightarrow> distinct (map fst os) \<Longrightarrow> right (applyOverrides y os c) = right (applyOverrides y os' c)"
proof (induction os arbitrary: os' c)
  case (Cons a os)
  have "a \<in> set os'" using Cons.prems(1) by (metis list.set_intros(1) set_mset_mset)
  then obtain xs zs where os': "os' = xs @ a # zs" by (auto dest: split_list)
  have m: "mset os = mset (xs @ zs)" using Cons.prems(1) os' by simp
  have "distinct (map fst os')" using Cons.prems by (metis distinct_map_mset)
  then have "right (applyOverrides y os' c) = right (applyOverrides y (a # xs @ zs) c)"
    unfolding os' by (rule applyOverrides_front)
  moreover have "right (applyOverrides y os c1) = right (applyOverrides y (xs @ zs) c1)" for c1
    using Cons.IH [OF m] Cons.prems(2) by simp
  ultimately show ?case by (simp add: applyOverrides_right cong: Option.bind_cong)
qed simp

end
