(* ===== verification/Config_Updates.thy ===== *)
theory Config_Updates
  imports Config_Manager
begin

text \<open>
  Correctness of the configuration manager (\<open>Config_Manager\<close>): overrides are applied in any order
  with one result, the file is replaced as a whole or not at all, every reachable configuration is
  valid and made of the lower layers and the overrides, stale updates are refused, a committed
  change survives a restart, and the view keeps the credentials to itself.
\<close>

section \<open>Overrides\<close>

lemma map_of_decoders: "knownField field \<longleftrightarrow> map_of (override_decoders y) field \<noteq> None"
  unfolding knownField_def override_fields(1) [of y, symmetric] map_of_eq_None_iff by auto

lemma applyOverrides_known:
  "list_all (\<lambda>fv. knownField (fst fv)) os \<Longrightarrow> applyOverrides y os cfg \<noteq> Inl (UnknownField field)"
proof (induction os arbitrary: cfg)
  case (Cons fv os)
  then show ?case
    using map_of_decoders [of "fst fv" y] by (cases fv) (auto split: option.splits)
qed simp

lemma without_field_keys:
  "distinct (map fst os) \<Longrightarrow> distinct (map fst (without_field f os))"
  "list_all (\<lambda>fv. P (fst fv)) os \<Longrightarrow> list_all (\<lambda>fv. P (fst fv)) (without_field f os)"
  "map_of (without_field f os) = (map_of os)(f := None)"
proof -
  show "distinct (map fst os) \<Longrightarrow> distinct (map fst (without_field f os))"
    unfolding without_field_def by (rule distinct_map_filter)
  show "list_all (\<lambda>fv. P (fst fv)) os \<Longrightarrow> list_all (\<lambda>fv. P (fst fv)) (without_field f os)"
    by (auto simp: without_field_def list_all_iff)
  show "map_of (without_field f os) = (map_of os)(f := None)"
    unfolding without_field_def by (induction os) (auto simp: fun_eq_iff)
qed

definition overrides_ok :: "(string \<times> 'n) list \<Rightarrow> bool" where
  "overrides_ok os \<longleftrightarrow> distinct (map fst os) \<and> list_all (\<lambda>fv. knownField (fst fv)) os"

lemma without_field_ok: "overrides_ok os \<Longrightarrow> overrides_ok (without_field f os)"
  by (simp add: overrides_ok_def without_field_keys)

lemma remove_fields_ok: "remove_fields fs os = Inr os' \<Longrightarrow> overrides_ok os \<Longrightarrow> overrides_ok os'"
  by (induction fs arbitrary: os) (auto simp: without_field_ok split: if_splits)

lemma list_all_update:
  "list_all (\<lambda>fv. P (fst fv)) os \<Longrightarrow> P f \<Longrightarrow> list_all (\<lambda>fv. P (fst fv)) (AList.update f v os)"
  by (induction os) auto

lemma update_ok: "overrides_ok os \<Longrightarrow> knownField f \<Longrightarrow> overrides_ok (AList.update f v os)"
  unfolding overrides_ok_def by (simp add: distinct_update list_all_update)

lemma set_fields_ok: "set_fields y vs os = Inr os' \<Longrightarrow> overrides_ok os \<Longrightarrow> overrides_ok os'"
  by (induction vs arbitrary: os) (auto simp: update_ok split: if_splits option.splits)

text \<open>What the next overrides are: the removals, then the values.\<close>

lemma remove_fields_lookup:
  "remove_fields fs os = Inr os' \<Longrightarrow> map_of os' f = (if f \<in> set fs then None else map_of os f)"
  by (induction fs arbitrary: os) (auto simp: without_field_keys split: if_splits)

lemma set_fields_lookup:
  "set_fields y vs os = Inr os' \<Longrightarrow> distinct (map fst vs) \<Longrightarrow>
    map_of os' f = (case map_of vs f of None \<Rightarrow> map_of os f | Some raw \<Rightarrow> yl_json y raw)"
proof (induction vs arbitrary: os)
  case (Cons v vs)
  obtain g raw where v: "v = (g, raw)" by fastforce
  with Cons.prems obtain node where n: "yl_json y raw = Some node" "set_fields y vs (AList.update g node os) = Inr os'"
    by (auto split: if_splits option.splits)
  have "map_of vs g = None" using Cons.prems(2) v by (auto simp: map_of_eq_None_iff)
  then show ?case using Cons.IH [OF n(2)] Cons.prems(2) v n(1) by (auto simp: update_conv' split: option.split)
qed simp

lemma Prepare_success:
  assumes "Prepare y m u = Inr p"
  obtains os where "remove_fields (up_removals u) (mg_overrides m) = Inr os"
    and "set_fields y (up_values u) os = Inr (pr_overrides p)" and "up_expected u = mg_revision m"
    and "pr_expected p = mg_revision m" and "effective_of y (mg_lower m) (pr_overrides p) = Inr (pr_effective p)"
  using assms by (auto simp: Prepare_def split: if_splits sum.splits)

lemma effective_of_valid:
  "effective_of y lower os = Inr cfg \<Longrightarrow> Validate cfg = [] \<and> applyOverrides y os lower = Inr cfg"
  by (auto simp: effective_of_def split: if_splits sum.splits)

section \<open>The file\<close>

text \<open>The two outcomes: the new document under the path and nothing else, or the old file.\<close>

definition base_of :: "'n yaml_library \<Rightarrow> 'n manager \<Rightarrow> 'n" where
  "base_of y m = (case mg_base m of None \<Rightarrow> yl_empty_mapping y | Some n \<Rightarrow> n)"

lemma persist_ok:
  assumes "persist y io m os fs = (fs', None)" and "io_create io \<noteq> Some (mg_path m)"
  obtains data where "yl_marshal y (base_of y m) os = Some data" and "fs' = fs(mg_path m \<mapsto> data)" and "mg_path m \<noteq> []"
proof -
  obtain data temp where d: "yl_marshal y (base_of y m) os = Some data" and t: "io_create io = Some temp" "fs temp = None"
    and p: "mg_path m \<noteq> []" and ok: "io_write io"
    using assms(1) by (auto simp: persist_def base_of_def Let_def split: if_splits option.splits)
  have ne: "temp \<noteq> mg_path m" using assms(2) t(1) by simp
  have "fs' = fs(temp \<mapsto> data, mg_path m \<mapsto> data, temp := None)"
    using assms(1) d t p ok by (simp add: persist_def base_of_def Let_def split: if_splits)
  then have "fs' = fs(mg_path m \<mapsto> data)" using t(2) ne by (auto simp: fun_eq_iff)
  with d p show thesis using that by blast
qed

lemma persist_failed:
  assumes "persist y io m os fs = (fs', Some e)"
  shows "fs' path = fs path \<or> io_create io = Some path \<and> fs path = None \<and> \<not> io_remove io"
  using assms by (auto simp: persist_def Let_def split: if_splits option.splits)

lemma persist_failed_path:
  "persist y io m os fs = (fs', Some e) \<Longrightarrow> io_create io \<noteq> Some path \<Longrightarrow> fs' path = fs path"
  using persist_failed by metis

section \<open>The contract of a configuration change\<close>

text \<open>A manager is consistent when its configuration is its lower layers under its overrides, and valid.\<close>

definition manager_ok :: "'n yaml_library \<Rightarrow> 'n manager \<Rightarrow> bool" where
  "manager_ok y m \<longleftrightarrow> overrides_ok (mg_overrides m) \<and> effective_of y (mg_lower m) (mg_overrides m) = Inr (mg_effective m)"

definition prepared_ok :: "'n yaml_library \<Rightarrow> config \<Rightarrow> 'n prepared \<Rightarrow> bool" where
  "prepared_ok y lower p \<longleftrightarrow> overrides_ok (pr_overrides p) \<and> effective_of y lower (pr_overrides p) = Inr (pr_effective p)"

definition stored :: "'n yaml_library \<Rightarrow> 'n manager \<Rightarrow> files \<Rightarrow> bool" where
  "stored y m fs \<longleftrightarrow> (\<exists>data. fs (mg_path m) = Some data \<and> yl_marshal y (base_of y m) (mg_overrides m) = Some data)"

text \<open>
  Every operation that changes the configuration either refuses, and then leaves the manager and
  the file alone, or installs new overrides with their configuration and counts the revision.
\<close>

definition installed :: "'n manager \<Rightarrow> (string \<times> 'n) list \<Rightarrow> config \<Rightarrow> 'n manager" where
  "installed m os cfg = m\<lparr>mg_effective := cfg, mg_overrides := os, mg_revision := mg_revision m + 1\<rparr>"

locale config_change =
  fixes y :: "'n yaml_library"
    and may :: "'n manager \<Rightarrow> bool"
    and change :: "'n manager \<Rightarrow> files \<Rightarrow> 'n manager \<times> files \<times> (manager_error + config)"
  assumes refused: "may m \<Longrightarrow> change m fs = (m', fs', Inl e) \<Longrightarrow> m' = m \<and> fs' (mg_path m) = fs (mg_path m)"
    and accepted: "may m \<Longrightarrow> manager_ok y m \<Longrightarrow> change m fs = (m', fs', Inr cfg) \<Longrightarrow>
      \<exists>os. m' = installed m os cfg \<and> overrides_ok os \<and> effective_of y (mg_lower m) os = Inr cfg \<and> stored y m' fs'"
begin

lemma change_cases:
  assumes "may m" and "manager_ok y m" and "change m fs = (m', fs', r)"
  obtains (kept) e where "r = Inl e" and "m' = m" and "fs' (mg_path m) = fs (mg_path m)"
  | (changed) cfg os where "r = Inr cfg" and "m' = installed m os cfg" and "overrides_ok os"
      and "effective_of y (mg_lower m) os = Inr cfg" and "stored y m' fs'"
proof (cases r)
  case (Inl e)
  have "m' = m \<and> fs' (mg_path m) = fs (mg_path m)"
    by (rule refused [OF assms(1)]) (use assms(3) Inl in simp)
  then show thesis using kept Inl by blast
next
  case (Inr cfg)
  have "\<exists>os. m' = installed m os cfg \<and> overrides_ok os \<and> effective_of y (mg_lower m) os = Inr cfg \<and> stored y m' fs'"
    by (rule accepted [OF assms(1,2)]) (use assms(3) Inr in simp)
  then show thesis using changed Inr by blast
qed

lemma keeps_ok:
  assumes "may m" and "manager_ok y m" and "change m fs = (m', fs', r)"
  shows "manager_ok y m'"
  by (cases rule: change_cases [OF assms]) (use assms(2) in \<open>simp_all add: manager_ok_def installed_def\<close>)

lemma keeps_lower:
  assumes "may m" and "manager_ok y m" and "change m fs = (m', fs', r)"
  shows "mg_lower m' = mg_lower m \<and> mg_path m' = mg_path m \<and> mg_base m' = mg_base m"
  by (cases rule: change_cases [OF assms]) (simp_all add: installed_def)

lemma keeps_stored:
  assumes "may m" and "manager_ok y m" and "change m fs = (m', fs', r)" and "stored y m fs"
  shows "stored y m' fs'"
  by (cases rule: change_cases [OF assms(1-3)]) (use assms(4) in \<open>auto simp: stored_def\<close>)

lemma outcome:
  assumes "may m" and "manager_ok y m" and "change m fs = (m', fs', r)"
  shows "case r of Inl e \<Rightarrow> m' = m \<and> fs' (mg_path m) = fs (mg_path m)
    | Inr cfg \<Rightarrow> mg_effective m' = cfg \<and> mg_revision m' = mg_revision m + 1 \<and> stored y m' fs' \<and> Validate cfg = []"
  by (cases rule: change_cases [OF assms]) (simp_all add: installed_def effective_of_valid)

end

lemma persist_stored:
  assumes "persist y io m os fs = (fs', None)" and "io_create io \<noteq> Some (mg_path m)"
  shows "stored y (installed m os cfg) fs'"
proof -
  obtain data where "yl_marshal y (base_of y m) os = Some data" "fs' = fs(mg_path m \<mapsto> data)"
    using assms by (rule persist_ok)
  then show ?thesis by (simp add: stored_def installed_def base_of_def)
qed

lemma activate_refused:
  assumes "activate y io os m fs = (m', fs', Inl e)" and "io_create io \<noteq> Some (mg_path m)"
  shows "m' = m \<and> fs' (mg_path m) = fs (mg_path m)"
  using assms by (auto simp: activate_def intro: persist_failed_path split: sum.splits prod.splits option.splits)

lemma activate_accepted:
  assumes "activate y io os m fs = (m', fs', Inr cfg)" and "io_create io \<noteq> Some (mg_path m)" and "overrides_ok os"
  shows "m' = installed m os cfg \<and> overrides_ok os \<and> effective_of y (mg_lower m) os = Inr cfg \<and> stored y m' fs'"
  using assms persist_stored [OF _ assms(2)]
  by (auto simp: activate_def installed_def split: sum.splits prod.splits option.splits)

abbreviation temp_beside :: "persist_io \<Rightarrow> 'n manager \<Rightarrow> bool" where
  "temp_beside io m \<equiv> io_create io \<noteq> Some (mg_path m)"

lemma Commit_refused:
  assumes "Commit y io p m fs = (m', fs', Inl e)" and "temp_beside io m"
  shows "m' = m \<and> fs' (mg_path m) = fs (mg_path m)"
proof -
  obtain fs1 failure where w: "persist y io m (pr_overrides p) fs = (fs1, failure)" by fastforce
  show ?thesis
  proof (cases failure)
    case (Some e1)
    then have "fs1 (mg_path m) = fs (mg_path m)" using persist_failed_path w assms(2) by blast
    with assms(1) w Some show ?thesis by (auto simp: Commit_def split: if_splits)
  qed (use assms(1) w in \<open>auto simp: Commit_def split: if_splits\<close>)
qed

lemma Commit_accepted:
  assumes "Commit y io p m fs = (m', fs', Inr cfg)"
  shows "pr_expected p = mg_revision m \<and> persist y io m (pr_overrides p) fs = (fs', None)
    \<and> m' = installed m (pr_overrides p) cfg \<and> cfg = pr_effective p"
proof -
  obtain fs1 failure where w: "persist y io m (pr_overrides p) fs = (fs1, failure)" by fastforce
  with assms show ?thesis by (cases failure) (auto simp: Commit_def installed_def split: if_splits)
qed

interpretation commit: config_change y "\<lambda>m. temp_beside io m \<and> prepared_ok y (mg_lower m) p" "Commit y io p" for y io p
proof
  show "m' = m \<and> fs' (mg_path m) = fs (mg_path m)"
    if "temp_beside io m \<and> prepared_ok y (mg_lower m) p" "Commit y io p m fs = (m', fs', Inl e)" for m fs m' fs' e
    using Commit_refused that by blast
  show "\<exists>os. m' = installed m os cfg \<and> overrides_ok os \<and> effective_of y (mg_lower m) os = Inr cfg \<and> stored y m' fs'"
    if "temp_beside io m \<and> prepared_ok y (mg_lower m) p" "Commit y io p m fs = (m', fs', Inr cfg)" for m fs m' fs' cfg
    using Commit_accepted [OF that(2)] that(1) persist_stored unfolding prepared_ok_def by blast
qed

interpretation remove: config_change y "temp_beside io" "RemoveOverride y io expected field" for y io expected field
proof
  fix m :: "'a manager" and fs m' fs' e
  assume "temp_beside io m" "RemoveOverride y io expected field m fs = (m', fs', Inl e)"
  then show "m' = m \<and> fs' (mg_path m) = fs (mg_path m)"
    by (auto simp: RemoveOverride_def activate_refused split: if_splits)
next
  fix m :: "'a manager" and fs m' fs' cfg
  assume a: "temp_beside io m" "manager_ok y m" "RemoveOverride y io expected field m fs = (m', fs', Inr cfg)"
  then have "activate y io (without_field field (mg_overrides m)) m fs = (m', fs', Inr cfg)"
    by (auto simp: RemoveOverride_def split: if_splits)
  then show "\<exists>os. m' = installed m os cfg \<and> overrides_ok os \<and> effective_of y (mg_lower m) os = Inr cfg \<and> stored y m' fs'"
    using a activate_accepted without_field_ok unfolding manager_ok_def by blast
qed

interpretation remove_auth: config_change y "temp_beside io" "RemoveAuthentication y io expected" for y io expected
proof
  fix m :: "'a manager" and fs m' fs' e
  assume "temp_beside io m" "RemoveAuthentication y io expected m fs = (m', fs', Inl e)"
  then show "m' = m \<and> fs' (mg_path m) = fs (mg_path m)"
    by (auto simp: RemoveAuthentication_def Let_def activate_refused split: if_splits)
next
  fix m :: "'a manager" and fs m' fs' cfg
  let ?os = "fold without_field [''authentication.username'', ''authentication.password'']"
  assume a: "temp_beside io m" "manager_ok y m" "RemoveAuthentication y io expected m fs = (m', fs', Inr cfg)"
  then have "activate y io (?os (mg_overrides m)) m fs = (m', fs', Inr cfg)"
    by (auto simp: RemoveAuthentication_def Let_def split: if_splits)
  moreover have "overrides_ok (?os (mg_overrides m))"
    using a(2) by (simp add: manager_ok_def without_field_ok)
  ultimately show "\<exists>os. m' = installed m os cfg \<and> overrides_ok os \<and> effective_of y (mg_lower m) os = Inr cfg \<and> stored y m' fs'"
    using a(1) activate_accepted by blast
qed

section \<open>Reachable configurations\<close>

text \<open>
  Updates are prepared and committed in two steps; other changes may come between. A prepared
  update may be committed more than once or never.
\<close>

record 'n config_state =
  st_manager :: "'n manager"
  st_files :: files
  st_prepared :: "'n prepared list"

inductive config_step :: "'n yaml_library \<Rightarrow> 'n config_state \<Rightarrow> 'n config_state \<Rightarrow> bool" for y where
  step_prepare: "Prepare y (st_manager s) u = Inr p \<Longrightarrow> config_step y s (s\<lparr>st_prepared := p # st_prepared s\<rparr>)"
| step_commit: "p \<in> set (st_prepared s) \<Longrightarrow> temp_beside io (st_manager s) \<Longrightarrow>
    Commit y io p (st_manager s) (st_files s) = (m, fs, r) \<Longrightarrow> config_step y s (s\<lparr>st_manager := m, st_files := fs\<rparr>)"
| step_remove: "temp_beside io (st_manager s) \<Longrightarrow>
    RemoveOverride y io expected field (st_manager s) (st_files s) = (m, fs, r) \<Longrightarrow>
    config_step y s (s\<lparr>st_manager := m, st_files := fs\<rparr>)"
| step_remove_authentication: "temp_beside io (st_manager s) \<Longrightarrow>
    RemoveAuthentication y io expected (st_manager s) (st_files s) = (m, fs, r) \<Longrightarrow>
    config_step y s (s\<lparr>st_manager := m, st_files := fs\<rparr>)"

definition config_inv :: "'n yaml_library \<Rightarrow> 'n config_state \<Rightarrow> bool" where
  "config_inv y s \<longleftrightarrow> manager_ok y (st_manager s)
     \<and> list_all (prepared_ok y (mg_lower (st_manager s))) (st_prepared s)"

lemma Prepare_ok:
  assumes "Prepare y m u = Inr p" and "manager_ok y m"
  shows "prepared_ok y (mg_lower m) p"
proof -
  obtain os where "remove_fields (up_removals u) (mg_overrides m) = Inr os"
    "set_fields y (up_values u) os = Inr (pr_overrides p)" "effective_of y (mg_lower m) (pr_overrides p) = Inr (pr_effective p)"
    using assms(1) by (rule Prepare_success)
  with assms(2) show ?thesis
    using remove_fields_ok set_fields_ok by (metis manager_ok_def prepared_ok_def)
qed

lemma config_step_inv: "config_step y s s' \<Longrightarrow> config_inv y s \<Longrightarrow> config_inv y s'"
proof (induction rule: config_step.induct)
  case (step_prepare s u p)
  then show ?case using Prepare_ok by (auto simp: config_inv_def)
next
  case (step_commit p s io m fs r)
  then have may: "temp_beside io (st_manager s) \<and> prepared_ok y (mg_lower (st_manager s)) p"
    by (auto simp: config_inv_def list_all_iff)
  have ok: "manager_ok y (st_manager s)" using step_commit.prems by (simp add: config_inv_def)
  show ?case
    using commit.keeps_ok [OF may ok step_commit.hyps(3)] commit.keeps_lower [OF may ok step_commit.hyps(3)]
      step_commit.prems by (simp add: config_inv_def)
next
  case (step_remove io s expected field m fs r)
  have ok: "manager_ok y (st_manager s)" using step_remove.prems by (simp add: config_inv_def)
  show ?case
    using remove.keeps_ok [OF step_remove.hyps(1) ok step_remove.hyps(2)]
      remove.keeps_lower [OF step_remove.hyps(1) ok step_remove.hyps(2)] step_remove.prems by (simp add: config_inv_def)
next
  case (step_remove_authentication io s expected m fs r)
  have ok: "manager_ok y (st_manager s)" using step_remove_authentication.prems by (simp add: config_inv_def)
  show ?case
    using remove_auth.keeps_ok [OF step_remove_authentication.hyps(1) ok step_remove_authentication.hyps(2)]
      remove_auth.keeps_lower [OF step_remove_authentication.hyps(1) ok step_remove_authentication.hyps(2)]
      step_remove_authentication.prems by (simp add: config_inv_def)
qed

lemma config_step_stored:
  "config_step y s s' \<Longrightarrow> config_inv y s \<Longrightarrow> stored y (st_manager s) (st_files s) \<Longrightarrow> stored y (st_manager s') (st_files s')"
proof (induction rule: config_step.induct)
  case (step_commit p s io m fs r)
  then have "temp_beside io (st_manager s) \<and> prepared_ok y (mg_lower (st_manager s)) p"
    by (auto simp: config_inv_def list_all_iff)
  with commit.keeps_stored [OF this _ step_commit.hyps(3)] step_commit.prems show ?case by (simp add: config_inv_def)
next
  case (step_remove io s expected field m fs r)
  with remove.keeps_stored [OF step_remove.hyps(1) _ step_remove.hyps(2)] show ?case by (simp add: config_inv_def)
next
  case (step_remove_authentication io s expected m fs r)
  with remove_auth.keeps_stored [OF step_remove_authentication.hyps(1) _ step_remove_authentication.hyps(2)]
  show ?case by (simp add: config_inv_def)
qed (simp add: config_inv_def)

lemma config_reach_inv:
  assumes "(config_step y)\<^sup>*\<^sup>* s s'" and "config_inv y s"
  shows "config_inv y s' \<and> mg_lower (st_manager s') = mg_lower (st_manager s) \<and> mg_path (st_manager s') = mg_path (st_manager s)"
  using assms
proof (induction rule: rtranclp_induct)
  case (step s' s'')
  have inv: "config_inv y s'" using step by simp
  have ok: "manager_ok y (st_manager s')" and prep: "list_all (prepared_ok y (mg_lower (st_manager s'))) (st_prepared s')"
    using inv by (simp_all add: config_inv_def)
  have "mg_lower (st_manager s'') = mg_lower (st_manager s') \<and> mg_path (st_manager s'') = mg_path (st_manager s')"
    using step.hyps(2)
  proof cases
    case (step_commit p io m fs r)
    then have "temp_beside io (st_manager s') \<and> prepared_ok y (mg_lower (st_manager s')) p"
      using prep by (auto simp: list_all_iff)
    from commit.keeps_lower [OF this ok step_commit(4)] step_commit(1) show ?thesis by simp
  next
    case (step_remove io expected field m fs r)
    from remove.keeps_lower [OF step_remove(2) ok step_remove(3)] step_remove(1) show ?thesis by simp
  next
    case (step_remove_authentication io expected m fs r)
    from remove_auth.keeps_lower [OF step_remove_authentication(2) ok step_remove_authentication(3)] step_remove_authentication(1)
    show ?thesis by simp
  qed simp
  with config_step_inv [OF step.hyps(2) inv] step show ?case by simp
qed simp

section \<open>Starting from the file\<close>

text \<open>Resolving the database path sets it to a value that depends on nothing else.\<close>

definition resolved_path :: "path_error + string \<Rightarrow> string \<Rightarrow> string \<Rightarrow> path_error + string" where
  "resolved_path d path p = (if p = [] then d else if \<not> has_prefix ''/'' p then Inr (path_join [path_dir path, p]) else Inr p)"

lemma set_own_sqlite_path: "set_sqlite_path (sto_sqlite_path (cf_storage c)) c = c"
  by (simp add: set_sqlite_path_def)

lemma resolveSQLitePath_sets:
  "resolveSQLitePath d c path = (case resolved_path d path (sto_sqlite_path (cf_storage c)) of
     Inl e \<Rightarrow> Inl e | Inr p \<Rightarrow> Inr (set_sqlite_path p c))"
  using set_own_sqlite_path [of c]
  by (auto simp: resolveSQLitePath_def resolved_path_def set_sqlite_path_def Let_def split: sum.split)

lemma applyOverrides_sqlite:
  assumes "''storage.sqlite_path'' \<notin> fst ` set os"
  shows "right (applyOverrides y os (set_sqlite_path p c)) = map_option (set_sqlite_path p) (right (applyOverrides y os c))"
    and "applyOverrides y os c = Inr c1 \<Longrightarrow> sto_sqlite_path (cf_storage c1) = sto_sqlite_path (cf_storage c)"
proof -
  have one: "apply_override y fv (set_sqlite_path p c) = map_option (set_sqlite_path p) (apply_override y fv c)"
    "apply_override y fv c = Some c1 \<Longrightarrow> sto_sqlite_path (cf_storage c1) = sto_sqlite_path (cf_storage c)"
    if ne: "fst fv \<noteq> ''storage.sqlite_path''" for fv c c1
  proof -
    have field: "d v (set_sqlite_path p c) = map_option (set_sqlite_path p) (d v c)"
      "d v c = Some c1 \<Longrightarrow> sto_sqlite_path (cf_storage c1) = sto_sqlite_path (cf_storage c)"
      if "map_of (override_decoders y) (fst fv) = Some d" for d v
      using decoders_keep_sqlite_path [of y, unfolded list_all_iff, rule_format, OF map_of_SomeD [OF that]] ne by auto
    show "apply_override y fv (set_sqlite_path p c) = map_option (set_sqlite_path p) (apply_override y fv c)"
      "apply_override y fv c = Some c1 \<Longrightarrow> sto_sqlite_path (cf_storage c1) = sto_sqlite_path (cf_storage c)"
      using field by (cases "map_of (override_decoders y) (fst fv)"; simp add: apply_override_def)+
  qed
  show "right (applyOverrides y os (set_sqlite_path p c)) = map_option (set_sqlite_path p) (right (applyOverrides y os c))"
    using assms
  proof (induction os arbitrary: c)
    case (Cons fv os)
    then have "fst fv \<noteq> ''storage.sqlite_path''" by auto
    with Cons show ?case by (cases "apply_override y fv c") (simp_all add: applyOverrides_right one)
  qed (simp add: right_def)
  have "right (applyOverrides y os c) = Some c1 \<Longrightarrow> sto_sqlite_path (cf_storage c1) = sto_sqlite_path (cf_storage c)"
    using assms
  proof (induction os arbitrary: c)
    case (Cons fv os)
    then show ?case
      using one(2) [of fv c] by (cases "apply_override y fv c") (auto simp: applyOverrides_right simp del: right_Some)
  qed (simp add: applyOverrides_right)
  then show "applyOverrides y os c = Inr c1 \<Longrightarrow> sto_sqlite_path (cf_storage c1) = sto_sqlite_path (cf_storage c)"
    by simp
qed

text \<open>The configuration above the lower layers: applying overrides before or after resolving the path.\<close>

lemma effective_after_resolving:
  assumes "checked d path c0 = Inr lower" and "effective_of y lower os = Inr effective"
    and "''storage.sqlite_path'' \<notin> fst ` set os"
  obtains c1 where "applyOverrides y os c0 = Inr c1" and "checked d path c1 = Inr effective"
proof -
  obtain p where p: "resolved_path d path (sto_sqlite_path (cf_storage c0)) = Inr p" "lower = set_sqlite_path p c0"
    using assms(1) by (auto simp: checked_def resolveSQLitePath_sets split: sum.splits if_splits)
  have eff: "applyOverrides y os lower = Inr effective" "Validate effective = []"
    using effective_of_valid [OF assms(2)] by simp_all
  then have "map_option (set_sqlite_path p) (right (applyOverrides y os c0)) = Some effective"
    using applyOverrides_sqlite(1) [OF assms(3), of y p c0] p(2) by (metis right_Some)
  then obtain c1 where c1: "applyOverrides y os c0 = Inr c1" "effective = set_sqlite_path p c1" by auto
  have "sto_sqlite_path (cf_storage c1) = sto_sqlite_path (cf_storage c0)"
    by (rule applyOverrides_sqlite(2) [OF assms(3) c1(1)])
  then have "checked d path c1 = Inr effective"
    using p(1) c1(2) eff(2) by (simp add: checked_def resolveSQLitePath_sets)
  with c1(1) show thesis by (rule that)
qed

lemma resolving_before:
  assumes "checked d path c1 = Inr cfg" and "applyOverrides y os c0 = Inr c1" and "checked d path c0 = Inr lower"
    and "''storage.sqlite_path'' \<notin> fst ` set os"
  shows "effective_of y lower os = Inr cfg"
proof -
  have same: "sto_sqlite_path (cf_storage c1) = sto_sqlite_path (cf_storage c0)"
    by (rule applyOverrides_sqlite(2) [OF assms(4,2)])
  obtain p where p: "resolved_path d path (sto_sqlite_path (cf_storage c0)) = Inr p" "lower = set_sqlite_path p c0"
    using assms(3) by (auto simp: checked_def resolveSQLitePath_sets split: sum.splits if_splits)
  then have cfg: "cfg = set_sqlite_path p c1" "Validate cfg = []"
    using assms(1) same by (auto simp: checked_def resolveSQLitePath_sets split: sum.splits if_splits)
  have "right (applyOverrides y os lower) = Some cfg"
    unfolding p(2) applyOverrides_sqlite(1) [OF assms(4)] using assms(2) cfg(1) by (simp add: right_def)
  then show ?thesis using cfg(2) by (simp add: effective_of_def)
qed

text \<open>A program that starts has a consistent manager, unless the database path itself is overridden.\<close>

lemma started_manager_ok:
  assumes "Load y args env defaultPath d readable fs = Inr cfg" and "cf_config_path cfg \<noteq> []"
    and "fst (ResolveConfigPath args env defaultPath) = Inr (cf_config_path cfg)"
    and "NewManager y args env d readable fs cfg = Inr m"
    and "overrides_ok (mg_overrides m)" and "''storage.sqlite_path'' \<notin> fst ` set (mg_overrides m)"
  shows "manager_ok y m \<and> mg_effective m = cfg"
proof -
  let ?path = "cf_config_path cfg"
  obtain base os where doc: "readDocument y readable fs ?path False = Inr (base, os)"
    and m: "mg_overrides m = os" "mg_effective m = cfg"
      "if os = [] then mg_lower m = cfg else loadLowerConfiguration y d ?path base = Inr (mg_lower m)"
    using assms(2,4) by (auto simp: NewManager_def Let_def split: sum.splits if_splits)
  obtain explicit where path: "ResolveConfigPath args env defaultPath = (Inr ?path, explicit)"
    using assms(3) by (metis prod.collapse)
  have "readDocument y readable fs ?path explicit = Inr (base, os)"
    using assms(1) doc path by (auto simp: Load_def readDocument_def split: option.splits if_splits sum.splits)
  then obtain c0 c1 where c: "layered y ?path base = Inr c0" "applyOverrides y os c0 = Inr c1" "checked d ?path c1 = Inr cfg"
    using assms(1) path by (auto simp: Load_def split: sum.splits)
  have valid: "Validate cfg = []" using c(3) by (auto simp: checked_def split: sum.splits if_splits)
  have "effective_of y (mg_lower m) os = Inr cfg"
  proof (cases "os = []")
    case True
    with m valid show ?thesis by (simp add: effective_of_def)
  next
    case False
    with m(3) c(1) have "checked d ?path c0 = Inr (mg_lower m)" by (simp add: loadLowerConfiguration_def)
    from resolving_before [OF c(3,2) this] assms(6) m(1) show ?thesis by simp
  qed
  with m assms(5) show ?thesis by (simp add: manager_ok_def)
qed

text \<open>Reading a document back, for a YAML library that decodes what it encodes.\<close>

definition yaml_roundtrip :: "'n yaml_library \<Rightarrow> bool" where
  "yaml_roundtrip y \<longleftrightarrow> (\<forall>base os data. yl_marshal y base os = Some data \<longrightarrow>
     (\<exists>os'. yl_parse y data = Some (Some base, os') \<and> mset os' = mset os))"

lemma restart_loads:
  assumes "yaml_roundtrip y" and "stored y m fs" and "manager_ok y m"
    and "list_all (\<lambda>data. length data \<le> 1048576) (list_of (fs (mg_path m)))"
    and "yl_check_base y (base_of y m)" and "layered y (mg_path m) (Some (base_of y m)) = Inr c0"
    and "checked d (mg_path m) c0 = Inr (mg_lower m)"
    and "ResolveConfigPath args env defaultPath = (Inr (mg_path m), explicit)"
    and "''storage.sqlite_path'' \<notin> fst ` set (mg_overrides m)"
  shows "Load y args env defaultPath d True fs = Inr (mg_effective m)"
proof -
  obtain data where data: "fs (mg_path m) = Some data" "yl_marshal y (base_of y m) (mg_overrides m) = Some data"
    using assms(2) by (auto simp: stored_def)
  obtain os where os: "yl_parse y data = Some (Some (base_of y m), os)" "mset os = mset (mg_overrides m)"
    using assms(1) data(2) unfolding yaml_roundtrip_def by blast
  have "readDocument y True fs (mg_path m) explicit = Inr (Some (base_of y m), os)"
    using data(1) assms(4,5) os(1) by (simp add: readDocument_def parseDocument_def list_of_def)
  moreover obtain c1 where c1: "applyOverrides y (mg_overrides m) c0 = Inr c1" "checked d (mg_path m) c1 = Inr (mg_effective m)"
    using effective_after_resolving [OF assms(7) _ assms(9)] assms(3) by (auto simp: manager_ok_def)
  moreover have "applyOverrides y os c0 = Inr c1"
  proof -
    have "right (applyOverrides y (mg_overrides m) c0) = right (applyOverrides y os c0)"
      using assms(3) os(2) by (intro applyOverrides_mset) (simp_all add: manager_ok_def overrides_ok_def)
    with c1(1) show ?thesis by (metis right_Some)
  qed
  ultimately show ?thesis by (simp add: Load_def assms(6,8))
qed

section \<open>Properties\<close>

text \<open>A library for the samples: nodes are texts, and one document can be encoded.\<close>

definition sample_overrides :: "(string \<times> string) list" where
  "sample_overrides = [(''cors.enabled'', ''true'')]"

definition sample_yaml :: "string yaml_library" where
  "sample_yaml = \<lparr>yl_string = \<lambda>n old. Some n, yl_int = \<lambda>n old. parse_i64 n,
     yl_bool = \<lambda>n old. if n = ''true'' then Some True else if n = ''false'' then Some False else None,
     yl_headers = \<lambda>n. None, yl_fraction = \<lambda>f unit k. f * unit div 10 ^ k, yl_json = Some,
     yl_marshal = \<lambda>base os. if base = ''{}'' \<and> os = sample_overrides then Some ''cors'' else None,
     yl_parse = \<lambda>data. if data = ''cors'' then Some (Some ''{}'', sample_overrides) else None,
     yl_check_base = \<lambda>base. True, yl_base_value = \<lambda>base. Some BaseOther, yl_empty_mapping = ''{}'',
     yl_conf = \<lambda>cfg base. Some (set_sqlite_path ''/data/relay.db'' cfg, False)\<rparr>"

definition sample_lower :: config where
  "sample_lower = Defaults\<lparr>cf_config_path := ''/etc/relay.yaml'',
     cf_storage := \<lparr>sto_mode = StorageSQLite, sto_sqlite_path = ''/data/relay.db'', sto_retention_days = 0\<rparr>,
     cf_capture := (cf_capture Defaults)\<lparr>cap_headers := [(''Content-Type'', [''application/json''])]\<rparr>\<rparr>"

definition sample_manager :: "string manager" where
  "sample_manager = \<lparr>mg_lower = sample_lower, mg_effective = sample_lower, mg_base = None, mg_overrides = [],
     mg_origins = [], mg_revision = 1, mg_path = ''/etc/relay.yaml''\<rparr>"

definition sample_io :: persist_io where
  "sample_io = \<lparr>io_mkdir = True, io_create = Some ''/etc/.reqrelay-1.yaml'', io_chmod = True, io_write = True,
     io_written = 0, io_sync = True, io_close = True, io_rename = True, io_remove = True\<rparr>"

definition sample_prepared :: "string prepared" where
  "sample_prepared = \<lparr>pr_expected = 1, pr_overrides = sample_overrides, pr_effective = sample_lower\<lparr>cf_cors_enabled := True\<rparr>\<rparr>"

definition sample_committed :: "string manager" where
  "sample_committed = installed sample_manager sample_overrides (sample_lower\<lparr>cf_cors_enabled := True\<rparr>)"

definition sample_files :: files where
  "sample_files = [''/etc/relay.yaml'' \<mapsto> ''cors'']"

lemma Validate_sample_lower: "Validate sample_lower = []" "Validate (sample_lower\<lparr>cf_cors_enabled := True\<rparr>) = []"
  by code_simp+

lemma cors_decoder: "map_of (override_decoders y) ''cors.enabled'' =
    Some (\<lambda>v c. map_option (\<lambda>x. c\<lparr>cf_cors_enabled := x\<rparr>) (yl_bool y v (cf_cors_enabled c)))"
  by (simp add: override_decoders_def listener_decoders_def)

lemma sample_bool: "yl_bool sample_yaml ''true'' b = Some True"
  by (simp add: sample_yaml_def)

lemma sample_effective:
  "effective_of sample_yaml sample_lower [] = Inr sample_lower"
  "effective_of sample_yaml sample_lower sample_overrides = Inr (sample_lower\<lparr>cf_cors_enabled := True\<rparr>)"
  by (simp_all add: effective_of_def sample_overrides_def cors_decoder Validate_sample_lower sample_bool)

lemma cors_known: "knownField ''cors.enabled''"
  by (simp add: knownField_def knownOverrideFields_def)

lemma sample_manager_ok: "manager_ok sample_yaml sample_manager" "temp_beside sample_io sample_manager"
  "prepared_ok sample_yaml (mg_lower sample_manager) sample_prepared"
  by (simp_all add: manager_ok_def prepared_ok_def sample_manager_def sample_prepared_def sample_io_def sample_effective
      overrides_ok_def cors_known sample_overrides_def [THEN arg_cong [of _ _ "map fst"]]
      sample_overrides_def [THEN arg_cong [of _ _ "list_all _"]])

lemma sample_paths: "mg_path sample_manager = ''/etc/relay.yaml''" "mg_lower sample_manager = sample_lower"
  "base_of sample_yaml sample_manager = ''{}''"
  by (simp_all add: sample_manager_def base_of_def sample_yaml_def)

lemma sample_roundtrip: "yaml_roundtrip sample_yaml"
  by (auto simp: yaml_roundtrip_def sample_yaml_def split: if_splits)

lemma sample_lower_loaded:
  "layered sample_yaml ''/etc/relay.yaml'' (Some ''{}'') = Inr sample_lower"
  "checked (Inl NoHome) ''/etc/relay.yaml'' sample_lower = Inr sample_lower"
  "loadLowerConfiguration sample_yaml (Inl NoHome) ''/etc/relay.yaml'' (Some ''{}'') = Inr sample_lower"
proof -
  show l: "layered sample_yaml ''/etc/relay.yaml'' (Some ''{}'') = Inr sample_lower"
    by (simp add: layered_def sample_yaml_def sample_lower_def set_sqlite_path_def) (simp add: Defaults_def)
  show c: "checked (Inl NoHome) ''/etc/relay.yaml'' sample_lower = Inr sample_lower"
    using Validate_sample_lower(1) by (simp add: checked_def resolveSQLitePath_def sample_lower_def)
  from l c show "loadLowerConfiguration sample_yaml (Inl NoHome) ''/etc/relay.yaml'' (Some ''{}'') = Inr sample_lower"
    by (simp add: loadLowerConfiguration_def)
qed

lemma sample_small: "list_all (\<lambda>data. length data \<le> 1048576) (list_of (sample_files ''/etc/relay.yaml''))"
  by (simp add: sample_files_def list_of_def)

lemma sample_arguments: "ResolveConfigPath [''--config=/etc/relay.yaml''] (\<lambda>_. None) defaultPath = (Inr ''/etc/relay.yaml'', True)"
  by (simp add: ResolveConfigPath_def trim_prefix_def)

lemma sample_persist: "persist sample_yaml sample_io sample_manager sample_overrides (\<lambda>_. None) = (sample_files, None)"
  by (simp add: persist_def sample_yaml_def sample_io_def sample_manager_def sample_files_def fun_eq_iff)

lemma sample_commit: "Commit sample_yaml sample_io sample_prepared sample_manager (\<lambda>_. None)
    = (sample_committed, sample_files, Inr (sample_lower\<lparr>cf_cors_enabled := True\<rparr>))"
  using sample_persist by (simp add: Commit_def sample_committed_def installed_def)
    (simp add: sample_prepared_def sample_manager_def)

text \<open>
  C39. The order in which the overrides are applied, which Go leaves open for a map, does not
  change the configuration or whether there is one.
\<close>

theorem override_order_irrelevant:
  assumes "mset os = mset os'" and "distinct (map fst os)"
  shows "applyOverrides y os cfg = Inr result \<longleftrightarrow> applyOverrides y os' cfg = Inr result"
  using applyOverrides_mset [OF assms, of y cfg] by (metis right_Some)

theorem override_order_irrelevant_witness:
  "applyOverrides sample_yaml [(''cors.enabled'', ''true''), (''mode'', ''proxy'')] Defaults = Inr Defaults
    \<longleftrightarrow> applyOverrides sample_yaml [(''mode'', ''proxy''), (''cors.enabled'', ''true'')] Defaults = Inr Defaults"
  by (rule override_order_irrelevant) simp_all

text \<open>
  C25. The configuration file is replaced as a whole or not at all: after a success the path holds
  the complete new document, after a failure at any step it holds what it held, and no other file
  changes but a temporary file whose removal failed.
\<close>

theorem configuration_file_replaced_whole:
  assumes "persist y io m os fs = (fs', failure)" and "io_create io \<noteq> Some (mg_path m)"
  shows "(if failure = None then fs' (mg_path m) \<noteq> None \<and> fs' (mg_path m) = yl_marshal y (base_of y m) os
      else fs' (mg_path m) = fs (mg_path m))
    \<and> (path = mg_path m \<or> fs' path = fs path
        \<or> failure \<noteq> None \<and> io_create io = Some path \<and> fs path = None \<and> \<not> io_remove io)"
proof (cases failure)
  case None
  with assms obtain data where "yl_marshal y (base_of y m) os = Some data" "fs' = fs(mg_path m \<mapsto> data)"
    using persist_ok by metis
  with None show ?thesis by simp
next
  case (Some e)
  then have w: "persist y io m os fs = (fs', Some e)" using assms(1) by simp
  have "fs' (mg_path m) = fs (mg_path m)" using w assms(2) by (rule persist_failed_path)
  with Some persist_failed [OF w, of path] show ?thesis by auto
qed

theorem configuration_file_replaced_whole_witness:
  "sample_files ''/etc/relay.yaml'' = yl_marshal sample_yaml ''{}'' sample_overrides"
proof -
  have "mg_path sample_manager = ''/etc/relay.yaml''" "base_of sample_yaml sample_manager = ''{}''"
    by (simp_all add: sample_manager_def base_of_def sample_yaml_def)
  with configuration_file_replaced_whole [OF sample_persist sample_manager_ok(2)] show ?thesis by simp
qed

text \<open>
  C24. Every configuration the manager reaches, by any interleaving of prepared, committed and
  removed updates with any failures of the file system, is valid and is the lower layers under
  the current overrides, whose fields are known and distinct.
\<close>

theorem reachable_configuration_valid:
  assumes "(config_step y)\<^sup>*\<^sup>* s s'" and "manager_ok y (st_manager s)" and "st_prepared s = []"
  shows "Validate (mg_effective (st_manager s')) = []
    \<and> applyOverrides y (mg_overrides (st_manager s')) (mg_lower (st_manager s)) = Inr (mg_effective (st_manager s'))
    \<and> overrides_ok (mg_overrides (st_manager s'))"
proof -
  have "config_inv y s" using assms(2,3) by (simp add: config_inv_def)
  from config_reach_inv [OF assms(1) this] show ?thesis
    using effective_of_valid by (auto simp: config_inv_def manager_ok_def)
qed

text \<open>Preparing an update that enables CORS, and committing it.\<close>

definition sample_state :: "string config_state" where
  "sample_state = \<lparr>st_manager = sample_manager, st_files = \<lambda>_. None, st_prepared = []\<rparr>"

lemma sample_prepare: "Prepare sample_yaml sample_manager
    \<lparr>up_expected = 1, up_values = sample_overrides, up_removals = []\<rparr> = Inr sample_prepared"
  using sample_effective(2) cors_known
  by (simp add: Prepare_def sample_manager_def sample_prepared_def sample_overrides_def)
    (simp add: sample_yaml_def)

lemma sample_reach: "(config_step sample_yaml)\<^sup>*\<^sup>* sample_state
    \<lparr>st_manager = sample_committed, st_files = sample_files, st_prepared = [sample_prepared]\<rparr>"
proof -
  let ?s = "sample_state\<lparr>st_prepared := sample_prepared # st_prepared sample_state\<rparr>"
  have "config_step sample_yaml sample_state ?s"
    by (rule step_prepare [of _ _ "\<lparr>up_expected = 1, up_values = sample_overrides, up_removals = []\<rparr>"])
      (simp add: sample_state_def sample_prepare)
  moreover have "config_step sample_yaml ?s (?s\<lparr>st_manager := sample_committed, st_files := sample_files\<rparr>)"
    by (rule step_commit [of sample_prepared _ sample_io _ _ _ "Inr (sample_lower\<lparr>cf_cors_enabled := True\<rparr>)"])
      (use sample_commit sample_manager_ok(2) in \<open>simp_all add: sample_state_def\<close>)
  ultimately show ?thesis by (simp add: sample_state_def)
qed

theorem reachable_configuration_valid_witness:
  "Validate (mg_effective sample_committed) = []
    \<and> applyOverrides sample_yaml (mg_overrides sample_committed) sample_lower = Inr (mg_effective sample_committed)
    \<and> overrides_ok (mg_overrides sample_committed)"
proof -
  have "mg_lower (st_manager sample_state) = sample_lower" "st_manager sample_state = sample_manager" "st_prepared sample_state = []"
    by (simp_all add: sample_state_def sample_manager_def)
  with reachable_configuration_valid [OF sample_reach] sample_manager_ok(1) show ?thesis by simp
qed

text \<open>
  No update is lost: of two updates prepared at the same revision, once one is committed the
  other is refused, and the refusal changes neither the manager nor a file.
\<close>

theorem stale_update_refused:
  assumes "Commit y io p m fs = (m1, fs1, Inr cfg)" and "pr_expected q = pr_expected p"
  shows "Commit y io' q m1 fs1 = (m1, fs1, Inl RevisionConflict)"
proof -
  have "pr_expected p = mg_revision m" "m1 = installed m (pr_overrides p) cfg" using Commit_accepted [OF assms(1)] by simp_all
  moreover have "mg_revision m \<noteq> mg_revision m + 1" by simp
  ultimately show ?thesis using assms(2) by (simp add: Commit_def installed_def)
qed

theorem stale_update_refused_witness:
  "Commit sample_yaml sample_io sample_prepared sample_committed sample_files
    = (sample_committed, sample_files, Inl RevisionConflict)"
  by (rule stale_update_refused [OF sample_commit refl])

text \<open>
  An accepted update: the overrides are the old ones without the removals and with the values
  given (a value wins over a removal), the configuration installed and returned is valid, the
  revision is the expected one plus one, and a refused update leaves manager and file as they are.
\<close>

theorem update_installs_or_refuses:
  assumes "manager_ok y m" and "io_create io \<noteq> Some (mg_path m)" and "distinct (map fst values)"
    and "UpdateWithRemovals y io expected values removals m fs = (m', fs', r)"
  shows "case r of Inl e \<Rightarrow> m' = m \<and> fs' (mg_path m) = fs (mg_path m)
    | Inr cfg \<Rightarrow> mg_effective m' = cfg \<and> Validate cfg = [] \<and> expected = mg_revision m \<and> mg_revision m' = expected + 1
        \<and> map_of (mg_overrides m') field = (case map_of values field of Some raw \<Rightarrow> yl_json y raw
            | None \<Rightarrow> if field \<in> set removals then None else map_of (mg_overrides m) field)"
proof (cases "Prepare y m \<lparr>up_expected = expected, up_values = values, up_removals = removals\<rparr>")
  case (Inl e)
  with assms(4) show ?thesis by (auto simp: UpdateWithRemovals_def)
next
  case (Inr p)
  then have c: "Commit y io p m fs = (m', fs', r)" using assms(4) by (simp add: UpdateWithRemovals_def)
  have ok: "temp_beside io m \<and> prepared_ok y (mg_lower m) p" using Prepare_ok [OF Inr assms(1)] assms(2) by simp
  obtain os where os: "remove_fields removals (mg_overrides m) = Inr os" "set_fields y values os = Inr (pr_overrides p)"
    and e: "expected = mg_revision m"
    using Prepare_success [OF Inr] by auto
  show ?thesis
  proof (cases r)
    case (Inl e)
    with commit.outcome [OF ok assms(1) c] show ?thesis by simp
  next
    case (Inr cfg)
    with c have "m' = installed m (pr_overrides p) cfg" using Commit_accepted by blast
    then show ?thesis
      using commit.outcome [OF ok assms(1) c] Inr e set_fields_lookup [OF os(2) assms(3), of field]
        remove_fields_lookup [OF os(1), of field]
      by (auto simp: installed_def split: option.split)
  qed
qed

theorem update_installs_or_refuses_witness:
  "mg_effective sample_committed = sample_lower\<lparr>cf_cors_enabled := True\<rparr> \<and> mg_revision sample_committed = 2
    \<and> map_of (mg_overrides sample_committed) ''cors.enabled'' = Some ''true''"
proof -
  have "UpdateWithRemovals sample_yaml sample_io 1 sample_overrides [] sample_manager (\<lambda>_. None)
      = (sample_committed, sample_files, Inr (sample_lower\<lparr>cf_cors_enabled := True\<rparr>))"
    by (simp add: UpdateWithRemovals_def sample_prepare sample_commit)
  from update_installs_or_refuses [OF sample_manager_ok(1,2) _ this, of "''cors.enabled''"]
  show ?thesis by (simp add: sample_overrides_def) (simp add: sample_yaml_def)
qed



text \<open>The writer does not know the reader's limit: a larger document is stored and then refused.\<close>

lemma oversized_document_unreadable:
  assumes "persist y io m os fs = (fs', None)" and "io_create io \<noteq> Some (mg_path m)"
    and "yl_marshal y (base_of y m) os = Some data" and "length data > 1048576"
  shows "readDocument y True fs' (mg_path m) explicit = Inl (FileFailed ''configuration exceeds 1 MiB'')"
proof -
  obtain data' where "yl_marshal y (base_of y m) os = Some data'" "fs' = fs(mg_path m \<mapsto> data')"
    using assms(1,2) by (rule persist_ok)
  with assms(3,4) show ?thesis by (simp add: readDocument_def)
qed

text \<open>
  The view shows that a password is set and nothing of it: the configuration in it has no
  credentials, and two managers that differ only in the password have the same view.
\<close>

theorem view_hides_password:
  assumes "au_password (cf_auth (mg_effective m)) \<noteq> []" and "password \<noteq> []"
  shows "View (m\<lparr>mg_effective := (mg_effective m)\<lparr>cf_auth := (cf_auth (mg_effective m))\<lparr>au_password := password\<rparr>\<rparr>\<rparr>) = View m
    \<and> au_password (cf_auth (vw_effective (View m))) = [] \<and> au_username (cf_auth (vw_effective (View m))) = []"
  using assms by (simp add: View_def Let_def)

theorem view_hides_password_witness:
  "View (sample_manager\<lparr>mg_effective := sample_lower\<lparr>cf_auth := \<lparr>au_username = ''ann'', au_password = ''abc'', au_session_ttl = 1\<rparr>\<rparr>\<rparr>)
    = View (sample_manager\<lparr>mg_effective := sample_lower\<lparr>cf_auth := \<lparr>au_username = ''ann'', au_password = ''xyz'', au_session_ttl = 1\<rparr>\<rparr>\<rparr>)"
  using view_hides_password [of "sample_manager\<lparr>mg_effective := sample_lower\<lparr>cf_auth :=
    \<lparr>au_username = ''ann'', au_password = ''xyz'', au_session_ttl = 1\<rparr>\<rparr>\<rparr>" "''abc''"] by simp

text \<open>Where the view says a field comes from: the interface if it is overridden.\<close>

lemma view_origins:
  "map_of (vw_origins (View m)) field = (if field \<in> fst ` set (mg_overrides m) then Some ''ui'' else map_of (mg_origins m) field)"
proof -
  have "map_of (fold (\<lambda>f origins. AList.update f ''ui'' origins) fields origins) field
      = (if field \<in> set fields then Some ''ui'' else map_of origins field)" for fields and origins :: "(string \<times> string) list"
    by (induction fields arbitrary: origins) (auto simp: update_conv')
  then show ?thesis by (simp add: View_def Let_def sortedKeys_def)
qed

lemma field_tables_agree: "set (map fst fieldSources) = set knownOverrideFields"
  unfolding fieldSources_def knownOverrideFields_def by (simp add: insert_commute)

end
