(* ===== verification/Relay_Config.thy ===== *)
theory Relay_Config
  imports Relay_Proxy Config_Updates
begin

text \<open>
  Where the configuration meets the components it configures: the checks of \<open>Validate\<close> are the
  ones the proxy mode repeats on every request, so a configuration that was accepted cannot make
  \<open>composeURL\<close> fail.
\<close>

lemma upper_hex_digit: "d < 16 \<Longrightarrow> is_hex_digit (upper_hex d) \<and> hex_value (upper_hex d) = d"
proof -
  have "list_all (\<lambda>d. is_hex_digit (upper_hex d) \<and> hex_value (upper_hex d) = d) [0..<16]" by code_simp
  then show "d < 16 \<Longrightarrow> is_hex_digit (upper_hex d) \<and> hex_value (upper_hex d) = d" by (simp add: list_all_iff)
qed

lemma percent_escaped: "escape_in_path CHR ''%''"
  by code_simp

lemma path_unescape_escape: "path_unescape (escape_with escape_in_path s) = Some s"
proof (induction s)
  case Nil
  show ?case by (simp add: path_unescape_def escape_with_def)
next
  case (Cons c s)
  show ?case
  proof (cases "escape_in_path c")
    case True
    have d: "code_of c div 16 < 16" "code_of c mod 16 < 16" using code_of_less [of c] by (simp_all add: less_mult_imp_div_less)
    have "16 * hex_value (upper_hex (code_of c div 16)) + hex_value (upper_hex (code_of c mod 16)) = code_of c"
      using upper_hex_digit [OF d(1)] upper_hex_digit [OF d(2)] by simp
    moreover have "char_of (code_of c) = c" by (simp add: code_of_def)
    ultimately show ?thesis
      using True Cons upper_hex_digit [OF d(1)] upper_hex_digit [OF d(2)] by (simp add: path_unescape_def escape_with_def)
  next
    case False
    then have "c \<noteq> CHR ''%''" using percent_escaped by auto
    with False Cons show ?thesis by (simp add: path_unescape_def escape_with_def)
  qed
qed

lemma EscapedPath_unescapes: "path_unescape (EscapedPath u) \<noteq> None"
proof -
  have "path_unescape ''*'' \<noteq> None" by code_simp
  then show ?thesis using path_unescape_escape [of "url_path u"] by (simp add: EscapedPath_def)
qed

text \<open>
  A validated proxy configuration composes every upstream URL: for each request with a valid
  escaped path there is a URL, on the host of the configured upstream and with the query as it
  came, so the error branches of \<open>composeURL\<close> are dead behind \<open>Validate\<close>.
\<close>

theorem validated_upstream_composes:
  assumes "Validate cfg = []" and "cf_mode cfg = ModeProxy"
    and "rq_path incoming = [] \<or> (\<exists>path. rq_path incoming = ''/'' @ path)" and "path_unescape (rq_path incoming) \<noteq> None"
  shows "\<exists>u target. url_parse (up_url (cf_upstream cfg)) = Some target
    \<and> composeURL (up_url (cf_upstream cfg)) (rq_path incoming) (rq_raw_query incoming) = Inr u
    \<and> url_host u = url_host target \<and> url_raw_query u = rq_raw_query incoming"
proof -
  obtain t where t: "url_parse (up_url (cf_upstream cfg)) = Some t"
    "equal_fold (url_scheme t) ''http'' \<or> equal_fold (url_scheme t) ''https''" "url_host t \<noteq> []"
    "\<not> url_user t" "url_fragment t = []" "url_raw_query t = []" "\<not> url_force_query t"
    using assms(1,2) by (rule Validate_upstream)
  obtain path where path: "(if rq_path incoming = [] then ''/'' else rq_path incoming) = ''/'' @ path"
    using assms(3) by auto
  have p: "path_unescape path \<noteq> None"
  proof (cases "rq_path incoming")
    case Nil
    then have "path = []" using path by simp
    then show ?thesis by (simp add: path_unescape_def)
  next
    case (Cons c cs)
    then show ?thesis using path assms(4) by (auto simp: path_unescape_def)
  qed
  have "path_unescape (joinEscapedPath (EscapedPath t) (''/'' @ path)) \<noteq> None"
    by (rule path_unescape_join [OF EscapedPath_unescapes p])
  then show ?thesis using t path by (auto simp: composeURL_def)
qed

theorem validated_upstream_composes_witness:
  "\<exists>u target. url_parse ''http://127.0.0.1:9000/api'' = Some target
    \<and> composeURL ''http://127.0.0.1:9000/api'' ''/a%2Fb'' ''x=1'' = Inr u
    \<and> url_host u = url_host target \<and> url_raw_query u = ''x=1''"
proof -
  have "path_unescape ''/a%2Fb'' \<noteq> None" by code_simp
  with validated_upstream_composes [OF Validate_sample, of sample_request] show ?thesis
    by (simp add: sample_request_def sample_proxy_config_def)
qed

end
