(* ===== verification/Plane_Interface.thy ===== *)
theory Plane_Interface
  imports Config_Types
begin

text \<open>
  The contract of \<open>ManagementReloadPlan\<close>, \<open>TrafficReloadPlan\<close> and \<open>UDPReloadPlan\<close> (\<open>internal/httpapi/handler.go\<close>)
  with the planes that provide them: a change is prepared, and the plan is activated or aborted. The update handler
  relies on it for its promise that a refused change leaves every endpoint as it was.
\<close>

text \<open>
  What the handler does with one plane: preparing where the settings of that plane changed (\<open>None\<close> when that fails,
  \<open>Some None\<close> when there is nothing to do), the deferred abort, and the activation.
\<close>

definition begin_reload :: "bool \<Rightarrow> ('p \<Rightarrow> 'p \<times> 'l option) \<Rightarrow> 'p \<Rightarrow> 'p \<times> 'l option option" where
  "begin_reload changed prepare p =
     (if changed then (case prepare p of (p', None) \<Rightarrow> (p', None) | (p', Some l) \<Rightarrow> (p', Some (Some l)))
      else (p, Some None))"

definition settle :: "('l \<Rightarrow> 'p \<Rightarrow> 'l \<times> 'p) \<Rightarrow> 'l option \<Rightarrow> 'p \<Rightarrow> 'p" where
  "settle finish plan p = (case plan of None \<Rightarrow> p | Some l \<Rightarrow> snd (finish l p))"

text \<open>
  \<open>settled\<close>: started, no transition under way, nothing leaked. \<open>follows\<close>: running with the settings of a
  configuration. \<open>serving\<close>: the state as far as anything depends on it.
\<close>

locale reload_plane =
  fixes settled :: "'p \<Rightarrow> bool"
    and follows :: "'p \<Rightarrow> config \<Rightarrow> bool"
    and serving :: "'p \<Rightarrow> 's"
    and changed :: "config \<Rightarrow> config \<Rightarrow> bool"
    and prepare :: "'e \<Rightarrow> config \<Rightarrow> 'p \<Rightarrow> 'p \<times> 'l option"
    and activate :: "config \<Rightarrow> 'l \<Rightarrow> 'p \<Rightarrow> 'l \<times> 'p"
    and abort :: "'l \<Rightarrow> 'p \<Rightarrow> 'l \<times> 'p"
  assumes prepare_refused: "settled p \<Longrightarrow> prepare e cfg p = (p', None) \<Longrightarrow> p' = p"
    and abort_restores: "settled p \<Longrightarrow> prepare e cfg p = (p', Some l) \<Longrightarrow>
      settled (snd (abort l p')) \<and> serving (snd (abort l p')) = serving p"
    and activate_follows: "settled p \<Longrightarrow> prepare e cfg p = (p', Some l) \<Longrightarrow>
      settled (snd (activate cfg l p')) \<and> follows (snd (activate cfg l p')) cfg"
    and completed: "abort (fst (activate cfg l p)) q = (fst (activate cfg l p), q)"
      "abort (fst (abort l p)) q = (fst (abort l p), q)"
    and unchanged: "follows p cur \<Longrightarrow> \<not> changed cur cfg \<Longrightarrow> follows p cfg"
    and serving_follows: "serving p = serving q \<Longrightarrow> follows p cfg \<longleftrightarrow> follows q cfg"
begin

lemma begin_refused:
  "settled p \<Longrightarrow> begin_reload (changed cur cfg) (prepare e cfg) p = (p', None) \<Longrightarrow> p' = p"
  by (auto simp: begin_reload_def prepare_refused split: if_splits prod.splits option.splits)

lemma begin_abort:
  "settled p \<Longrightarrow> begin_reload (changed cur cfg) (prepare e cfg) p = (p', Some plan) \<Longrightarrow>
    settled (settle abort plan p') \<and> serving (settle abort plan p') = serving p"
  using abort_restores by (fastforce simp: begin_reload_def settle_def split: if_splits prod.splits option.splits)

lemma begin_activate:
  "settled p \<Longrightarrow> follows p cur \<Longrightarrow> begin_reload (changed cur cfg) (prepare e cfg) p = (p', Some plan) \<Longrightarrow>
    settled (settle (activate cfg) plan p') \<and> follows (settle (activate cfg) plan p') cfg"
  using activate_follows unchanged by (fastforce simp: begin_reload_def settle_def split: if_splits prod.splits option.splits)

lemma abort_keeps_following:
  assumes "settled p" and "follows p cur" and "begin_reload (changed cur cfg) (prepare e cfg) p = (p', Some plan)"
  shows "follows (settle abort plan p') cur"
  using begin_abort [OF assms(1,3)] assms(2) serving_follows by blast

text \<open>The deferred abort after an activation does nothing.\<close>

lemma abort_after_activate: "snd (abort (fst (activate cfg l p)) (snd (activate cfg l p))) = snd (activate cfg l p)"
  by (simp add: completed)

end

end
