(* ===== verification/Login_Sessions.thy ===== *)
theory Login_Sessions
  imports Config_Types Go_Net Go_Time "HOL-Library.AList"
begin

text \<open>
  \<open>internal/httpapi/auth.go\<close>: the login with its rate limit and its capacity limits, the session
  table, logout. The two Go maps are association lists. The clock is an argument of the operations
  that read it, the random source gives the 32 bytes of a token or fails, and \<open>valid\<close> and \<open>logout\<close>
  take the value of the session cookie of the request, if it has one. Every operation runs under
  the mutex, so a run is a list of operations.
\<close>

record authenticator =
  at_username :: string
  at_password :: string
  at_ttl :: int
  at_sessions :: "(string \<times> gotime) list"
  at_attempts :: "(string \<times> gotime list) list"
  at_max_sessions :: nat
  at_max_attempts :: nat

definition newAuthenticator :: "authentication \<Rightarrow> authenticator" where
  "newAuthenticator settings = \<lparr>at_username = au_username settings, at_password = au_password settings,
     at_ttl = au_session_ttl settings, at_sessions = [], at_attempts = [], at_max_sessions = 1024, at_max_attempts = 1024\<rparr>"

definition required :: "authenticator \<Rightarrow> bool" where
  "required a \<longleftrightarrow> at_username a \<noteq> []"

definition clientAddress :: "string \<Rightarrow> string" where
  "clientAddress remoteAddress = (case split_host_port remoteAddress of Some (host, port) \<Rightarrow> host | None \<Rightarrow> remoteAddress)"

definition minute_ns :: int where
  "minute_ns = 60 * second_ns"

text \<open>\<open>recentAttempts\<close> filters in place; its callers store the result or delete the entry.\<close>

definition recent_of :: "gotime \<Rightarrow> gotime list \<Rightarrow> gotime list" where
  "recent_of now values = filter (\<lambda>value. time_after value (time_add now (- minute_ns))) values"

definition attempts_of :: "authenticator \<Rightarrow> string \<Rightarrow> gotime list" where
  "attempts_of a key = (case map_of (at_attempts a) key of None \<Rightarrow> [] | Some values \<Rightarrow> values)"

definition recentAttempts :: "authenticator \<Rightarrow> string \<Rightarrow> gotime \<Rightarrow> gotime list" where
  "recentAttempts a key now = recent_of now (attempts_of a key)"

definition removeExpired :: "authenticator \<Rightarrow> gotime \<Rightarrow> authenticator" where
  "removeExpired a now = a\<lparr>at_sessions := filter (\<lambda>(token, expires). time_after expires now) (at_sessions a)\<rparr>"

definition pruneAttempts :: "authenticator \<Rightarrow> gotime \<Rightarrow> authenticator" where
  "pruneAttempts a now = a\<lparr>at_attempts :=
     filter (\<lambda>(key, values). values \<noteq> []) (map (\<lambda>(key, values). (key, recent_of now values)) (at_attempts a))\<rparr>"

text \<open>\<open>base64.RawURLEncoding\<close>.\<close>

definition base64_digit :: "nat \<Rightarrow> char" where
  "base64_digit n = ''ABCDEFGHIJKLMNOPQRSTUVWXYZabcdefghijklmnopqrstuvwxyz0123456789-_'' ! n"

fun base64_raw :: "nat list \<Rightarrow> string" where
  "base64_raw [] = []"
| "base64_raw [a] = [base64_digit (a div 4), base64_digit (a mod 4 * 16)]"
| "base64_raw [a, b] = [base64_digit (a div 4), base64_digit (a mod 4 * 16 + b div 16), base64_digit (b mod 16 * 4)]"
| "base64_raw (a # b # c # rest) = [base64_digit (a div 4), base64_digit (a mod 4 * 16 + b div 16),
     base64_digit (b mod 16 * 4 + c div 64), base64_digit (c mod 64)] @ base64_raw rest"

datatype login_result = LoginFailed string | LoggedIn string gotime

text \<open>The steps of a login: room in the attempt table, the recorded attempt, room for a session.\<close>

definition attempts_full :: "authenticator \<Rightarrow> string \<Rightarrow> bool" where
  "attempts_full a key \<longleftrightarrow> map_of (at_attempts a) key = None \<and> length (at_attempts a) \<ge> at_max_attempts a"

definition attempt_room :: "authenticator \<Rightarrow> string \<Rightarrow> gotime \<Rightarrow> authenticator" where
  "attempt_room a key now = (if attempts_full a key then pruneAttempts a now else a)"

definition set_attempts :: "authenticator \<Rightarrow> string \<Rightarrow> gotime list \<Rightarrow> authenticator" where
  "set_attempts a key values = a\<lparr>at_attempts := AList.update key values (at_attempts a)\<rparr>"

definition session_room :: "authenticator \<Rightarrow> gotime \<Rightarrow> authenticator" where
  "session_room a now = (if length (at_sessions a) \<ge> at_max_sessions a then removeExpired a now else a)"

definition open_session :: "authenticator \<Rightarrow> string \<Rightarrow> gotime \<Rightarrow> authenticator" where
  "open_session a token expires = a\<lparr>at_sessions := AList.update token expires (at_sessions a)\<rparr>"

definition login :: "authenticator \<Rightarrow> string \<Rightarrow> string \<Rightarrow> string \<Rightarrow> gotime \<Rightarrow> 8 word list option \<Rightarrow> authenticator \<times> login_result" where
  "login a remoteAddress username password now random =
     (if \<not> required a then (a, LoginFailed ''authentication_disabled'')
      else
        let key = clientAddress remoteAddress; a1 = attempt_room a key now
        in if attempts_full a1 key then (a1, LoginFailed ''login_rate_limited'')
           else
             let recent = recentAttempts a1 key now
             in if length recent \<ge> 5 then (set_attempts a1 key recent, LoginFailed ''login_rate_limited'')
                else
                  let a2 = set_attempts a1 key (recent @ [now])
                  in if username \<noteq> at_username a2 \<or> password \<noteq> at_password a2
                     then (a2, LoginFailed ''invalid_credentials'')
                     else
                       let a3 = session_room a2 now
                       in if length (at_sessions a3) \<ge> at_max_sessions a3
                          then (a3, LoginFailed ''session_capacity_exhausted'')
                          else (case random of
                              None \<Rightarrow> (a3, LoginFailed ''session_creation_failed'')
                            | Some bytes \<Rightarrow>
                                let token = base64_raw (map unat bytes); expires = time_add now (at_ttl a3)
                                in (open_session a3 token expires, LoggedIn token expires)))"

definition drop_session :: "string \<Rightarrow> authenticator \<Rightarrow> authenticator" where
  "drop_session token a = a\<lparr>at_sessions := filter (\<lambda>(t, expires). t \<noteq> token) (at_sessions a)\<rparr>"

definition valid :: "authenticator \<Rightarrow> string option \<Rightarrow> gotime \<Rightarrow> authenticator \<times> bool" where
  "valid a cookie now =
     (if \<not> required a then (a, True)
      else case cookie of
          None \<Rightarrow> (a, False)
        | Some token \<Rightarrow>
            (case map_of (at_sessions a) token of
               None \<Rightarrow> (drop_session token a, False)
             | Some expires \<Rightarrow> if \<not> time_after expires now then (drop_session token a, False) else (a, True)))"

definition logout :: "authenticator \<Rightarrow> string option \<Rightarrow> authenticator" where
  "logout a cookie = (case cookie of None \<Rightarrow> a | Some token \<Rightarrow> drop_session token a)"

section \<open>Runs\<close>

datatype auth_op =
    OpLogin (op_remote: string) (op_username: string) (op_password: string) (op_now: gotime) (op_random: "8 word list option")
  | OpValid "string option" (op_now: gotime)
  | OpLogout "string option"

fun auth_apply :: "authenticator \<Rightarrow> auth_op \<Rightarrow> authenticator" where
  "auth_apply a (OpLogin remote username password now random) = fst (login a remote username password now random)"
| "auth_apply a (OpValid cookie now) = fst (valid a cookie now)"
| "auth_apply a (OpLogout cookie) = logout a cookie"

definition auth_run :: "authenticator \<Rightarrow> auth_op list \<Rightarrow> authenticator" where
  "auth_run a ops = foldl auth_apply a ops"

lemma auth_run_simps [simp]: "auth_run a [] = a" "auth_run a (ops @ [x]) = auth_apply (auth_run a ops) x"
  by (simp_all add: auth_run_def)

section \<open>What an operation changes\<close>

text \<open>The parts of the state that the steps of a login leave alone.\<close>

lemma step_keeps [simp]:
  "at_username (attempt_room a key now) = at_username a" "at_password (attempt_room a key now) = at_password a"
  "at_ttl (attempt_room a key now) = at_ttl a" "at_sessions (attempt_room a key now) = at_sessions a"
  "at_max_sessions (attempt_room a key now) = at_max_sessions a" "at_max_attempts (attempt_room a key now) = at_max_attempts a"
  "at_username (set_attempts a key vs) = at_username a" "at_password (set_attempts a key vs) = at_password a"
  "at_ttl (set_attempts a key vs) = at_ttl a" "at_sessions (set_attempts a key vs) = at_sessions a"
  "at_max_sessions (set_attempts a key vs) = at_max_sessions a" "at_max_attempts (set_attempts a key vs) = at_max_attempts a"
  "at_username (session_room a now) = at_username a" "at_password (session_room a now) = at_password a"
  "at_ttl (session_room a now) = at_ttl a" "at_attempts (session_room a now) = at_attempts a"
  "at_max_sessions (session_room a now) = at_max_sessions a" "at_max_attempts (session_room a now) = at_max_attempts a"
  "at_username (open_session a token e) = at_username a" "at_password (open_session a token e) = at_password a"
  "at_ttl (open_session a token e) = at_ttl a" "at_attempts (open_session a token e) = at_attempts a"
  "at_max_sessions (open_session a token e) = at_max_sessions a" "at_max_attempts (open_session a token e) = at_max_attempts a"
  "at_username (drop_session token a) = at_username a" "at_password (drop_session token a) = at_password a"
  "at_ttl (drop_session token a) = at_ttl a" "at_attempts (drop_session token a) = at_attempts a"
  "at_max_sessions (drop_session token a) = at_max_sessions a" "at_max_attempts (drop_session token a) = at_max_attempts a"
  by (simp_all add: attempt_room_def set_attempts_def session_room_def open_session_def drop_session_def
      pruneAttempts_def removeExpired_def)

text \<open>What a login does, by its result.\<close>

lemma login_cases:
  obtains (disabled) "\<not> required a" and "login a remote username password now random = (a, LoginFailed ''authentication_disabled'')"
  | (full) "login a remote username password now random
        = (attempt_room a (clientAddress remote) now, LoginFailed ''login_rate_limited'')"
  | (limited) "\<not> attempts_full (attempt_room a (clientAddress remote) now) (clientAddress remote)"
      and "5 \<le> length (recentAttempts (attempt_room a (clientAddress remote) now) (clientAddress remote) now)"
      and "login a remote username password now random =
        (set_attempts (attempt_room a (clientAddress remote) now) (clientAddress remote)
           (recentAttempts (attempt_room a (clientAddress remote) now) (clientAddress remote) now), LoginFailed ''login_rate_limited'')"
  | (counted) a2 a' r where "required a"
      and "\<not> attempts_full (attempt_room a (clientAddress remote) now) (clientAddress remote)"
      and "length (recentAttempts (attempt_room a (clientAddress remote) now) (clientAddress remote) now) < 5"
      and "a2 = set_attempts (attempt_room a (clientAddress remote) now) (clientAddress remote)
           (recentAttempts (attempt_room a (clientAddress remote) now) (clientAddress remote) now @ [now])"
      and "login a remote username password now random = (a', r)" and "r \<noteq> LoginFailed ''login_rate_limited''"
      and "a' = a2 \<and> r = LoginFailed ''invalid_credentials'' \<or> (\<exists>code. a' = session_room a2 now \<and> r = LoginFailed code)
        \<or> (\<exists>token. username = at_username a \<and> password = at_password a
             \<and> length (at_sessions (session_room a2 now)) < at_max_sessions a
             \<and> a' = open_session (session_room a2 now) token (time_add now (at_ttl a)) \<and> r = LoggedIn token (time_add now (at_ttl a)))"
proof -
  let ?key = "clientAddress remote"
  let ?a1 = "attempt_room a ?key now"
  let ?recent = "recentAttempts ?a1 ?key now"
  let ?a2 = "set_attempts ?a1 ?key (?recent @ [now])"
  consider "\<not> required a" | "required a" "attempts_full ?a1 ?key"
    | "required a" "\<not> attempts_full ?a1 ?key" "5 \<le> length ?recent"
    | "required a" "\<not> attempts_full ?a1 ?key" "length ?recent < 5" by linarith
  then show thesis
  proof cases
    case 1
    then show thesis by (intro disabled) (simp_all add: login_def)
  next
    case 2
    then show thesis by (intro full) (simp add: login_def Let_def)
  next
    case 3
    then show thesis by (intro limited) (simp_all add: login_def Let_def)
  next
    case 4
    have l: "login a remote username password now random =
      (if username \<noteq> at_username a \<or> password \<noteq> at_password a then (?a2, LoginFailed ''invalid_credentials'')
       else if length (at_sessions (session_room ?a2 now)) \<ge> at_max_sessions a
       then (session_room ?a2 now, LoginFailed ''session_capacity_exhausted'')
       else (case random of None \<Rightarrow> (session_room ?a2 now, LoginFailed ''session_creation_failed'')
         | Some bytes \<Rightarrow> (open_session (session_room ?a2 now) (base64_raw (map unat bytes)) (time_add now (at_ttl a)),
             LoggedIn (base64_raw (map unat bytes)) (time_add now (at_ttl a)))))"
      using 4 by (simp add: login_def Let_def split: option.split)
    obtain a' r where r: "login a remote username password now random = (a', r)" by fastforce
    show thesis
      by (rule counted [OF 4 refl r])
        (use r l in \<open>auto simp: not_le split: if_splits option.splits\<close>)
  qed
qed

lemma credentials_kept:
  "at_username (auth_apply a x) = at_username a" "at_password (auth_apply a x) = at_password a"
  "at_ttl (auth_apply a x) = at_ttl a" "at_max_sessions (auth_apply a x) = at_max_sessions a"
  "at_max_attempts (auth_apply a x) = at_max_attempts a"
  by (cases x; simp add: login_def valid_def logout_def Let_def split: option.splits)+

lemma run_credentials:
  "at_username (auth_run a ops) = at_username a" "at_password (auth_run a ops) = at_password a"
  "at_max_sessions (auth_run a ops) = at_max_sessions a" "at_max_attempts (auth_run a ops) = at_max_attempts a"
  by (induction ops rule: rev_induct) (simp_all add: credentials_kept)

lemma map_of_filter_own: "map_of (filter (\<lambda>(k, v). P k) xs) k = (if P k then map_of xs k else None)"
  by (induction xs) auto

lemma drop_session_lookup: "map_of (at_sessions (drop_session token a)) t = (if t = token then None else map_of (at_sessions a) t)"
  by (simp add: drop_session_def map_of_filter_own)

lemma session_room_lookup:
  "distinct (map fst (at_sessions a)) \<Longrightarrow> map_of (at_sessions (session_room a now)) t = Some e \<Longrightarrow> map_of (at_sessions a) t = Some e"
  by (auto simp: session_room_def removeExpired_def intro!: map_of_is_SomeI dest!: map_of_SomeD split: if_splits)

section \<open>The tables stay bounded\<close>

definition auth_inv :: "authenticator \<Rightarrow> bool" where
  "auth_inv a \<longleftrightarrow> distinct (map fst (at_sessions a)) \<and> distinct (map fst (at_attempts a))
     \<and> length (at_sessions a) \<le> at_max_sessions a \<and> length (at_attempts a) \<le> at_max_attempts a
     \<and> list_all (\<lambda>x. length (snd x) \<le> 5) (at_attempts a)"

lemma length_update: "length (AList.update k v xs) = (if k \<in> fst ` set xs then length xs else Suc (length xs))"
  by (induction xs) auto

lemma list_all_update_snd: "list_all (\<lambda>x. P (snd x)) xs \<Longrightarrow> P v \<Longrightarrow> list_all (\<lambda>x. P (snd x)) (AList.update k v xs)"
  by (induction xs) auto

lemma auth_inv_new: "auth_inv (newAuthenticator settings)"
  by (simp add: auth_inv_def newAuthenticator_def)

lemma recent_of_length: "length (recent_of now values) \<le> length values"
  by (simp add: recent_of_def)

lemma pruned_keys:
  assumes "distinct (map fst xs)"
  shows "distinct (map fst (filter (\<lambda>(key, values). values \<noteq> []) (map (\<lambda>(key, values). (key, recent_of now values)) xs)))"
proof -
  have "map fst (map (\<lambda>(key, values). (key, recent_of now values)) xs) = map fst xs" by (induction xs) auto
  with assms show ?thesis by (metis distinct_map_filter)
qed

lemma pruned_values:
  "list_all (\<lambda>x. length (snd x) \<le> n) xs \<Longrightarrow>
    list_all (\<lambda>x. length (snd x) \<le> n) (filter (\<lambda>(key, values). values \<noteq> []) (map (\<lambda>(key, values). (key, recent_of now values)) xs))"
  by (induction xs) (auto intro: le_trans [OF recent_of_length])

lemma auth_inv_room: "auth_inv a \<Longrightarrow> auth_inv (attempt_room a key now)"
  by (auto simp: auth_inv_def attempt_room_def pruneAttempts_def pruned_keys pruned_values
      simp del: filter_map intro: le_trans [OF length_filter_le])

lemma auth_inv_drop: "auth_inv a \<Longrightarrow> auth_inv (drop_session token a)"
  by (auto simp: auth_inv_def drop_session_def distinct_map_filter intro: le_trans [OF length_filter_le])

lemma auth_inv_session_room: "auth_inv a \<Longrightarrow> auth_inv (session_room a now)"
  by (auto simp: auth_inv_def session_room_def removeExpired_def distinct_map_filter intro: le_trans [OF length_filter_le])

text \<open>Recording an attempt and a session, after the capacity checks.\<close>

lemma auth_inv_attempt:
  assumes "auth_inv a" and "\<not> attempts_full a key" and "length values \<le> 5"
  shows "auth_inv (set_attempts a key values)"
  using assms list_all_update_snd [of "\<lambda>v. length v \<le> 5" "at_attempts a" "values" key]
  by (auto simp: auth_inv_def set_attempts_def attempts_full_def distinct_update length_update map_of_eq_None_iff)

lemma auth_inv_session:
  assumes "auth_inv a" and "length (at_sessions a) < at_max_sessions a"
  shows "auth_inv (open_session a token expires)"
  using assms by (auto simp: auth_inv_def open_session_def distinct_update length_update)

lemma recentAttempts_short:
  assumes "auth_inv a"
  shows "length (recentAttempts a key now) \<le> 5"
proof -
  have "length (attempts_of a key) \<le> 5"
    using assms by (auto simp: attempts_of_def auth_inv_def list_all_iff dest: map_of_SomeD split: option.split)
  then show ?thesis using recent_of_length [of now "attempts_of a key"] by (simp add: recentAttempts_def)
qed

lemma auth_inv_login:
  assumes "auth_inv a"
  shows "auth_inv (fst (login a remote username password now random))"
proof (cases rule: login_cases [of a remote username password now random])
  case disabled
  then show ?thesis using assms by simp
next
  case full
  then show ?thesis using assms by (simp add: auth_inv_room)
next
  case limited
  then show ?thesis
    using auth_inv_attempt [OF auth_inv_room [OF assms] limited(1) recentAttempts_short [OF auth_inv_room [OF assms]]] by simp
next
  case (counted a2 a' r)
  have "auth_inv a2" unfolding counted(4)
    by (rule auth_inv_attempt [OF auth_inv_room [OF assms] counted(2)]) (use counted(3) in simp)
  then show ?thesis
    using counted(5,7) auth_inv_session_room auth_inv_session [of "session_room a2 now"] counted(4) by auto
qed

lemma auth_inv_apply: "auth_inv a \<Longrightarrow> auth_inv (auth_apply a x)"
  by (cases x) (auto simp: auth_inv_login valid_def logout_def auth_inv_drop split: option.split)

lemma auth_inv_run: "auth_inv a \<Longrightarrow> auth_inv (auth_run a ops)"
  by (induction ops rule: rev_induct) (simp_all add: auth_inv_apply)

section \<open>Where a session comes from\<close>

text \<open>A successful login of the run, and no logout of its token after it.\<close>

definition logged_in :: "authenticator \<Rightarrow> auth_op list \<Rightarrow> string \<Rightarrow> gotime \<Rightarrow> bool" where
  "logged_in a ops token expires \<longleftrightarrow>
     (\<exists>pre remote now random post. ops = pre @ OpLogin remote (at_username a) (at_password a) now random # post
        \<and> snd (login (auth_run a pre) remote (at_username a) (at_password a) now random) = LoggedIn token expires
        \<and> expires = time_add now (at_ttl a) \<and> OpLogout (Some token) \<notin> set post)"

lemma logged_in_later:
  "logged_in a ops token expires \<Longrightarrow> x \<noteq> OpLogout (Some token) \<Longrightarrow> logged_in a (ops @ [x]) token expires"
  unfolding logged_in_def by (fastforce intro: exI [of _ "_ @ [x]"])

lemma login_session:
  assumes "auth_inv a" and "map_of (at_sessions (fst (login a remote username password now random))) t = Some e"
  shows "map_of (at_sessions a) t = Some e
    \<or> username = at_username a \<and> password = at_password a \<and> e = time_add now (at_ttl a)
      \<and> snd (login a remote username password now random) = LoggedIn t e"
proof (cases rule: login_cases [of a remote username password now random])
  case (counted a2 a' r)
  have d: "distinct (map fst (at_sessions a2))" and s: "at_sessions a2 = at_sessions a"
    using assms(1) counted(4) by (simp_all add: auth_inv_def)
  have room: "map_of (at_sessions (session_room a2 now)) t = Some e \<Longrightarrow> map_of (at_sessions a) t = Some e"
    using session_room_lookup [OF d] s by metis
  show ?thesis
    using counted(5,7) assms(2) room s by (auto simp: open_session_def update_conv' split: if_splits)
qed (use assms(2) in simp_all)

lemma session_from_login:
  assumes "auth_inv a" and "at_sessions a = []"
  shows "map_of (at_sessions (auth_run a ops)) token = Some expires \<Longrightarrow> logged_in a ops token expires"
proof (induction ops rule: rev_induct)
  case Nil
  then show ?case using assms(2) by simp
next
  case (snoc x ops)
  let ?s = "auth_run a ops"
  show ?case
  proof (cases x)
    case (OpLogin remote username password now random)
    have l: "map_of (at_sessions (fst (login ?s remote username password now random))) token = Some expires"
      using snoc.prems OpLogin by simp
    from login_session [OF auth_inv_run [OF assms(1)] this] show ?thesis
    proof
      assume "map_of (at_sessions ?s) token = Some expires"
      with snoc.IH logged_in_later OpLogin show ?thesis by simp
    next
      assume new: "username = at_username ?s \<and> password = at_password ?s \<and> expires = time_add now (at_ttl ?s)
        \<and> snd (login ?s remote username password now random) = LoggedIn token expires"
      have ttl: "at_ttl ?s = at_ttl a" by (induction ops rule: rev_induct) (simp_all add: credentials_kept)
      show ?thesis
        unfolding logged_in_def OpLogin
        by (rule exI [of _ ops], rule exI [of _ remote], rule exI [of _ now], rule exI [of _ random], rule exI [of _ "[]"])
          (use new ttl in \<open>auto simp: run_credentials\<close>)
    qed
  next
    case (OpValid cookie now)
    then have "map_of (at_sessions ?s) token = Some expires"
      using snoc.prems by (auto simp: valid_def drop_session_lookup split: if_splits option.splits)
    with snoc.IH logged_in_later OpValid show ?thesis by simp
  next
    case (OpLogout cookie)
    then have "map_of (at_sessions ?s) token = Some expires" "cookie \<noteq> Some token"
      using snoc.prems by (auto simp: logout_def drop_session_lookup split: if_splits option.splits)
    with snoc.IH logged_in_later OpLogout show ?thesis by simp
  qed
qed

section \<open>The rate limit\<close>

text \<open>The logins of one client that were counted, not turned away by the rate limit.\<close>

definition admission :: "string \<Rightarrow> authenticator \<Rightarrow> auth_op \<Rightarrow> gotime list" where
  "admission key a x = (case x of
     OpLogin remote username password now random \<Rightarrow>
       if clientAddress remote = key \<and> required a
         \<and> snd (login a remote username password now random) \<noteq> LoginFailed ''login_rate_limited'' then [now] else []
   | _ \<Rightarrow> [])"

fun admitted :: "string \<Rightarrow> authenticator \<Rightarrow> auth_op list \<Rightarrow> gotime list" where
  "admitted key a [] = []"
| "admitted key a (x # ops) = admission key a x @ admitted key (auth_apply a x) ops"

lemma admitted_snoc: "admitted key a (ops @ [x]) = admitted key a ops @ admission key (auth_run a ops) x"
  by (induction ops arbitrary: a) (simp_all add: auth_run_def)

definition instant :: "gotime \<Rightarrow> int" where
  "instant t = (case mono_ns t of Some m \<Rightarrow> m | None \<Rightarrow> wall_ns t)"

definition op_times :: "auth_op list \<Rightarrow> gotime list" where
  "op_times ops = concat (map (\<lambda>x. case x of OpLogin r u p now random \<Rightarrow> [now] | OpValid c now \<Rightarrow> [now] | OpLogout c \<Rightarrow> []) ops)"

text \<open>The readings of one running clock: monotonic, and in order.\<close>

definition running_clock :: "auth_op list \<Rightarrow> bool" where
  "running_clock ops \<longleftrightarrow> list_all (\<lambda>t. mono_ns t \<noteq> None) (op_times ops) \<and> sorted (map instant (op_times ops))"

definition within_minute :: "int \<Rightarrow> gotime \<Rightarrow> bool" where
  "within_minute now t \<longleftrightarrow> now - minute_ns < instant t"

lemma recent_of_monotonic:
  assumes "mono_ns now \<noteq> None" and "list_all (\<lambda>t. mono_ns t \<noteq> None) values"
  shows "recent_of now values = filter (within_minute (instant now)) values"
proof -
  have "time_after t (time_add now (- minute_ns)) = within_minute (instant now) t" if "t \<in> set values" for t
    using that assms by (auto simp: list_all_iff time_after_def time_diff_def time_add_def within_minute_def instant_def)
  then show ?thesis unfolding recent_of_def by (rule filter_cong [OF refl])
qed

lemma pruned_lookup:
  assumes "distinct (map fst xs)"
  shows "map_of (filter (\<lambda>(k, vs). vs \<noteq> []) (map (\<lambda>(k, vs). (k, recent_of now vs)) xs)) key
    = (case map_of xs key of None \<Rightarrow> None | Some vs \<Rightarrow> if recent_of now vs = [] then None else Some (recent_of now vs))"
  using assms
proof (induction xs)
  case (Cons x xs)
  obtain k vs where x: "x = (k, vs)" by fastforce
  have "key = k \<Longrightarrow> map_of xs key = None" using Cons.prems x by (auto simp: map_of_eq_None_iff)
  with Cons x show ?case by (cases "recent_of now vs"; cases "key = k") (simp_all del: filter_map)
qed simp

lemma recent_of_Nil [simp]: "recent_of now [] = []"
  by (simp add: recent_of_def)

lemma attempts_of_room:
  "auth_inv a \<Longrightarrow> attempts_of (attempt_room a k now) key = (if attempts_full a k then recent_of now (attempts_of a key) else attempts_of a key)"
  by (auto simp: attempts_of_def attempt_room_def pruneAttempts_def pruned_lookup auth_inv_def
      simp del: filter_map split: option.split)

lemma attempts_of_simps [simp]:
  "attempts_of (set_attempts a k vs) key = (if k = key then vs else attempts_of a key)"
  "attempts_of (session_room a now) key = attempts_of a key" "attempts_of (open_session a t e) key = attempts_of a key"
  "attempts_of (drop_session t a) key = attempts_of a key"
  by (simp_all add: attempts_of_def) (simp add: set_attempts_def update_conv')

text \<open>
  The invariant: for an instant at or after every reading so far, the recorded attempts of a client
  within a minute are its counted logins within a minute.
\<close>

definition rate_inv :: "string \<Rightarrow> authenticator \<Rightarrow> gotime list \<Rightarrow> int \<Rightarrow> bool" where
  "rate_inv key a counted now \<longleftrightarrow> list_all (\<lambda>t. mono_ns t \<noteq> None) (attempts_of a key)
     \<and> filter (within_minute now) (attempts_of a key) = filter (within_minute now) counted"

lemma within_minute_mono: "within_minute later t \<Longrightarrow> now \<le> later \<Longrightarrow> within_minute now t"
  by (simp add: within_minute_def)

lemma rate_inv_later: "rate_inv key a counted now \<Longrightarrow> now \<le> later \<Longrightarrow> rate_inv key a counted later"
proof -
  assume a: "rate_inv key a counted now" "now \<le> later"
  have "filter (within_minute later) xs = filter (within_minute later) (filter (within_minute now) xs)" for xs
    using within_minute_mono [OF _ a(2)] by (auto intro!: filter_cong)
  with a(1) show ?thesis by (metis rate_inv_def)
qed

lemma rate_inv_counted:
  assumes "rate_inv key a counted now"
  shows "list_all (\<lambda>t. mono_ns t \<noteq> None) (filter (within_minute now) counted)"
proof -
  have eq: "filter (within_minute now) counted = filter (within_minute now) (attempts_of a key)"
    and mono: "list_all (\<lambda>t. mono_ns t \<noteq> None) (attempts_of a key)"
    using assms by (simp_all add: rate_inv_def)
  show ?thesis unfolding eq using mono by (simp add: list_all_iff)
qed

lemma rate_inv_room:
  assumes "rate_inv key a counted (instant now)" and "auth_inv a" and "mono_ns now \<noteq> None"
  shows "rate_inv key (attempt_room a k now) counted (instant now)"
  using assms rate_inv_counted [OF assms(1)] by (simp add: rate_inv_def attempts_of_room recent_of_monotonic)

lemma recent_counted:
  assumes "rate_inv key a counted (instant now)" and "mono_ns now \<noteq> None"
  shows "recentAttempts a key now = filter (within_minute (instant now)) counted"
  using assms by (simp add: rate_inv_def recentAttempts_def recent_of_monotonic)

text \<open>The step: the invariant at the instant of the login, and fewer than five counted logins if this one counts.\<close>

lemma rate_inv_login:
  assumes "rate_inv key a counted (instant now)" and "auth_inv a" and "mono_ns now \<noteq> None"
    and x_def: "x = OpLogin remote username password now random"
  shows "rate_inv key (auth_apply a x) (counted @ admission key a x) (instant now)"
    and "admission key a x \<noteq> [] \<Longrightarrow> length (filter (within_minute (instant now)) counted) < 5"
proof -
  let ?k = "clientAddress remote"
  let ?a1 = "attempt_room a ?k now"
  have room: "rate_inv key ?a1 counted (instant now)" by (rule rate_inv_room [OF assms(1-3)])
  have now: "within_minute (instant now) now" by (simp add: within_minute_def minute_ns_def second_ns_def)
  have recent: "?k = key \<Longrightarrow> recentAttempts ?a1 ?k now = filter (within_minute (instant now)) counted"
    using recent_counted [OF room assms(3)] by simp
  have mono: "?k = key \<Longrightarrow> list_all (\<lambda>t. mono_ns t \<noteq> None) (filter (within_minute (instant now)) counted)"
    using rate_inv_counted [OF room] by simp
  have both: "rate_inv key (auth_apply a x) (counted @ admission key a x) (instant now)
     \<and> (admission key a x \<noteq> [] \<longrightarrow> length (filter (within_minute (instant now)) counted) < 5)"
  proof (cases rule: login_cases [of a remote username password now random])
    case disabled
    then show ?thesis using assms(1) by (simp add: x_def admission_def)
  next
    case full
    then show ?thesis using room by (simp add: x_def admission_def)
  next
    case limited
    then show ?thesis using room recent mono by (auto simp: x_def admission_def rate_inv_def)
  next
    case (counted a2 a' r)
    have at: "attempts_of a' key = (if ?k = key then recentAttempts ?a1 ?k now @ [now] else attempts_of ?a1 key)"
      using counted(4,7) by auto
    show ?thesis
      using room recent mono assms(3) counted(1,3,5,6) now at by (auto simp: x_def admission_def rate_inv_def)
  qed
  then show "rate_inv key (auth_apply a x) (counted @ admission key a x) (instant now)"
    and "admission key a x \<noteq> [] \<Longrightarrow> length (filter (within_minute (instant now)) counted) < 5" by simp_all
qed

lemma op_times_simps [simp]:
  "op_times [] = []" "op_times (ops @ [x]) = op_times ops @ op_times [x]"
  "op_times [OpLogin r u p now random] = [now]" "op_times [OpValid c now] = [now]" "op_times [OpLogout c] = []"
  by (simp_all add: op_times_def)

lemma rate_inv_other:
  "rate_inv key a counted now \<Longrightarrow> rate_inv key (auth_apply a (OpValid c n)) counted now"
  "rate_inv key a counted now \<Longrightarrow> rate_inv key (auth_apply a (OpLogout c)) counted now"
  by (auto simp: rate_inv_def valid_def logout_def split: option.split)

text \<open>At most five counted logins of a client in any window of a minute that ends with a reading.\<close>

definition window :: "int \<Rightarrow> gotime \<Rightarrow> bool" where
  "window start t \<longleftrightarrow> start < instant t \<and> instant t \<le> start + minute_ns"

lemma length_filter_mono: "(\<And>x. P x \<Longrightarrow> Q x) \<Longrightarrow> length (filter P xs) \<le> length (filter Q xs)"
  by (induction xs) (auto simp: le_SucI)

lemma rate_limit_run:
  assumes "auth_inv a" and "at_attempts a = []"
  shows "running_clock ops \<Longrightarrow>
    (\<forall>now. (\<forall>t\<in>set (op_times ops). instant t \<le> now) \<longrightarrow> rate_inv key (auth_run a ops) (admitted key a ops) now)
    \<and> length (filter (window start) (admitted key a ops)) \<le> 5 \<and> set (admitted key a ops) \<subseteq> set (op_times ops)"
proof (induction ops rule: rev_induct)
  case Nil
  show ?case using assms(2) by (simp add: rate_inv_def attempts_of_def)
next
  case (snoc x ops)
  let ?s = "auth_run a ops"
  have IH: "\<And>now. (\<forall>t\<in>set (op_times ops). instant t \<le> now) \<Longrightarrow> rate_inv key ?s (admitted key a ops) now"
    "length (filter (window start) (admitted key a ops)) \<le> 5" "set (admitted key a ops) \<subseteq> set (op_times ops)"
    using snoc by (auto simp: running_clock_def sorted_append)
  show ?case
  proof (cases x)
    case (OpLogin remote username password now random)
    have before_now: "\<forall>t\<in>set (op_times ops). instant t \<le> instant now" and mono: "mono_ns now \<noteq> None"
      using snoc.prems OpLogin by (auto simp: running_clock_def sorted_append)
    note step = rate_inv_login [OF IH(1) [OF before_now] auth_inv_run [OF assms(1)] mono OpLogin]
    have later: "rate_inv key (auth_apply ?s x) (admitted key a ops @ admission key ?s x) later" if "instant now \<le> later" for later
      using rate_inv_later [OF step(1) that] .
    have adm: "admission key ?s x \<noteq> [] \<Longrightarrow> admission key ?s x = [now]"
      using OpLogin by (auto simp: admission_def split: if_splits)
    have bound: "length (filter (window start) (admitted key a ops @ admission key ?s x)) \<le> 5"
    proof (cases "admission key ?s x \<noteq> [] \<and> window start now")
      case True
      have "window start t \<Longrightarrow> within_minute (instant now) t" for t
        using True by (auto simp: window_def within_minute_def)
      then have "length (filter (window start) (admitted key a ops)) \<le> length (filter (within_minute (instant now)) (admitted key a ops))"
        by (rule length_filter_mono)
      with step(2) True adm show ?thesis by simp
    next
      case False
      with IH(2) adm show ?thesis by (cases "admission key ?s x = []") auto
    qed
    show ?thesis
      using later bound IH(3) adm OpLogin by (cases "admission key ?s x = []") (auto simp: admitted_snoc simp del: filter_append)
  next
    case (OpValid cookie now)
    then show ?thesis
      using IH rate_inv_other(1) by (auto simp: admitted_snoc admission_def)
  next
    case (OpLogout cookie)
    then show ?thesis
      using IH rate_inv_other(2) by (simp add: admitted_snoc admission_def)
  qed
qed

section \<open>Properties\<close>

definition sample_settings :: authentication where
  "sample_settings = \<lparr>au_username = ''ann'', au_password = ''pw'', au_session_ttl = 3600 * second_ns\<rparr>"

definition at_second :: "int \<Rightarrow> gotime" where
  "at_second s = \<lparr>wall_ns = s * second_ns, mono_ns = Some (s * second_ns)\<rparr>"

definition sample_logins :: "auth_op list" where
  "sample_logins = [OpLogin ''10.0.0.1:4000'' ''ann'' ''no'' (at_second 1) None,
     OpLogin ''10.0.0.1:4001'' ''ann'' ''pw'' (at_second 2) (Some [1, 2, 3])]"

text \<open>
  C28. Brute force is bounded: in every run of logins, checks and logouts of a fresh authenticator,
  at most five logins from one client address are counted in any minute; every other login from
  it in that minute is turned away with \<open>login_rate_limited\<close> before a password is compared.
\<close>

theorem logins_rate_limited:
  assumes "running_clock ops"
  shows "length (filter (window start) (admitted key (newAuthenticator settings) ops)) \<le> 5"
proof -
  have "at_attempts (newAuthenticator settings) = []" by (simp add: newAuthenticator_def)
  from rate_limit_run [OF auth_inv_new this assms] show ?thesis by blast
qed

theorem logins_rate_limited_witness:
  "length (filter (window 0) (admitted ''10.0.0.1'' (newAuthenticator sample_settings) sample_logins)) \<le> 5"
  by (rule logins_rate_limited) code_simp

text \<open>
  C29. Sessions are authentic: when \<open>valid\<close> accepts a session cookie while a login is required,
  the run has a login with the configured user name and password that issued this token, the token
  has not been logged out since, and the time to live since that login is not over.
\<close>

theorem session_authentic:
  assumes "auth_run (newAuthenticator settings) ops = a" and "au_username settings \<noteq> []"
    and "snd (valid a (Some token) now)"
  shows "\<exists>pre remote issued random post.
    ops = pre @ OpLogin remote (au_username settings) (au_password settings) issued random # post
    \<and> snd (login (auth_run (newAuthenticator settings) pre) remote (au_username settings) (au_password settings) issued random)
        = LoggedIn token (time_add issued (au_session_ttl settings))
    \<and> OpLogout (Some token) \<notin> set post \<and> time_after (time_add issued (au_session_ttl settings)) now"
proof -
  let ?n = "newAuthenticator settings"
  have n: "at_username ?n = au_username settings" "at_password ?n = au_password settings" "at_ttl ?n = au_session_ttl settings"
    "at_sessions ?n = []"
    by (simp_all add: newAuthenticator_def)
  have "at_username a = au_username settings" using assms(1) run_credentials(1) n(1) by metis
  then obtain expires where e: "map_of (at_sessions a) token = Some expires" "time_after expires now"
    using assms(2,3) by (auto simp: valid_def required_def split: option.splits if_splits)
  have "logged_in ?n ops token expires"
    using session_from_login [OF auth_inv_new n(4)] e(1) assms(1) by simp
  then show ?thesis using e(2) unfolding logged_in_def n by blast
qed

theorem session_authentic_witness:
  "\<exists>pre remote issued random post.
    sample_logins = pre @ OpLogin remote ''ann'' ''pw'' issued random # post
    \<and> snd (login (auth_run (newAuthenticator sample_settings) pre) remote ''ann'' ''pw'' issued random)
        = LoggedIn ''AQID'' (time_add issued (3600 * second_ns))
    \<and> OpLogout (Some ''AQID'') \<notin> set post \<and> time_after (time_add issued (3600 * second_ns)) (at_second 60)"
proof -
  have "snd (valid (auth_run (newAuthenticator sample_settings) sample_logins) (Some ''AQID'') (at_second 60))"
    and "au_username sample_settings \<noteq> []" by code_simp+
  from session_authentic [OF refl this(2,1)] show ?thesis by (simp add: sample_settings_def)
qed

text \<open>
  The tables of the authenticator are bounded in every run: at most 1024 sessions, at most 1024
  client addresses, at most five attempts for each, and no key twice.
\<close>

theorem authenticator_bounded:
  "length (at_sessions (auth_run (newAuthenticator settings) ops)) \<le> 1024
    \<and> length (at_attempts (auth_run (newAuthenticator settings) ops)) \<le> 1024
    \<and> list_all (\<lambda>x. length (snd x) \<le> 5) (at_attempts (auth_run (newAuthenticator settings) ops))"
proof -
  have "at_max_sessions (newAuthenticator settings) = 1024" "at_max_attempts (newAuthenticator settings) = 1024"
    by (simp_all add: newAuthenticator_def)
  with auth_inv_run [OF auth_inv_new, of settings ops] show ?thesis
    by (simp add: auth_inv_def run_credentials)
qed

end
