(* ===== verification/Reload_Planes.thy ===== *)
theory Reload_Planes
  imports Plane_Interface Login_Sessions
begin

text \<open>
  The three planes of \<open>internal/app\<close> that own the listeners: management, traffic and UDP. Each accepts a new
  configuration in two phases: \<open>Prepare\<close> takes the transition lock and binds what the change needs, the plan
  it returns is then activated or aborted once, which releases the lock.

  A plane counts the listeners it opens; \<open>open\<close> are those not closed yet. What the network answers is an
  argument: \<open>None\<close> when binding fails, else the bound address. The transition lock is a field; an operation
  that takes it runs only while it is free. Goroutines that end later are operations of their own.
\<close>

record net_listener =
  ln_id :: nat
  ln_addr :: string

record http_server =
  hs_id :: nat
  hs_read_timeout :: int
  hs_write_timeout :: int
  hs_idle_timeout :: int
  hs_max_header :: int

section \<open>The management plane\<close>

record management_reload =
  mr_listener :: string
  mr_address_changed :: bool
  mr_relogin :: bool

text \<open>
  A handler that the factory of \<open>Start\<close> in \<open>app.go\<close> makes: its own authenticator, from the configuration in force, and
  the channel that ends its event streams.
\<close>

record management_handler =
  mh_address :: string
  mh_stream :: nat
  mh_auth :: authenticator

definition managementFactory :: "config \<Rightarrow> string \<Rightarrow> nat \<Rightarrow> management_handler" where
  "managementFactory cfg address shutdown = \<lparr>mh_address = address, mh_stream = shutdown, mh_auth = newAuthenticator (cf_auth cfg)\<rparr>"

text \<open>
  \<open>mp_handlers\<close> is the reloadable handler of each server. \<open>mp_closes\<close> lists the stream channels in the order
  they were closed: Go panics when a channel is closed twice.
\<close>

record management_plane =
  mp_listener :: "net_listener option"
  mp_server :: "http_server option"
  mp_handlers :: "(nat \<times> management_handler) list"
  mp_configured :: string
  mp_stream :: nat
  mp_stream_closed :: bool
  mp_servers :: "nat list"
  mp_draining :: "nat list"
  mp_closed :: bool
  mp_locked :: bool
  mp_open :: "nat list"
  mp_next :: nat
  mp_channels :: nat
  mp_closes :: "nat list"

record management_plan =
  ml_config :: config
  ml_listener :: "net_listener option"
  ml_result :: management_reload
  ml_completed :: bool

definition newManagementPlane :: "management_plane" where
  "newManagementPlane = \<lparr>mp_listener = None, mp_server = None, mp_handlers = [], mp_configured = [], mp_stream = 0,
     mp_stream_closed = False, mp_servers = [], mp_draining = [], mp_closed = False, mp_locked = False,
     mp_open = [], mp_next = 0, mp_channels = 0, mp_closes = []\<rparr>"

definition newManagementServer :: "config \<Rightarrow> nat \<Rightarrow> http_server" where
  "newManagementServer cfg i = \<lparr>hs_id = i, hs_read_timeout = 15 * second_ns, hs_write_timeout = 15 * second_ns,
     hs_idle_timeout = 60 * second_ns, hs_max_header = lim_request_header (cf_limits cfg)\<rparr>"

definition management_listen :: "string \<Rightarrow> management_plane \<Rightarrow> net_listener \<times> management_plane" where
  "management_listen addr p = (\<lparr>ln_id = mp_next p, ln_addr = addr\<rparr>,
     p\<lparr>mp_open := mp_next p # mp_open p, mp_next := mp_next p + 1\<rparr>)"

definition management_start :: "net_listener \<Rightarrow> config \<Rightarrow> management_plane \<Rightarrow> management_plane" where
  "management_start l cfg p =
     (let shutdown = mp_channels p; server = newManagementServer cfg (ln_id l)
      in p\<lparr>mp_listener := Some l, mp_server := Some server, mp_handlers := [(ln_id l, managementFactory cfg (ln_addr l) shutdown)],
          mp_configured := ls_management (cf_listeners cfg), mp_stream := shutdown, mp_channels := shutdown + 1,
          mp_servers := ln_id l # mp_servers p\<rparr>)"

definition management_address :: "management_plane \<Rightarrow> string" where
  "management_address p = (case mp_listener p of None \<Rightarrow> [] | Some l \<Rightarrow> ln_addr l)"

definition management_prepare :: "string option \<Rightarrow> config \<Rightarrow> management_plane \<Rightarrow> management_plane \<times> management_plan option" where
  "management_prepare bind cfg p0 =
     (let p = p0\<lparr>mp_locked := True\<rparr>
      in if mp_closed p then (p\<lparr>mp_locked := False\<rparr>, None)
         else
           let plan = \<lparr>ml_config = cfg, ml_listener = None,
                 ml_result = \<lparr>mr_listener = management_address p, mr_address_changed = False, mr_relogin = (au_username (cf_auth cfg) \<noteq> [])\<rparr>,
                 ml_completed = False\<rparr>
           in if ls_management (cf_listeners cfg) \<noteq> mp_configured p then
                (case bind of
                   None \<Rightarrow> (p\<lparr>mp_locked := False\<rparr>, None)
                 | Some addr \<Rightarrow>
                     let (l, p1) = management_listen addr p
                     in (p1, Some (plan\<lparr>ml_listener := Some l,
                          ml_result := (ml_result plan)\<lparr>mr_listener := addr, mr_address_changed := True\<rparr>\<rparr>)))
              else (p, Some plan))"

definition close_stream :: "nat \<Rightarrow> management_plane \<Rightarrow> management_plane" where
  "close_stream c p = p\<lparr>mp_closes := mp_closes p @ [c]\<rparr>"

definition management_activate :: "config \<Rightarrow> management_plan \<Rightarrow> management_plane \<Rightarrow> management_plan \<times> management_plane" where
  "management_activate current plan p =
     (if ml_completed plan then (plan, p)
      else
        let shutdown = mp_channels p;
            handler = managementFactory current (mr_listener (ml_result plan)) shutdown;
            oldServer = mp_server p; oldShutdown = mp_stream p; oldStreamClosed = mp_stream_closed p;
            p1 = p\<lparr>mp_channels := shutdown + 1, mp_stream := shutdown, mp_stream_closed := False,
                  mp_configured := ls_management (cf_listeners (ml_config plan))\<rparr>;
            p2 = (case ml_listener plan of
                None \<Rightarrow> (case oldServer of None \<Rightarrow> p1 | Some s \<Rightarrow> p1\<lparr>mp_handlers := AList.update (hs_id s) handler (mp_handlers p1)\<rparr>)
              | Some l \<Rightarrow>
                  let server = newManagementServer (ml_config plan) (ln_id l)
                  in p1\<lparr>mp_listener := Some l, mp_server := Some server, mp_handlers := AList.update (ln_id l) handler (mp_handlers p1),
                       mp_servers := ln_id l # mp_servers p1,
                       mp_draining := (case oldServer of None \<Rightarrow> mp_draining p1 | Some s \<Rightarrow> hs_id s # mp_draining p1)\<rparr>);
            p3 = (if oldStreamClosed then p2 else close_stream oldShutdown p2)
        in (plan\<lparr>ml_completed := True\<rparr>, p3\<lparr>mp_locked := False\<rparr>))"

definition management_abort :: "management_plan \<Rightarrow> management_plane \<Rightarrow> management_plan \<times> management_plane" where
  "management_abort plan p =
     (if ml_completed plan then (plan, p)
      else
        let p1 = (case ml_listener plan of None \<Rightarrow> p | Some l \<Rightarrow> p\<lparr>mp_open := remove1 (ln_id l) (mp_open p)\<rparr>)
        in (plan\<lparr>ml_completed := True\<rparr>, p1\<lparr>mp_locked := False\<rparr>))"

definition CloseStreams :: "management_plane \<Rightarrow> management_plane" where
  "CloseStreams p = (if mp_stream_closed p then p else (close_stream (mp_stream p) p)\<lparr>mp_stream_closed := True\<rparr>)"

text \<open>
  \<open>Shutdown\<close> up to the point where it releases the lock, and the servers it then shuts down; each of them, and each
  draining server, closes its listener and leaves \<open>servers\<close> when its \<open>Serve\<close> returns.
\<close>

definition management_shutdown :: "management_plane \<Rightarrow> management_plane \<times> nat list" where
  "management_shutdown p = (let p1 = (CloseStreams p)\<lparr>mp_closed := True\<rparr> in (p1, mp_servers p1))"

definition management_served :: "nat \<Rightarrow> management_plane \<Rightarrow> management_plane" where
  "management_served i p = p\<lparr>mp_servers := removeAll i (mp_servers p), mp_draining := removeAll i (mp_draining p),
     mp_open := removeAll i (mp_open p)\<rparr>"

section \<open>The traffic plane\<close>

record traffic_reload =
  tr_listener :: string
  tr_address_changed :: bool

record traffic_plane =
  tp_listener :: "net_listener option"
  tp_server :: "http_server option"
  tp_configured :: string
  tp_servers :: "nat list"
  tp_cors :: bool
  tp_draining :: "nat list"
  tp_closed :: bool
  tp_locked :: bool
  tp_open :: "nat list"
  tp_next :: nat

record traffic_plan =
  tl_config :: config
  tl_listener :: "net_listener option"
  tl_result :: traffic_reload
  tl_completed :: bool

definition newTrafficPlane :: traffic_plane where
  "newTrafficPlane = \<lparr>tp_listener = None, tp_server = None, tp_configured = [], tp_servers = [], tp_cors = False,
     tp_draining = [], tp_closed = False, tp_locked = False, tp_open = [], tp_next = 0\<rparr>"

definition newTrafficServer :: "config \<Rightarrow> nat \<Rightarrow> http_server" where
  "newTrafficServer cfg i = \<lparr>hs_id = i, hs_read_timeout = up_timeout (cf_upstream cfg), hs_write_timeout = up_timeout (cf_upstream cfg),
     hs_idle_timeout = 60 * second_ns, hs_max_header = lim_request_header (cf_limits cfg)\<rparr>"

definition traffic_listen :: "string \<Rightarrow> traffic_plane \<Rightarrow> net_listener \<times> traffic_plane" where
  "traffic_listen addr p = (\<lparr>ln_id = tp_next p, ln_addr = addr\<rparr>,
     p\<lparr>tp_open := tp_next p # tp_open p, tp_next := tp_next p + 1\<rparr>)"

definition traffic_serve_on :: "config \<Rightarrow> net_listener \<Rightarrow> traffic_plane \<Rightarrow> traffic_plane" where
  "traffic_serve_on cfg l p = p\<lparr>tp_listener := Some l, tp_server := Some (newTrafficServer cfg (ln_id l)),
     tp_configured := ls_traffic (cf_listeners cfg), tp_servers := ln_id l # tp_servers p\<rparr>"

definition traffic_start :: "net_listener \<Rightarrow> config \<Rightarrow> traffic_plane \<Rightarrow> traffic_plane" where
  "traffic_start l cfg p = traffic_serve_on cfg l (p\<lparr>tp_cors := cf_cors_enabled cfg\<rparr>)"

definition traffic_address :: "traffic_plane \<Rightarrow> string" where
  "traffic_address p = (case tp_listener p of None \<Rightarrow> [] | Some l \<Rightarrow> ln_addr l)"

definition traffic_prepare :: "string option \<Rightarrow> config \<Rightarrow> traffic_plane \<Rightarrow> traffic_plane \<times> traffic_plan option" where
  "traffic_prepare bind cfg p0 =
     (let p = p0\<lparr>tp_locked := True\<rparr>
      in if tp_closed p then (p\<lparr>tp_locked := False\<rparr>, None)
         else
           let plan = \<lparr>tl_config = cfg, tl_listener = None,
                 tl_result = \<lparr>tr_listener = traffic_address p, tr_address_changed = False\<rparr>, tl_completed = False\<rparr>
           in if ls_traffic (cf_listeners cfg) \<noteq> tp_configured p then
                (case bind of
                   None \<Rightarrow> (p\<lparr>tp_locked := False\<rparr>, None)
                 | Some addr \<Rightarrow>
                     let (l, p1) = traffic_listen addr p
                     in (p1, Some (plan\<lparr>tl_listener := Some l, tl_result := \<lparr>tr_listener = addr, tr_address_changed = True\<rparr>\<rparr>)))
              else (p, Some plan))"

definition traffic_activate :: "traffic_plan \<Rightarrow> traffic_plane \<Rightarrow> traffic_plan \<times> traffic_plane" where
  "traffic_activate plan p =
     (if tl_completed plan then (plan, p)
      else
        let p1 = p\<lparr>tp_cors := cf_cors_enabled (tl_config plan)\<rparr>;
            p2 = (case tl_listener plan of
                None \<Rightarrow> p1
              | Some l \<Rightarrow> (traffic_serve_on (tl_config plan) l p1)\<lparr>
                  tp_draining := (case tp_server p1 of None \<Rightarrow> tp_draining p1 | Some s \<Rightarrow> hs_id s # tp_draining p1)\<rparr>)
        in (plan\<lparr>tl_completed := True\<rparr>, p2\<lparr>tp_locked := False\<rparr>))"

definition traffic_abort :: "traffic_plan \<Rightarrow> traffic_plane \<Rightarrow> traffic_plan \<times> traffic_plane" where
  "traffic_abort plan p =
     (if tl_completed plan then (plan, p)
      else
        let p1 = (case tl_listener plan of None \<Rightarrow> p | Some l \<Rightarrow> p\<lparr>tp_open := remove1 (ln_id l) (tp_open p)\<rparr>)
        in (plan\<lparr>tl_completed := True\<rparr>, p1\<lparr>tp_locked := False\<rparr>))"

text \<open>The end of a draining server, and \<open>Close\<close> with the servers it closes.\<close>

definition traffic_drained :: "nat \<Rightarrow> traffic_plane \<Rightarrow> traffic_plane" where
  "traffic_drained i p = p\<lparr>tp_servers := removeAll i (tp_servers p), tp_draining := removeAll i (tp_draining p),
     tp_open := removeAll i (tp_open p)\<rparr>"

definition traffic_close :: "traffic_plane \<Rightarrow> traffic_plane" where
  "traffic_close p = p\<lparr>tp_closed := True, tp_open := filter (\<lambda>i. i \<notin> set (tp_servers p)) (tp_open p)\<rparr>"

section \<open>The UDP plane\<close>

text \<open>
  An address is 4 or 16 bytes with the zone of an IPv6 address; \<open>netip.ParseAddr\<close> keeps an IPv4 address in 4 bytes
  and an IPv4-mapped one in 16, and the tests of \<open>netip.Addr\<close> tell the two apart.
\<close>

record ip_addr =
  ia_bytes :: "nat list"
  ia_zone :: string

record addr_port =
  ap_addr :: ip_addr
  ap_port :: nat

definition parse_addr :: "string \<Rightarrow> ip_addr option" where
  "parse_addr s =
     (case filter (\<lambda>c. c = CHR ''.'' \<or> c = CHR '':'' \<or> c = CHR ''%'') s of
        [] \<Rightarrow> None
      | c # _ \<Rightarrow>
          if c = CHR ''.'' then map_option (\<lambda>b. \<lparr>ia_bytes = b, ia_zone = []\<rparr>) (parse_ipv4 s)
          else if c = CHR ''%'' then None
          else (case first_index (CHR ''%'') s of
              None \<Rightarrow> map_option (\<lambda>b. \<lparr>ia_bytes = b, ia_zone = []\<rparr>) (parse_ipv6 s)
            | Some i \<Rightarrow> if drop (i + 1) s = [] then None
                else map_option (\<lambda>b. \<lparr>ia_bytes = b, ia_zone = drop (i + 1) s\<rparr>) (parse_ipv6 (take i s))))"

definition addr_unmap :: "ip_addr \<Rightarrow> ip_addr" where
  "addr_unmap a = (if length (ia_bytes a) = 16 \<and> to_v4 (ia_bytes a) \<noteq> None
     then \<lparr>ia_bytes = drop 12 (ia_bytes a), ia_zone = []\<rparr> else a)"

definition addr_unspecified :: "ip_addr \<Rightarrow> bool" where
  "addr_unspecified a \<longleftrightarrow> a = \<lparr>ia_bytes = [0, 0, 0, 0], ia_zone = []\<rparr> \<or> a = \<lparr>ia_bytes = replicate 16 0, ia_zone = []\<rparr>"

definition addr_multicast :: "ip_addr \<Rightarrow> bool" where
  "addr_multicast a \<longleftrightarrow> (let b = ia_bytes (addr_unmap a) in if length b = 4 then b ! 0 div 16 = 14 else b ! 0 = 255)"

definition checkedUDPUpstream :: "ip_addr \<Rightarrow> nat \<Rightarrow> addr_port option" where
  "checkedUDPUpstream address port =
     (if addr_unspecified address \<or> addr_multicast address \<or> address = \<lparr>ia_bytes = [255, 255, 255, 255], ia_zone = []\<rparr>
      then None else Some \<lparr>ap_addr = addr_unmap address, ap_port = port\<rparr>)"

lemma mapped_not_zero: "replicate 10 0 @ 255 # q \<noteq> replicate 16 (0 :: nat)"
  by (auto simp: nth_append dest!: arg_cong [of _ _ "\<lambda>l. l ! 10"])

text \<open>
  The tests come before \<open>Unmap\<close>: an IPv4-mapped broadcast or unspecified address, as a resolver may return it, passes and
  becomes the address that was to be refused.
\<close>

lemma mapped_broadcast_accepted:
  "checkedUDPUpstream \<lparr>ia_bytes = mapped_v4 [255, 255, 255, 255], ia_zone = []\<rparr> 53
     = Some \<lparr>ap_addr = \<lparr>ia_bytes = [255, 255, 255, 255], ia_zone = []\<rparr>, ap_port = 53\<rparr>"
  "checkedUDPUpstream \<lparr>ia_bytes = mapped_v4 [0, 0, 0, 0], ia_zone = []\<rparr> 53
     = Some \<lparr>ap_addr = \<lparr>ia_bytes = [0, 0, 0, 0], ia_zone = []\<rparr>, ap_port = 53\<rparr>"
  by (simp_all add: checkedUDPUpstream_def addr_unspecified_def addr_multicast_def addr_unmap_def mapped_v4_def to_v4_def mapped_not_zero Let_def)

text \<open>
  \<open>resolveUDPUpstream\<close>: \<open>Inl\<close> the error; \<open>Inr None\<close> is the zero \<open>AddrPort\<close> of capture mode. \<open>lookup\<close> is
  \<open>LookupNetIP\<close>: \<open>None\<close> when it fails, else the addresses. The loop over them returns in its first round.
\<close>

definition resolveUDPUpstream :: "(string \<Rightarrow> ip_addr list option) \<Rightarrow> udp_settings \<Rightarrow> string + addr_port option" where
  "resolveUDPUpstream lookup cfg =
     (if udp_mode cfg \<noteq> ModeProxy then Inr None
      else case split_host_port (udp_upstream cfg) of
          None \<Rightarrow> Inl ''resolve UDP upstream''
        | Some (host, portText) \<Rightarrow>
            (case parse_digits portText of
               None \<Rightarrow> Inl ''invalid port''
             | Some port \<Rightarrow>
                 if port > 65535 \<or> port = 0 then Inl ''invalid port''
                 else
                   let checked = (\<lambda>address. case checkedUDPUpstream address port of
                         None \<Rightarrow> Inl ''UDP upstream must resolve to unicast address'' | Some target \<Rightarrow> Inr (Some target))
                   in case parse_addr host of
                        Some address \<Rightarrow> checked address
                      | None \<Rightarrow> (case lookup host of
                            None \<Rightarrow> Inl ''resolve UDP upstream''
                          | Some [] \<Rightarrow> Inl ''resolve UDP upstream''
                          | Some (address # _) \<Rightarrow> checked address)))"

text \<open>
  The plane. \<open>newSessions\<close> is \<open>None\<close> without a listener or outside proxy mode; the manager itself is modelled with
  the UDP traffic. \<open>up_receivers\<close> are the listeners a receive loop reads from: the loop ends when its listener is
  closed (\<open>udp_received_last\<close>).
\<close>

record udp_reload =
  ur_enabled :: bool
  ur_listener :: string
  ur_address_changed :: bool

record udp_manager =
  um_listener :: net_listener
  um_upstream :: "addr_port option"
  um_config :: udp_settings

record udp_plane =
  upl_config :: udp_settings
  upl_listener :: "net_listener option"
  upl_sessions :: "udp_manager option"
  upl_receivers :: "nat list"
  upl_closed :: bool
  upl_locked :: bool
  upl_open :: "nat list"
  upl_next :: nat

record udp_plan =
  ul_config :: udp_settings
  ul_upstream :: "addr_port option"
  ul_listener :: "net_listener option"
  ul_result :: udp_reload
  ul_completed :: bool

definition udp_address :: "net_listener option \<Rightarrow> string" where
  "udp_address l = (case l of None \<Rightarrow> [] | Some x \<Rightarrow> ln_addr x)"

definition new_sessions :: "net_listener option \<Rightarrow> addr_port option \<Rightarrow> udp_settings \<Rightarrow> udp_manager option" where
  "new_sessions listener target cfg = (case listener of
     None \<Rightarrow> None
   | Some l \<Rightarrow> if udp_mode cfg \<noteq> ModeProxy then None
       else Some \<lparr>um_listener = l, um_upstream = target, um_config = cfg\<rparr>)"

definition udp_start :: "net_listener option \<Rightarrow> addr_port option \<Rightarrow> udp_settings \<Rightarrow> udp_plane \<Rightarrow> udp_plane" where
  "udp_start listener target cfg p = p\<lparr>upl_config := cfg, upl_listener := listener, upl_sessions := new_sessions listener target cfg,
     upl_receivers := (case listener of None \<Rightarrow> upl_receivers p | Some l \<Rightarrow> ln_id l # upl_receivers p)\<rparr>"

definition udp_listen_on :: "string \<Rightarrow> udp_plane \<Rightarrow> net_listener \<times> udp_plane" where
  "udp_listen_on addr p = (\<lparr>ln_id = upl_next p, ln_addr = addr\<rparr>,
     p\<lparr>upl_open := upl_next p # upl_open p, upl_next := upl_next p + 1\<rparr>)"

text \<open>The environment of \<open>Prepare\<close>: the resolver, and what binding answers.\<close>

definition udp_prepare :: "(string \<Rightarrow> ip_addr list option) \<times> string option \<Rightarrow> config \<Rightarrow> udp_plane \<Rightarrow> udp_plane \<times> udp_plan option" where
  "udp_prepare env cfg p0 =
     (let p = p0\<lparr>upl_locked := True\<rparr>; unlocked = p\<lparr>upl_locked := False\<rparr>; new = cf_udp cfg
      in if upl_closed p then (unlocked, None)
         else if \<not> udp_enabled new then
           (p, Some \<lparr>ul_config = new, ul_upstream = None, ul_listener = None,
              ul_result = \<lparr>ur_enabled = False, ur_listener = [], ur_address_changed = (upl_listener p \<noteq> None)\<rparr>, ul_completed = False\<rparr>)
         else case resolveUDPUpstream (fst env) new of
             Inl _ \<Rightarrow> (unlocked, None)
           | Inr target \<Rightarrow>
               if upl_listener p = None \<or> udp_listen (upl_config p) \<noteq> udp_listen new then
                 (case snd env of
                    None \<Rightarrow> (unlocked, None)
                  | Some addr \<Rightarrow>
                      let (l, p1) = udp_listen_on addr p
                      in (p1, Some \<lparr>ul_config = new, ul_upstream = target, ul_listener = Some l,
                           ul_result = \<lparr>ur_enabled = True, ur_listener = addr, ur_address_changed = True\<rparr>, ul_completed = False\<rparr>))
               else (p, Some \<lparr>ul_config = new, ul_upstream = target, ul_listener = None,
                      ul_result = \<lparr>ur_enabled = True, ur_listener = udp_address (upl_listener p), ur_address_changed = False\<rparr>,
                      ul_completed = False\<rparr>))"

definition udp_activate :: "udp_plan \<Rightarrow> udp_plane \<Rightarrow> udp_plan \<times> udp_plane" where
  "udp_activate plan p =
     (if ul_completed plan then (plan, p)
      else
        let oldListener = upl_listener p;
            listener = (if \<not> udp_enabled (ul_config plan) then None
                        else if ul_listener plan \<noteq> None then ul_listener plan else oldListener);
            p1 = p\<lparr>upl_config := ul_config plan, upl_listener := listener,
                  upl_sessions := new_sessions listener (ul_upstream plan) (ul_config plan),
                  upl_receivers := (case ul_listener plan of None \<Rightarrow> upl_receivers p | Some l \<Rightarrow> ln_id l # upl_receivers p)\<rparr>;
            p2 = (case oldListener of
                None \<Rightarrow> p1
              | Some l \<Rightarrow> if oldListener \<noteq> listener then p1\<lparr>upl_open := remove1 (ln_id l) (upl_open p1)\<rparr> else p1)
        in (plan\<lparr>ul_completed := True\<rparr>, p2\<lparr>upl_locked := False\<rparr>))"

definition udp_abort :: "udp_plan \<Rightarrow> udp_plane \<Rightarrow> udp_plan \<times> udp_plane" where
  "udp_abort plan p =
     (if ul_completed plan then (plan, p)
      else
        let p1 = (case ul_listener plan of None \<Rightarrow> p | Some l \<Rightarrow> p\<lparr>upl_open := remove1 (ln_id l) (upl_open p)\<rparr>)
        in (plan\<lparr>ul_completed := True\<rparr>, p1\<lparr>upl_locked := False\<rparr>))"

definition udp_runtime :: "net_listener \<Rightarrow> udp_plane \<Rightarrow> udp_settings \<times> udp_manager option \<times> bool" where
  "udp_runtime l p = (upl_config p, upl_sessions p, \<not> upl_closed p \<and> upl_listener p = Some l)"

definition udp_close :: "udp_plane \<Rightarrow> udp_plane" where
  "udp_close p = p\<lparr>upl_closed := True, upl_listener := None, upl_sessions := None,
     upl_open := (case upl_listener p of None \<Rightarrow> upl_open p | Some l \<Rightarrow> remove1 (ln_id l) (upl_open p))\<rparr>"

definition udp_received_last :: "nat \<Rightarrow> udp_plane \<Rightarrow> udp_plane" where
  "udp_received_last i p = (if i \<in> set (upl_open p) then p else p\<lparr>upl_receivers := removeAll i (upl_receivers p)\<rparr>)"

section \<open>Settled planes\<close>

definition managementSettingsChanged :: "config \<Rightarrow> config \<Rightarrow> bool" where
  "managementSettingsChanged current next \<longleftrightarrow>
     ls_management (cf_listeners current) \<noteq> ls_management (cf_listeners next) \<or> cf_auth current \<noteq> cf_auth next"

definition trafficSettingsChanged :: "config \<Rightarrow> config \<Rightarrow> bool" where
  "trafficSettingsChanged current next \<longleftrightarrow>
     ls_traffic (cf_listeners current) \<noteq> ls_traffic (cf_listeners next) \<or> cf_cors_enabled current \<noteq> cf_cors_enabled next"

definition udpSettingsChanged :: "config \<Rightarrow> config \<Rightarrow> bool" where
  "udpSettingsChanged current next \<longleftrightarrow> cf_udp current \<noteq> cf_udp next"

text \<open>
  The listeners of a settled plane are that of its current server and those of servers that are being drained. A
  replaced stream channel is closed, and none twice.
\<close>

definition current_server :: "net_listener option \<Rightarrow> http_server option \<Rightarrow> nat option" where
  "current_server l s = (case (l, s) of (Some x, Some y) \<Rightarrow> if ln_id x = hs_id y then Some (hs_id y) else None | _ \<Rightarrow> None)"

definition sockets_ok :: "nat option \<Rightarrow> nat list \<Rightarrow> nat list \<Rightarrow> nat list \<Rightarrow> nat \<Rightarrow> bool" where
  "sockets_ok current servers draining opened next \<longleftrightarrow>
     current \<noteq> None \<and> distinct opened \<and> set opened = set servers \<and> set servers \<subseteq> set_option current \<union> set draining
     \<and> set_option current \<subseteq> set servers
     \<and> set draining \<union> set_option current \<subseteq> {..<next} \<and> set draining \<inter> set_option current = {}"

definition channels_ok :: "management_plane \<Rightarrow> bool" where
  "channels_ok p \<longleftrightarrow> mp_stream p < mp_channels p \<and> distinct (mp_closes p) \<and> set (mp_closes p) \<subseteq> {..<mp_channels p}
     \<and> {..<mp_channels p} - {mp_stream p} \<subseteq> set (mp_closes p) \<and> (mp_stream_closed p \<longleftrightarrow> mp_stream p \<in> set (mp_closes p))"

definition management_settled :: "management_plane \<Rightarrow> bool" where
  "management_settled p \<longleftrightarrow> \<not> mp_locked p \<and> channels_ok p
     \<and> sockets_ok (current_server (mp_listener p) (mp_server p)) (mp_servers p) (mp_draining p) (mp_open p) (mp_next p)"

definition management_handler_of :: "management_plane \<Rightarrow> management_handler option" where
  "management_handler_of p = Option.bind (mp_server p) (\<lambda>s. map_of (mp_handlers p) (hs_id s))"

definition credentials_of :: "authenticator \<Rightarrow> authentication" where
  "credentials_of a = \<lparr>au_username = at_username a, au_password = at_password a, au_session_ttl = at_ttl a\<rparr>"

definition management_follows :: "management_plane \<Rightarrow> config \<Rightarrow> bool" where
  "management_follows p cfg \<longleftrightarrow> mp_configured p = ls_management (cf_listeners cfg)
     \<and> map_option (\<lambda>h. (mh_address h, mh_stream h, credentials_of (mh_auth h))) (management_handler_of p)
       = Some (management_address p, mp_stream p, cf_auth cfg)"

definition traffic_settled :: "traffic_plane \<Rightarrow> bool" where
  "traffic_settled p \<longleftrightarrow> \<not> tp_locked p
     \<and> sockets_ok (current_server (tp_listener p) (tp_server p)) (tp_servers p) (tp_draining p) (tp_open p) (tp_next p)"

definition traffic_follows :: "traffic_plane \<Rightarrow> config \<Rightarrow> bool" where
  "traffic_follows p cfg \<longleftrightarrow> tp_configured p = ls_traffic (cf_listeners cfg) \<and> tp_cors p = cf_cors_enabled cfg"

definition udp_settled :: "udp_plane \<Rightarrow> bool" where
  "udp_settled p \<longleftrightarrow> \<not> upl_locked p \<and> distinct (upl_open p) \<and> set (upl_open p) = ln_id ` set_option (upl_listener p)
     \<and> set (upl_open p) \<subseteq> set (upl_receivers p) \<and> set (upl_receivers p) \<subseteq> {..<upl_next p}"

text \<open>Proxy sessions exist exactly while a listener runs in proxy mode, and reply through that listener.\<close>

definition udp_follows :: "udp_plane \<Rightarrow> config \<Rightarrow> bool" where
  "udp_follows p cfg \<longleftrightarrow> upl_config p = cf_udp cfg \<and> (upl_listener p \<noteq> None \<longleftrightarrow> udp_enabled (cf_udp cfg))
     \<and> upl_sessions p = new_sessions (upl_listener p) (Option.bind (upl_sessions p) um_upstream) (cf_udp cfg)"

lemma current_server_Some: "current_server l s = Some i \<longleftrightarrow> (\<exists>x y. l = Some x \<and> s = Some y \<and> ln_id x = i \<and> hs_id y = i)"
  by (auto simp: current_server_def split: option.splits)

lemma sockets_switch:
  assumes "sockets_ok (Some c) servers draining opened n"
  shows "sockets_ok (Some n) (n # servers) (c # draining) (n # opened) (n + 1)"
  using assms by (auto simp: sockets_ok_def)

lemma credentials_newAuthenticator [simp]: "credentials_of (newAuthenticator a) = a"
  by (simp add: credentials_of_def newAuthenticator_def)

subsection \<open>Management\<close>

lemma management_settled_server:
  assumes "management_settled p"
  obtains l s where "mp_listener p = Some l" and "mp_server p = Some s" and "ln_id l = hs_id s"
    and "sockets_ok (Some (hs_id s)) (mp_servers p) (mp_draining p) (mp_open p) (mp_next p)"
  using assms unfolding management_settled_def sockets_ok_def
  by (cases "current_server (mp_listener p) (mp_server p)") (auto simp: current_server_Some)

lemma unlocked_same:
  "\<not> mp_locked p \<Longrightarrow> p\<lparr>mp_locked := False\<rparr> = p"
  "\<not> tp_locked t \<Longrightarrow> t\<lparr>tp_locked := False\<rparr> = t"
  "\<not> upl_locked u \<Longrightarrow> u\<lparr>upl_locked := False\<rparr> = u"
  by (cases p, simp, cases t, simp, cases u, simp)

lemma management_prepare_cases:
  assumes "\<not> mp_locked p" and "management_prepare bind cfg p = (p', r)"
  obtains (refused) "r = None" and "p' = p"
  | (kept) plan where "r = Some plan" and "p' = p\<lparr>mp_locked := True\<rparr>" and "ml_listener plan = None" and "\<not> ml_completed plan"
      and "ml_config plan = cfg" and "ls_management (cf_listeners cfg) = mp_configured p"
      and "mr_listener (ml_result plan) = management_address p"
  | (bound) plan addr where "r = Some plan"
      and "p' = p\<lparr>mp_locked := True, mp_open := mp_next p # mp_open p, mp_next := mp_next p + 1\<rparr>"
      and "ml_listener plan = Some \<lparr>ln_id = mp_next p, ln_addr = addr\<rparr>" and "\<not> ml_completed plan" and "ml_config plan = cfg"
      and "mr_listener (ml_result plan) = addr"
proof (cases "mp_closed p")
  case True
  with assms(2) unlocked_same(1) [OF assms(1)] have "r = None \<and> p' = p" by (auto simp: management_prepare_def Let_def)
  then show ?thesis using refused by blast
next
  case open_plane: False
  show ?thesis
  proof (cases "ls_management (cf_listeners cfg) = mp_configured p")
    case True
    with open_plane assms(2) show ?thesis
      by (intro kept) (auto simp: management_prepare_def Let_def management_address_def)
  next
    case False
    show ?thesis
    proof (cases bind)
      case None
      with False open_plane assms(2) unlocked_same(1) [OF assms(1)] have "r = None \<and> p' = p"
        by (auto simp: management_prepare_def Let_def)
      then show ?thesis using refused by blast
    next
      case (Some addr)
      with False open_plane assms(2) show ?thesis
        by (intro bound) (auto simp: management_prepare_def Let_def management_listen_def)
    qed
  qed
qed

lemma channels_replace:
  assumes "channels_ok p" and "mp_channels q = mp_channels p + 1" and "mp_stream q = mp_channels p" and "\<not> mp_stream_closed q"
    and "mp_closes q = (if mp_stream_closed p then mp_closes p else mp_closes p @ [mp_stream p])"
  shows "channels_ok q"
  using assms by (auto simp: channels_ok_def subset_iff) (metis DiffI lessThan_iff less_SucE singletonD subsetD)+

lemma management_aborted:
  assumes "management_settled p" and "management_prepare bind cfg p = (p', Some plan)"
  shows "management_settled (snd (management_abort plan p'))
    \<and> (snd (management_abort plan p'))\<lparr>mp_next := 0\<rparr> = p\<lparr>mp_next := 0\<rparr>"
proof -
  have free: "\<not> mp_locked p" using assms(1) by (simp add: management_settled_def)
  show ?thesis
  proof (rule management_prepare_cases [OF free assms(2)])
    fix plan' assume "Some plan = Some plan'" "p' = p\<lparr>mp_locked := True\<rparr>" "ml_listener plan' = None" "\<not> ml_completed plan'"
    then have "snd (management_abort plan p') = p" using unlocked_same(1) [OF free] by (simp add: management_abort_def)
    with assms(1) show ?thesis by simp
  next
    fix plan' addr
    assume "Some plan = Some plan'" "p' = p\<lparr>mp_locked := True, mp_open := mp_next p # mp_open p, mp_next := mp_next p + 1\<rparr>"
      "ml_listener plan' = Some \<lparr>ln_id = mp_next p, ln_addr = addr\<rparr>" "\<not> ml_completed plan'"
    then have "snd (management_abort plan p') = p\<lparr>mp_next := mp_next p + 1\<rparr>"
      using unlocked_same(1) [of "p\<lparr>mp_next := mp_next p + 1\<rparr>"] free by (simp add: management_abort_def)
    with assms(1) show ?thesis by (auto simp: management_settled_def sockets_ok_def channels_ok_def)
  qed simp
qed

lemma management_activated:
  assumes "management_settled p" and "management_prepare bind cfg p = (p', Some plan)"
  shows "management_settled (snd (management_activate cfg plan p')) \<and> management_follows (snd (management_activate cfg plan p')) cfg"
proof -
  have free: "\<not> mp_locked p" and ch: "channels_ok p" using assms(1) by (simp_all add: management_settled_def)
  obtain l s where l: "mp_listener p = Some l" and s: "mp_server p = Some s" and ls: "ln_id l = hs_id s"
    and so: "sockets_ok (Some (hs_id s)) (mp_servers p) (mp_draining p) (mp_open p) (mp_next p)"
    using assms(1) by (rule management_settled_server)
  let ?q = "snd (management_activate cfg plan p')"
  show ?thesis
  proof (rule management_prepare_cases [OF free assms(2)])
    fix plan' assume a: "Some plan = Some plan'" "p' = p\<lparr>mp_locked := True\<rparr>" "ml_listener plan' = None" "\<not> ml_completed plan'"
      "ml_config plan' = cfg" "ls_management (cf_listeners cfg) = mp_configured p" "mr_listener (ml_result plan') = management_address p"
    have q: "mp_listener ?q = Some l" "mp_server ?q = Some s" "mp_servers ?q = mp_servers p" "mp_draining ?q = mp_draining p"
      "mp_open ?q = mp_open p" "mp_next ?q = mp_next p" "\<not> mp_locked ?q" "mp_configured ?q = ls_management (cf_listeners cfg)"
      "mp_handlers ?q = AList.update (hs_id s) (managementFactory cfg (management_address p) (mp_channels p)) (mp_handlers p)"
      "mp_stream ?q = mp_channels p"
      using a l s by (simp_all add: management_activate_def Let_def close_stream_def)
    have "channels_ok ?q"
      by (rule channels_replace [OF ch]) (use a s in \<open>simp_all add: management_activate_def Let_def close_stream_def\<close>)
    then show ?thesis
      using q so ls l by (simp add: management_settled_def current_server_def management_follows_def management_handler_of_def
        update_conv' managementFactory_def management_address_def)
  next
    fix plan' addr
    assume a: "Some plan = Some plan'" "p' = p\<lparr>mp_locked := True, mp_open := mp_next p # mp_open p, mp_next := mp_next p + 1\<rparr>"
      "ml_listener plan' = Some \<lparr>ln_id = mp_next p, ln_addr = addr\<rparr>" "\<not> ml_completed plan'" "ml_config plan' = cfg"
      "mr_listener (ml_result plan') = addr"
    have q: "mp_listener ?q = Some \<lparr>ln_id = mp_next p, ln_addr = addr\<rparr>" "mp_server ?q = Some (newManagementServer cfg (mp_next p))"
      "mp_servers ?q = mp_next p # mp_servers p" "mp_draining ?q = hs_id s # mp_draining p"
      "mp_open ?q = mp_next p # mp_open p" "mp_next ?q = mp_next p + 1" "\<not> mp_locked ?q" "mp_configured ?q = ls_management (cf_listeners cfg)"
      "mp_handlers ?q = AList.update (mp_next p) (managementFactory cfg addr (mp_channels p)) (mp_handlers p)"
      "mp_stream ?q = mp_channels p"
      using a s by (simp_all add: management_activate_def Let_def close_stream_def)
    have "channels_ok ?q"
      by (rule channels_replace [OF ch]) (use a s in \<open>simp_all add: management_activate_def Let_def close_stream_def\<close>)
    then show ?thesis
      using q sockets_switch [OF so] by (simp add: management_settled_def current_server_def management_follows_def management_handler_of_def
        update_conv' managementFactory_def management_address_def newManagementServer_def)
  qed simp
qed

interpretation management: reload_plane management_settled management_follows "\<lambda>p. p\<lparr>mp_next := 0\<rparr>"
  managementSettingsChanged management_prepare management_activate management_abort
proof
  show "p' = p" if "management_settled p" "management_prepare e cfg p = (p', None)" for p e cfg p'
    using that by (auto simp: management_settled_def elim: management_prepare_cases)
  show "management_follows p cfg \<longleftrightarrow> management_follows q cfg" if "p\<lparr>mp_next := 0\<rparr> = q\<lparr>mp_next := 0\<rparr>" for p q cfg
    using that by (cases p; cases q) (simp add: management_follows_def management_handler_of_def management_address_def)
  show "management_settled (snd (management_abort l p')) \<and> (snd (management_abort l p'))\<lparr>mp_next := 0\<rparr> = p\<lparr>mp_next := 0\<rparr>"
    if "management_settled p" "management_prepare e cfg p = (p', Some l)" for p e cfg p' l
    using that by (rule management_aborted)
  show "management_settled (snd (management_activate cfg l p')) \<and> management_follows (snd (management_activate cfg l p')) cfg"
    if "management_settled p" "management_prepare e cfg p = (p', Some l)" for p e cfg p' l
    using that by (rule management_activated)
qed (auto simp: management_abort_def management_activate_def Let_def management_follows_def managementSettingsChanged_def)

subsection \<open>Traffic\<close>

lemma traffic_prepare_cases:
  assumes "\<not> tp_locked p" and "traffic_prepare bind cfg p = (p', r)"
  obtains (refused) "r = None" and "p' = p"
  | (kept) plan where "r = Some plan" and "p' = p\<lparr>tp_locked := True\<rparr>" and "tl_listener plan = None" and "\<not> tl_completed plan"
      and "tl_config plan = cfg" and "ls_traffic (cf_listeners cfg) = tp_configured p"
  | (bound) plan addr where "r = Some plan"
      and "p' = p\<lparr>tp_locked := True, tp_open := tp_next p # tp_open p, tp_next := tp_next p + 1\<rparr>"
      and "tl_listener plan = Some \<lparr>ln_id = tp_next p, ln_addr = addr\<rparr>" and "\<not> tl_completed plan" and "tl_config plan = cfg"
proof (cases "tp_closed p")
  case True
  with assms(2) unlocked_same(2) [OF assms(1)] have "r = None \<and> p' = p" by (auto simp: traffic_prepare_def Let_def)
  then show ?thesis using refused by blast
next
  case open_plane: False
  show ?thesis
  proof (cases "ls_traffic (cf_listeners cfg) = tp_configured p")
    case True
    with open_plane assms(2) show ?thesis by (intro kept) (auto simp: traffic_prepare_def Let_def)
  next
    case False
    show ?thesis
    proof (cases bind)
      case None
      with False open_plane assms(2) unlocked_same(2) [OF assms(1)] have "r = None \<and> p' = p"
        by (auto simp: traffic_prepare_def Let_def)
      then show ?thesis using refused by blast
    next
      case (Some addr)
      with False open_plane assms(2) show ?thesis
        by (intro bound) (auto simp: traffic_prepare_def Let_def traffic_listen_def)
    qed
  qed
qed

lemma traffic_aborted:
  assumes "traffic_settled p" and "traffic_prepare bind cfg p = (p', Some plan)"
  shows "traffic_settled (snd (traffic_abort plan p'))
    \<and> (snd (traffic_abort plan p'))\<lparr>tp_next := 0\<rparr> = p\<lparr>tp_next := 0\<rparr>"
proof -
  have free: "\<not> tp_locked p" using assms(1) by (simp add: traffic_settled_def)
  show ?thesis
  proof (rule traffic_prepare_cases [OF free assms(2)])
    fix plan' assume "Some plan = Some plan'" "p' = p\<lparr>tp_locked := True\<rparr>" "tl_listener plan' = None" "\<not> tl_completed plan'"
    then have "snd (traffic_abort plan p') = p" using unlocked_same(2) [OF free] by (simp add: traffic_abort_def)
    with assms(1) show ?thesis by simp
  next
    fix plan' addr
    assume "Some plan = Some plan'" "p' = p\<lparr>tp_locked := True, tp_open := tp_next p # tp_open p, tp_next := tp_next p + 1\<rparr>"
      "tl_listener plan' = Some \<lparr>ln_id = tp_next p, ln_addr = addr\<rparr>" "\<not> tl_completed plan'"
    then have "snd (traffic_abort plan p') = p\<lparr>tp_next := tp_next p + 1\<rparr>"
      using unlocked_same(2) [of "p\<lparr>tp_next := tp_next p + 1\<rparr>"] free by (simp add: traffic_abort_def)
    with assms(1) show ?thesis by (auto simp: traffic_settled_def sockets_ok_def)
  qed simp
qed

lemma traffic_activated:
  assumes "traffic_settled p" and "traffic_prepare bind cfg p = (p', Some plan)"
  shows "traffic_settled (snd (traffic_activate plan p')) \<and> traffic_follows (snd (traffic_activate plan p')) cfg"
proof -
  have free: "\<not> tp_locked p" using assms(1) by (simp add: traffic_settled_def)
  show ?thesis
  proof (rule traffic_prepare_cases [OF free assms(2)])
    fix plan' assume "Some plan = Some plan'" "p' = p\<lparr>tp_locked := True\<rparr>" "tl_listener plan' = None" "\<not> tl_completed plan'"
      "tl_config plan' = cfg" "ls_traffic (cf_listeners cfg) = tp_configured p"
    with assms(1) show ?thesis by (simp add: traffic_activate_def Let_def traffic_settled_def traffic_follows_def)
  next
    fix plan' addr
    assume a: "Some plan = Some plan'" "p' = p\<lparr>tp_locked := True, tp_open := tp_next p # tp_open p, tp_next := tp_next p + 1\<rparr>"
      "tl_listener plan' = Some \<lparr>ln_id = tp_next p, ln_addr = addr\<rparr>" "\<not> tl_completed plan'" "tl_config plan' = cfg"
    obtain s where s: "tp_server p = Some s"
      and so: "sockets_ok (Some (hs_id s)) (tp_servers p) (tp_draining p) (tp_open p) (tp_next p)"
      using assms(1) unfolding traffic_settled_def sockets_ok_def
      by (cases "current_server (tp_listener p) (tp_server p)") (auto simp: current_server_Some)
    show ?thesis
      using a s sockets_switch [OF so]
      by (simp add: traffic_activate_def Let_def traffic_serve_on_def traffic_settled_def traffic_follows_def
          current_server_def newTrafficServer_def)
  qed simp
qed

interpretation traffic: reload_plane traffic_settled traffic_follows "\<lambda>p. p\<lparr>tp_next := 0\<rparr>"
  trafficSettingsChanged traffic_prepare "\<lambda>_. traffic_activate" traffic_abort
proof
  show "p' = p" if "traffic_settled p" "traffic_prepare e cfg p = (p', None)" for p e cfg p'
    using that by (auto simp: traffic_settled_def elim: traffic_prepare_cases)
  show "traffic_settled (snd (traffic_abort l p')) \<and> (snd (traffic_abort l p'))\<lparr>tp_next := 0\<rparr> = p\<lparr>tp_next := 0\<rparr>"
    if "traffic_settled p" "traffic_prepare e cfg p = (p', Some l)" for p e cfg p' l
    using that by (rule traffic_aborted)
  show "traffic_settled (snd (traffic_activate l p')) \<and> traffic_follows (snd (traffic_activate l p')) cfg"
    if "traffic_settled p" "traffic_prepare e cfg p = (p', Some l)" for p e cfg p' l
    using that by (rule traffic_activated)
  show "traffic_follows p cfg \<longleftrightarrow> traffic_follows q cfg" if "p\<lparr>tp_next := 0\<rparr> = q\<lparr>tp_next := 0\<rparr>" for p q cfg
    using that by (cases p; cases q) (simp add: traffic_follows_def)
qed (auto simp: traffic_abort_def traffic_activate_def Let_def traffic_follows_def trafficSettingsChanged_def)

subsection \<open>UDP\<close>

lemma udp_prepare_cases:
  assumes "\<not> upl_locked p" and "udp_prepare env cfg p = (p', r)"
  obtains (refused) "r = None" and "p' = p"
  | (kept) plan where "r = Some plan" and "p' = p\<lparr>upl_locked := True\<rparr>" and "ul_listener plan = None" and "\<not> ul_completed plan"
      and "ul_config plan = cf_udp cfg" and "udp_enabled (cf_udp cfg) \<longrightarrow> upl_listener p \<noteq> None"
  | (bound) plan addr where "r = Some plan" and "udp_enabled (cf_udp cfg)"
      and "p' = p\<lparr>upl_locked := True, upl_open := upl_next p # upl_open p, upl_next := upl_next p + 1\<rparr>"
      and "ul_listener plan = Some \<lparr>ln_id = upl_next p, ln_addr = addr\<rparr>" and "\<not> ul_completed plan" and "ul_config plan = cf_udp cfg"
proof -
  have refuse: thesis if "udp_prepare env cfg p = (p\<lparr>upl_locked := True\<rparr>\<lparr>upl_locked := False\<rparr>, None)"
    using that assms unlocked_same(3) [OF assms(1)] refused by simp
  show ?thesis
  proof (cases "upl_closed p")
    case True
    then show ?thesis by (intro refuse) (simp add: udp_prepare_def Let_def)
  next
    case open_plane: False
    show ?thesis
    proof (cases "udp_enabled (cf_udp cfg)")
      case False
      with open_plane assms(2) show ?thesis by (intro kept) (auto simp: udp_prepare_def Let_def)
    next
      case enabled: True
      show ?thesis
      proof (cases "resolveUDPUpstream (fst env) (cf_udp cfg)")
        case (Inl e)
        with open_plane enabled show ?thesis by (intro refuse) (simp add: udp_prepare_def Let_def)
      next
        case resolved: (Inr target)
        show ?thesis
        proof (cases "upl_listener p = None \<or> udp_listen (upl_config p) \<noteq> udp_listen (cf_udp cfg)")
          case False
          with open_plane enabled resolved assms(2) show ?thesis by (intro kept) (auto simp: udp_prepare_def Let_def)
        next
          case rebind: True
          show ?thesis
          proof (cases "snd env")
            case None
            with open_plane enabled resolved rebind show ?thesis by (intro refuse) (auto simp: udp_prepare_def Let_def)
          next
            case (Some addr)
            with open_plane enabled resolved rebind assms(2) show ?thesis
              by (intro bound) (auto simp: udp_prepare_def Let_def udp_listen_on_def)
          qed
        qed
      qed
    qed
  qed
qed

lemma udp_aborted:
  assumes "udp_settled p" and "udp_prepare env cfg p = (p', Some plan)"
  shows "udp_settled (snd (udp_abort plan p')) \<and> (snd (udp_abort plan p'))\<lparr>upl_next := 0\<rparr> = p\<lparr>upl_next := 0\<rparr>"
proof -
  have free: "\<not> upl_locked p" using assms(1) by (simp add: udp_settled_def)
  show ?thesis
  proof (rule udp_prepare_cases [OF free assms(2)])
    fix plan' assume "Some plan = Some plan'" "p' = p\<lparr>upl_locked := True\<rparr>" "ul_listener plan' = None" "\<not> ul_completed plan'"
    then have "snd (udp_abort plan p') = p" using unlocked_same(3) [OF free] by (simp add: udp_abort_def)
    with assms(1) show ?thesis by simp
  next
    fix plan' addr
    assume "Some plan = Some plan'" "p' = p\<lparr>upl_locked := True, upl_open := upl_next p # upl_open p, upl_next := upl_next p + 1\<rparr>"
      "ul_listener plan' = Some \<lparr>ln_id = upl_next p, ln_addr = addr\<rparr>" "\<not> ul_completed plan'"
    then have "snd (udp_abort plan p') = p\<lparr>upl_next := upl_next p + 1\<rparr>"
      using unlocked_same(3) [of "p\<lparr>upl_next := upl_next p + 1\<rparr>"] free by (simp add: udp_abort_def)
    with assms(1) show ?thesis by (auto simp: udp_settled_def)
  qed simp
qed

lemma new_sessions_again: "new_sessions l (Option.bind (new_sessions l t c) um_upstream) c = new_sessions l t c"
  by (simp add: new_sessions_def split: option.splits)

lemma udp_open_one:
  assumes "udp_settled p"
  shows "upl_open p = (case upl_listener p of None \<Rightarrow> [] | Some l \<Rightarrow> [ln_id l])"
proof (cases "upl_listener p")
  case (Some l)
  with assms have "set (upl_open p) = {ln_id l}" and "distinct (upl_open p)" by (simp_all add: udp_settled_def)
  then have "upl_open p = [ln_id l]"
    by (cases "upl_open p") (auto simp: subset_singleton_iff insert_eq_iff)
  with Some show ?thesis by simp
qed (use assms in \<open>simp add: udp_settled_def\<close>)

lemma udp_activated:
  assumes "udp_settled p" and "udp_prepare env cfg p = (p', Some plan)"
  shows "udp_settled (snd (udp_activate plan p')) \<and> udp_follows (snd (udp_activate plan p')) cfg"
proof -
  have free: "\<not> upl_locked p" and d: "distinct (upl_open p)" and opened: "set (upl_open p) = ln_id ` set_option (upl_listener p)"
    and r: "set (upl_open p) \<subseteq> set (upl_receivers p)" "set (upl_receivers p) \<subseteq> {..<upl_next p}"
    using assms(1) unfolding udp_settled_def by blast+
  note one = udp_open_one [OF assms(1)]
  show ?thesis
  proof (rule udp_prepare_cases [OF free assms(2)])
    fix plan' assume a: "Some plan = Some plan'" "p' = p\<lparr>upl_locked := True\<rparr>" "ul_listener plan' = None" "\<not> ul_completed plan'"
      "ul_config plan' = cf_udp cfg" "udp_enabled (cf_udp cfg) \<longrightarrow> upl_listener p \<noteq> None"
    show ?thesis
      using a one r by (cases "upl_listener p"; cases "udp_enabled (cf_udp cfg)")
        (simp_all add: udp_activate_def Let_def udp_settled_def udp_follows_def new_sessions_again)
  next
    fix plan' addr
    assume a: "Some plan = Some plan'" "udp_enabled (cf_udp cfg)"
      "p' = p\<lparr>upl_locked := True, upl_open := upl_next p # upl_open p, upl_next := upl_next p + 1\<rparr>"
      "ul_listener plan' = Some \<lparr>ln_id = upl_next p, ln_addr = addr\<rparr>" "\<not> ul_completed plan'" "ul_config plan' = cf_udp cfg"
    have fresh: "upl_listener p = Some l \<Longrightarrow> ln_id l \<noteq> upl_next p" for l using one r by auto
    show ?thesis
      using a one r fresh by (cases "upl_listener p")
        (auto simp: udp_activate_def Let_def udp_settled_def udp_follows_def new_sessions_again)
  qed simp
qed

interpretation udp: reload_plane udp_settled udp_follows "\<lambda>p. p\<lparr>upl_next := 0\<rparr>"
  udpSettingsChanged udp_prepare "\<lambda>_. udp_activate" udp_abort
proof
  show "p' = p" if "udp_settled p" "udp_prepare e cfg p = (p', None)" for p e cfg p'
    using that by (auto simp: udp_settled_def elim: udp_prepare_cases)
  show "udp_settled (snd (udp_abort l p')) \<and> (snd (udp_abort l p'))\<lparr>upl_next := 0\<rparr> = p\<lparr>upl_next := 0\<rparr>"
    if "udp_settled p" "udp_prepare e cfg p = (p', Some l)" for p e cfg p' l
    using that by (rule udp_aborted)
  show "udp_settled (snd (udp_activate l p')) \<and> udp_follows (snd (udp_activate l p')) cfg"
    if "udp_settled p" "udp_prepare e cfg p = (p', Some l)" for p e cfg p' l
    using that by (rule udp_activated)
  show "udp_follows p cfg \<longleftrightarrow> udp_follows q cfg" if "p\<lparr>upl_next := 0\<rparr> = q\<lparr>upl_next := 0\<rparr>" for p q cfg
    using that by (cases p; cases q) (simp add: udp_follows_def)
qed (auto simp: udp_abort_def udp_activate_def Let_def udp_follows_def udpSettingsChanged_def)

end
