(* ===== verification/Body_Range.thy ===== *)
theory Body_Range
  imports Go_Text
begin

text \<open>
  Byte ranges of \<open>internal/httpapi/input.go\<close> and the body responses of
  \<open>internal/httpapi/exchanges.go\<close>. A response is its status, the headers that depend on the body
  and the range, and its body; for an error the body is the error code.
\<close>

record byte_range =
  br_start :: int
  br_end :: int

text \<open>\<open>None\<close> is the error; its text is not used.\<close>

definition parseRange :: "string \<Rightarrow> int \<Rightarrow> byte_range option" where
  "parseRange value len =
     (if len < 0 \<or> \<not> has_prefix ''bytes='' value \<or> CHR '','' \<in> set value then None
      else case cut_on (CHR ''-'') (trim_prefix ''bytes='' value) of
          None \<Rightarrow> None
        | Some (first, second) \<Rightarrow>
            if first = [] \<and> second = [] then None
            else if first = [] then
              (case parse_i64 second of
                 None \<Rightarrow> None
               | Some suffix \<Rightarrow> if suffix \<le> 0 \<or> len = 0 then None
                   else Some \<lparr>br_start = len - (if suffix > len then len else suffix), br_end = len - 1\<rparr>)
            else
              (case parse_i64 first of
                 None \<Rightarrow> None
               | Some start \<Rightarrow>
                   if start < 0 \<or> start \<ge> len then None
                   else if second = [] then Some \<lparr>br_start = start, br_end = len - 1\<rparr>
                   else (case parse_i64 second of
                       None \<Rightarrow> None
                     | Some end1 \<Rightarrow> if end1 < start then None
                         else Some \<lparr>br_start = start, br_end = (if end1 \<ge> len then len - 1 else end1)\<rparr>)))"

definition contentRange :: "byte_range \<Rightarrow> int \<Rightarrow> string" where
  "contentRange selected len =
     ''bytes '' @ format_int (br_start selected) @ ''-'' @ format_int (br_end selected) @ ''/'' @ format_int len"

record body_response =
  bo_status :: int
  bo_filename :: string
  bo_content_range :: "string option"
  bo_content_length :: "string option"
  bo_error :: "string option"
  bo_data :: bytes

text \<open>\<open>strings.Map\<close> on an ASCII name.\<close>

definition safeFilename :: "string \<Rightarrow> string" where
  "safeFilename value = map (\<lambda>c. if is_lower c \<or> is_upper c \<or> is_digit c \<or> c = CHR ''-'' \<or> c = CHR ''.'' then c else CHR ''_'') value"

text \<open>\<open>raw\<close> is the value of the \<open>Range\<close> header, empty when there is none.\<close>

definition writeBody :: "string \<Rightarrow> string \<Rightarrow> bytes \<Rightarrow> body_response" where
  "writeBody raw filename body =
     (let len = int (length body);
          answer = \<lparr>bo_status = 200, bo_filename = safeFilename filename, bo_content_range = None,
            bo_content_length = None, bo_error = None, bo_data = []\<rparr>
      in if body = [] then
           (if raw \<noteq> [] then
              answer\<lparr>bo_status := 416, bo_content_range := Some ''bytes */0'', bo_error := Some ''range_not_satisfiable''\<rparr>
            else answer\<lparr>bo_content_length := Some ''0''\<rparr>)
         else
           (case (if raw = [] then Some \<lparr>br_start = 0, br_end = len - 1\<rparr> else parseRange raw len) of
              None \<Rightarrow> answer\<lparr>bo_status := 416, bo_content_range := Some (''bytes */'' @ format_int len),
                bo_error := Some ''range_not_satisfiable''\<rparr>
            | Some selected \<Rightarrow>
                let data = take (nat (br_end selected + 1) - nat (br_start selected)) (drop (nat (br_start selected)) body)
                in answer\<lparr>bo_status := (if raw = [] then 200 else 206),
                     bo_content_range := (if raw = [] then None else Some (contentRange selected len)),
                     bo_content_length := Some (format_int (int (length data))), bo_data := data\<rparr>))"

section \<open>Lemmas\<close>

lemma parseRange_bounds:
  assumes "parseRange value len = Some r"
  shows "0 \<le> br_start r" and "br_start r \<le> br_end r" and "br_end r < len"
  using assms by (auto simp: parseRange_def not_le split: if_splits option.splits)

lemma format_int_plain: "0 \<le> i \<Longrightarrow> CHR ''-'' \<notin> set (format_int i) \<and> CHR '','' \<notin> set (format_int i) \<and> format_int i \<noteq> []"
  by (simp add: format_int_def format_nat_no_dash)

lemma parseRange_closed:
  assumes "0 \<le> first" and "first \<le> final" and "first < len" and "in_i64 final"
  shows "parseRange (''bytes='' @ format_int first @ ''-'' @ format_int final) len
    = Some \<lparr>br_start = first, br_end = min final (len - 1)\<rparr>"
proof -
  have plain: "CHR ''-'' \<notin> set (format_int first)" "CHR '','' \<notin> set (format_int first)" "CHR '','' \<notin> set (format_int final)"
    "format_int first \<noteq> []" "format_int final \<noteq> []"
    using format_int_plain assms(1,2) by auto
  have "in_i64 first" using assms(1,2,4) by (auto simp: in_i64_def min_i64_def)
  note parsed = parse_i64_format [OF this] parse_i64_format [OF assms(4)]
  have "trim_prefix ''bytes='' (''bytes='' @ format_int first @ ''-'' @ format_int final) = format_int first @ CHR ''-'' # format_int final"
    unfolding trim_prefix_append by simp
  moreover have "CHR '','' \<notin> set (''bytes='' @ format_int first @ ''-'' @ format_int final)" using plain by simp
  ultimately show ?thesis
    unfolding parseRange_def using assms(1-3) plain parsed cut_on_append [OF plain(1), of "format_int final"]
    by (simp add: has_prefix_append)
qed

lemma parseRange_suffix:
  assumes "0 < n" and "0 < len" and "in_i64 n"
  shows "parseRange (''bytes=-'' @ format_int n) len = Some \<lparr>br_start = len - min n len, br_end = len - 1\<rparr>"
proof -
  have plain: "CHR '','' \<notin> set (format_int n)" "format_int n \<noteq> []" using format_int_plain assms(1) by auto
  have "trim_prefix ''bytes='' (''bytes=-'' @ format_int n) = [] @ CHR ''-'' # format_int n"
    using trim_prefix_append [of "''bytes=''" "''-'' @ format_int n"] by simp
  moreover have "has_prefix ''bytes='' (''bytes=-'' @ format_int n)" by simp
  moreover have "CHR '','' \<notin> set (''bytes=-'' @ format_int n)" using plain(1) by simp
  ultimately show ?thesis
    unfolding parseRange_def using assms(1,2) plain(2) parse_i64_format [OF assms(3)]
      cut_on_append [of "CHR ''-''" "[]" "format_int n"] by simp
qed

text \<open>Signs are accepted inside a range, which RFC 9110 does not allow.\<close>

lemma signed_range_accepted: "parseRange ''bytes=+1-+3'' 10 = Some \<lparr>br_start = 1, br_end = 3\<rparr>"
  by code_simp

lemma writeBody_unsatisfiable:
  "body \<noteq> [] \<Longrightarrow> raw \<noteq> [] \<Longrightarrow> parseRange raw (int (length body)) = None \<Longrightarrow>
    bo_status (writeBody raw filename body) = 416 \<and> bo_data (writeBody raw filename body) = []"
  by (simp add: writeBody_def)

section \<open>Properties\<close>

text \<open>
  Whatever the client sends as a range, the answer is honest about the body: without an error
  the data is exactly the part of the body that the positions in \<open>Content-Range\<close> name (the whole
  body without a range), the positions lie inside the body, and \<open>Content-Length\<close> is the length of
  the data; with an error no byte of the body is sent.
\<close>

theorem body_response_honest:
  "case bo_error (writeBody raw filename body) of
     Some code \<Rightarrow> bo_status (writeBody raw filename body) = 416 \<and> bo_data (writeBody raw filename body) = []
   | None \<Rightarrow> bo_content_length (writeBody raw filename body) = Some (format_int (int (length (bo_data (writeBody raw filename body)))))
       \<and> (if raw = [] then bo_status (writeBody raw filename body) = 200 \<and> bo_data (writeBody raw filename body) = body
          else \<exists>a b. a \<le> b \<and> b < length body \<and> bo_status (writeBody raw filename body) = 206
            \<and> bo_data (writeBody raw filename body) = take (b + 1 - a) (drop a body)
            \<and> bo_content_range (writeBody raw filename body) =
                Some (contentRange \<lparr>br_start = int a, br_end = int b\<rparr> (int (length body))))"
proof (cases "body = []")
  case True
  have "format_int 0 = ''0''" by code_simp
  with True show ?thesis by (simp add: writeBody_def)
next
  case False
  show ?thesis
  proof (cases "raw = []")
    case True
    have "nat (int (length body) - 1 + 1) = length body" by simp
    with True False show ?thesis by (simp add: writeBody_def)
  next
    case ranged: False
    show ?thesis
    proof (cases "parseRange raw (int (length body))")
      case None
      with False ranged show ?thesis by (simp add: writeBody_def)
    next
      case (Some r)
      note b = parseRange_bounds [OF Some]
      define lo where "lo = nat (br_start r)"
      define hi where "hi = nat (br_end r)"
      have r: "r = \<lparr>br_start = int lo, br_end = int hi\<rparr>" "nat (br_end r + 1) = hi + 1" "lo \<le> hi" "hi < length body"
        using b by (auto simp: lo_def hi_def)
      show ?thesis
        unfolding if_not_P [OF ranged]
        using False ranged Some r
        by (simp add: writeBody_def Let_def) (rule exI [of _ lo], rule exI [of _ hi], simp)
    qed
  qed
qed

text \<open>
  The standard forms of a range select what they name: \<open>bytes=a-b\<close> with \<open>a\<close> inside the body the
  bytes \<open>a\<close> to \<open>b\<close> (cut at the end of the body), \<open>bytes=-n\<close> the last \<open>n\<close> bytes.
\<close>

theorem standard_ranges_select:
  assumes "a \<le> b" and "a < length body" and "0 < n" and "in_i64 (int b)" and "in_i64 (int n)"
  shows "bo_data (writeBody (''bytes='' @ format_int (int a) @ ''-'' @ format_int (int b)) filename body) = take (b + 1 - a) (drop a body)
    \<and> bo_data (writeBody (''bytes=-'' @ format_int (int n)) filename body) = drop (length body - n) body"
proof -
  have ne: "body \<noteq> []" using assms(2) by auto
  have "bo_data (writeBody (''bytes='' @ format_int (int a) @ ''-'' @ format_int (int b)) filename body)
      = take (nat (min (int b) (int (length body) - 1) + 1) - a) (drop a body)"
    using parseRange_closed [of "int a" "int b" "int (length body)"] assms ne by (simp add: writeBody_def Let_def)
  moreover have "take (nat (min (int b) (int (length body) - 1) + 1) - a) (drop a body) = take (b + 1 - a) (drop a body)"
  proof (cases "b < length body")
    case True
    then have "nat (min (int b) (int (length body) - 1) + 1) = b + 1" by simp
    then show ?thesis by (simp only:)
  next
    case False
    then have "nat (min (int b) (int (length body) - 1) + 1) = length body" by simp
    with False show ?thesis by simp
  qed
  moreover have "bo_data (writeBody (''bytes=-'' @ format_int (int n)) filename body) = drop (length body - n) body"
  proof -
    have "0 < int (length body)" using ne by simp
    from parseRange_suffix [OF _ this assms(5)] assms(3) ne have
      "bo_data (writeBody (''bytes=-'' @ format_int (int n)) filename body)
        = take (length body - nat (int (length body) - min (int n) (int (length body)))) (drop (nat (int (length body) - min (int n) (int (length body)))) body)"
      by (simp add: writeBody_def Let_def)
    moreover have "nat (int (length body) - min (int n) (int (length body))) = length body - n" by (simp add: min_def nat_diff_distrib)
    ultimately show ?thesis by simp
  qed
  ultimately show ?thesis by simp
qed

theorem standard_ranges_select_witness:
  "bo_data (writeBody (''bytes='' @ format_int (int 2) @ ''-'' @ format_int (int 9)) ''f'' ''hello'') = ''llo''
    \<and> bo_data (writeBody (''bytes=-'' @ format_int (int 2)) ''f'' ''hello'') = ''lo''"
  using standard_ranges_select [of 2 9 "''hello''" 2 "''f''"] by (simp add: in_i64_def min_i64_def max_i64_def)

end
