(* ===== verification/History_Page.thy ===== *)
theory History_Page
  imports Memory_Store Sqlite_Rows Event_Bus Body_Range
begin

text \<open>
  The history API of \<open>internal/httpapi/exchanges.go\<close>: the pages over the RAM history and the SQLite
  rows, one exchange, its bodies, clearing and deleting.

  A handler is a function of the request's parameters and of the state; a \<open>api_result\<close> is the
  error status and code it writes, or the value it encodes. Statements of the database that fail
  are arguments (\<open>faults\<close>). The cursor text is decoded and encoded outside the model
  (\<open>decodeCursor\<close>, \<open>encodeCursor\<close>): a request has no cursor, one that does not decode, or a boundary.
\<close>

datatype 'a api_result = ApiError int string | ApiOk 'a

record cursor_boundary =
  cb_completed :: int
  cb_id :: string

datatype cursor_parameter = NoCursor | BadCursor | Cursor cursor_boundary

record faults =
  fl_contains :: bool
  fl_list :: bool
  fl_get :: bool
  fl_body :: bool
  fl_wait :: bool
  fl_delete :: bool

section \<open>Summaries\<close>

record exchange_summary =
  es_transport :: transport
  es_id :: string
  es_mode :: string
  es_state :: xstate
  es_revision :: u64
  es_config_revision :: u64
  es_started :: gotime
  es_completed :: "gotime option"
  es_method :: string
  es_path :: string
  es_request_bytes :: int
  es_response_bytes :: int
  es_response_status :: int
  es_duration_ns :: int
  es_request_preview :: bytes
  es_preview_truncated :: bool
  es_error :: "exchange_error option"
  es_source :: string
  es_local :: string
  es_datagram_bytes :: int
  es_discard_reason :: string

definition summary :: "exchange \<Rightarrow> exchange_summary" where
  "summary e =
     (let r = ex_request e;
          requestBytes = (if length (rq_body r) = 0 \<and> rq_observed r > 0 then rq_observed r else int (length (rq_body r)));
          responseBytes = (case ex_response e of None \<Rightarrow> 0
            | Some p \<Rightarrow> if length (rs_body p) = 0 then rs_observed p else int (length (rs_body p)));
          s = \<lparr>es_transport = ex_transport e, es_id = ex_id e, es_mode = ex_mode e, es_state = ex_state e,
            es_revision = ex_revision e, es_config_revision = ex_config_revision e, es_started = ex_started e,
            es_completed = (if is_zero (ex_completed e) then None else Some (ex_completed e)),
            es_method = rq_method r, es_path = rq_path r, es_request_bytes = requestBytes,
            es_response_bytes = responseBytes,
            es_response_status = (case ex_response e of None \<Rightarrow> 0 | Some p \<Rightarrow> rs_status p),
            es_duration_ns = ex_duration e, es_request_preview = rq_preview r,
            es_preview_truncated = rq_preview_truncated r, es_error = ex_error e,
            es_source = [], es_local = [], es_datagram_bytes = 0, es_discard_reason = []\<rparr>
      in case (ex_transport e, ex_datagram e) of
           (TransportUDP, Some d) \<Rightarrow> s\<lparr>es_source := dg_source d, es_local := dg_local d, es_datagram_bytes := dg_accepted d,
             es_discard_reason := dg_discard_reason d, es_method := [], es_path := [], es_request_preview := []\<rparr>
         | _ \<Rightarrow> s)"

definition summarize :: "exchange list \<Rightarrow> exchange_summary list" where
  "summarize items = map summary items"

section \<open>Pages\<close>

definition olderThan :: "exchange list \<Rightarrow> cursor_boundary option \<Rightarrow> exchange list" where
  "olderThan items bnd = (case bnd of
     None \<Rightarrow> items
   | Some b \<Rightarrow> filter (\<lambda>e. unix_nano (ordering_time e) < cb_completed b
       \<or> unix_nano (ordering_time e) = cb_completed b \<and> ex_id e < cb_id b) items)"

definition sqliteBoundary :: "cursor_boundary \<Rightarrow> boundary" where
  "sqliteBoundary c = \<lparr>bnd_completed = time_of_unix_nano (cb_completed c), bnd_id = cb_id c\<rparr>"

text \<open>The first occurrence of every ID.\<close>

fun unseen :: "string list \<Rightarrow> exchange list \<Rightarrow> exchange list" where
  "unseen seen [] = []"
| "unseen seen (e # es) = (if ex_id e \<in> set seen then unseen seen es else e # unseen (ex_id e # seen) es)"

definition mergeExchanges :: "exchange list \<Rightarrow> exchange list \<Rightarrow> exchange list" where
  "mergeExchanges ram persisted = sort_newest_first (unseen [] (ram @ persisted))"

definition cursorIndex :: "exchange list \<Rightarrow> cursor_boundary \<Rightarrow> bool" where
  "cursorIndex items c \<longleftrightarrow> list_ex (\<lambda>e. ex_id e = cb_id c \<and> unix_nano (ordering_time e) = cb_completed c) items"

record history_page =
  hp_page :: "exchange list"
  hp_items :: "exchange_summary list"
  hp_next :: "cursor_boundary option"
  hp_more :: bool

text \<open>The items after the boundary: from RAM, and merged with SQLite when it is there.\<close>

definition page_items :: "memory \<Rightarrow> database option \<Rightarrow> cursor_boundary option \<Rightarrow> int \<Rightarrow> exchange list \<times> bool" where
  "page_items m db bnd limit =
     (let items = olderThan (List_items m) bnd
      in case db of
           None \<Rightarrow> (items, False)
         | Some d \<Rightarrow>
             let (persisted, more) = List_rows d (map_option sqliteBoundary bnd) (limit + int (length items))
             in (mergeExchanges items persisted, more))"

definition build_page :: "exchange list \<times> bool \<Rightarrow> int \<Rightarrow> history_page" where
  "build_page merged limit =
     (let items = fst merged; hasMore = (snd merged \<or> int (length items) > limit); page = take (nat limit) items
      in \<lparr>hp_page = page, hp_items = summarize page,
          hp_next = (if hasMore \<and> page \<noteq> []
            then Some \<lparr>cb_completed = unix_nano (ordering_time (last page)), cb_id = ex_id (last page)\<rparr> else None),
          hp_more = hasMore\<rparr>)"

definition parse_limit :: "string \<Rightarrow> int option" where
  "parse_limit raw =
     (if raw = [] then Some 50
      else case parse_i64 raw of None \<Rightarrow> None | Some n \<Rightarrow> if n < 1 \<or> n > 200 then None else Some n)"

definition exchanges :: "faults \<Rightarrow> memory \<Rightarrow> database option \<Rightarrow> string \<Rightarrow> cursor_parameter \<Rightarrow> history_page api_result" where
  "exchanges f m db raw_limit cursor =
     (case parse_limit raw_limit of
        None \<Rightarrow> ApiError 400 ''invalid_limit''
      | Some limit \<Rightarrow>
          (case cursor of
             BadCursor \<Rightarrow> ApiError 400 ''invalid_cursor''
           | NoCursor \<Rightarrow>
               if db \<noteq> None \<and> fl_list f then ApiError 500 ''storage_read_failed''
               else ApiOk (build_page (page_items m db None limit) limit)
           | Cursor c \<Rightarrow>
               let in_ram = cursorIndex (List_items m) c
               in if \<not> in_ram \<and> db \<noteq> None \<and> fl_contains f then ApiError 500 ''storage_read_failed''
                  else if \<not> in_ram \<and> (case db of None \<Rightarrow> True | Some d \<Rightarrow> \<not> ContainsBoundary d (sqliteBoundary c))
                  then ApiError 409 ''resync_required''
                  else if db \<noteq> None \<and> fl_list f then ApiError 500 ''storage_read_failed''
                  else ApiOk (build_page (page_items m db (Some c) limit) limit)))"

section \<open>One exchange and its bodies\<close>

definition findExchange :: "faults \<Rightarrow> memory \<Rightarrow> database option \<Rightarrow> string \<Rightarrow> exchange option api_result" where
  "findExchange f m db i =
     (case Get m i of
        Some e \<Rightarrow> ApiOk (Some e)
      | None \<Rightarrow> (case db of
            None \<Rightarrow> ApiOk None
          | Some d \<Rightarrow> if fl_get f then ApiError 500 ''storage_read_failed'' else ApiOk (Get_row d i)))"

record exchange_detail =
  xd_exchange :: exchange
  xd_request_available :: "bool option"
  xd_datagram_available :: "bool option"
  xd_response_available :: bool

definition exchange_details :: "faults \<Rightarrow> memory \<Rightarrow> database option \<Rightarrow> string \<Rightarrow> exchange_detail api_result" where
  "exchange_details f m db i =
     (case findExchange f m db i of
        ApiError status code \<Rightarrow> ApiError status code
      | ApiOk None \<Rightarrow> ApiError 404 ''exchange_not_found''
      | ApiOk (Some e) \<Rightarrow>
          let udp = (ex_transport e = TransportUDP \<and> ex_datagram e \<noteq> None);
              shown = e\<lparr>ex_request := (ex_request e)\<lparr>rq_body := []\<rparr>, ex_response := map_option (\<lambda>r. r\<lparr>rs_body := []\<rparr>) (ex_response e)\<rparr>
          in ApiOk \<lparr>xd_exchange = shown,
               xd_request_available = (if udp then None else Some (rq_complete (ex_request e))),
               xd_datagram_available = (if udp then map_option dg_complete (ex_datagram e) else None),
               xd_response_available = (case ex_response e of None \<Rightarrow> False | Some r \<Rightarrow> rs_complete r)\<rparr>)"

text \<open>The bytes of a body: those of the RAM copy, or of the tables when RAM does not have the exchange.\<close>

definition stored_body :: "faults \<Rightarrow> memory \<Rightarrow> database option \<Rightarrow> string \<Rightarrow> bool \<Rightarrow> bytes \<Rightarrow> bytes api_result" where
  "stored_body f m db i response body =
     (case (Get m i, db) of
        (None, Some d) \<Rightarrow>
          (if fl_body f then ApiError 500 ''storage_read_failed''
           else case Body d i response of Inr (Some b) \<Rightarrow> ApiOk b | _ \<Rightarrow> ApiError 500 ''storage_read_failed'')
      | _ \<Rightarrow> ApiOk body)"

definition requestBody :: "faults \<Rightarrow> memory \<Rightarrow> database option \<Rightarrow> string \<Rightarrow> bytes api_result" where
  "requestBody f m db i =
     (case findExchange f m db i of
        ApiError status code \<Rightarrow> ApiError status code
      | ApiOk None \<Rightarrow> ApiError 404 ''exchange_not_found''
      | ApiOk (Some e) \<Rightarrow>
          if ex_transport e = TransportUDP then ApiError 400 ''transport_body_invalid''
          else if \<not> rq_complete (ex_request e) then ApiError 409 ''body_not_ready''
          else stored_body f m db (ex_id e) False (rq_body (ex_request e)))"

definition responseBody :: "faults \<Rightarrow> memory \<Rightarrow> database option \<Rightarrow> string \<Rightarrow> bytes api_result" where
  "responseBody f m db i =
     (case findExchange f m db i of
        ApiError status code \<Rightarrow> ApiError status code
      | ApiOk None \<Rightarrow> ApiError 404 ''exchange_not_found''
      | ApiOk (Some e) \<Rightarrow>
          if ex_transport e = TransportUDP then ApiError 400 ''transport_body_invalid''
          else if ex_mode e = ModeCapture then ApiError 404 ''response_not_captured''
          else (case ex_response e of
              None \<Rightarrow> ApiError 409 ''body_not_ready''
            | Some r \<Rightarrow> if \<not> rs_complete r then ApiError 409 ''body_not_ready''
                else stored_body f m db (ex_id e) True (rs_body r)))"

definition datagramBody :: "faults \<Rightarrow> memory \<Rightarrow> database option \<Rightarrow> string \<Rightarrow> bytes api_result" where
  "datagramBody f m db i =
     (case findExchange f m db i of
        ApiError status code \<Rightarrow> ApiError status code
      | ApiOk None \<Rightarrow> ApiError 404 ''exchange_not_found''
      | ApiOk (Some e) \<Rightarrow>
          (case (ex_transport e, ex_datagram e) of
             (TransportUDP, Some g) \<Rightarrow>
               if \<not> dg_complete g then ApiError 409 ''body_not_ready''
               else stored_body f m db (ex_id e) False (dg_payload g)
           | _ \<Rightarrow> ApiError 400 ''transport_body_invalid''))"

section \<open>Clearing and deleting\<close>

record history =
  hs_memory :: memory
  hs_database :: "database option"
  hs_bus :: bus

definition publish_event :: "(envelope \<Rightarrow> nat option) \<Rightarrow> gotime \<Rightarrow> event_type \<Rightarrow> string \<Rightarrow> u64 \<Rightarrow> event_data \<Rightarrow> history \<Rightarrow> history" where
  "publish_event marshal now kind i revision data h = h\<lparr>hs_bus := fst (Publish marshal (hs_bus h) now
     \<lparr>ev_schema = 0, ev_id = [], ev_timestamp = zero_time, ev_type = kind, ev_exchange_id = i, ev_revision = revision, ev_data = data\<rparr>)\<rparr>"

text \<open>
  \<open>WaitIdle\<close> returns when the writer has nothing queued, so the tables hold every accepted write;
  it fails when the request is cancelled first.
\<close>

definition clearExchanges :: "(envelope \<Rightarrow> nat option) \<Rightarrow> gotime \<Rightarrow> faults \<Rightarrow> history \<Rightarrow> history \<times> int api_result" where
  "clearExchanges marshal now f h =
     (if hs_database h \<noteq> None \<and> (fl_wait f \<or> fl_delete f) then (h, ApiError 500 ''storage_delete_failed'')
      else
        let h1 = h\<lparr>hs_database := map_option (\<lambda>d. fst (Clear_rows d)) (hs_database h)\<rparr>;
            (m, removed) = Clear (hs_memory h1);
            h2 = publish_event marshal now HistoryCleared [] 0 (RemovedData (int (length removed))) (h1\<lparr>hs_memory := m\<rparr>)
        in (h2, ApiOk (int (length removed))))"

definition deleteExchange :: "(envelope \<Rightarrow> nat option) \<Rightarrow> gotime \<Rightarrow> faults \<Rightarrow> string \<Rightarrow> history \<Rightarrow> history \<times> unit api_result" where
  "deleteExchange marshal now f i h =
     (case findExchange f (hs_memory h) (hs_database h) i of
        ApiError status code \<Rightarrow> (h, ApiError status code)
      | ApiOk None \<Rightarrow> (h, ApiError 404 ''exchange_not_found'')
      | ApiOk (Some e) \<Rightarrow>
          if \<not> IsTerminal (ex_state e) then (h, ApiError 409 ''exchange_active'')
          else if hs_database h \<noteq> None \<and> (fl_wait f \<or> fl_delete f) then (h, ApiError 500 ''storage_delete_failed'')
          else
            let h1 = h\<lparr>hs_database := map_option (\<lambda>d. fst (Delete d (ex_id e))) (hs_database h)\<rparr>;
                h2 = h1\<lparr>hs_memory := fst (Remove (hs_memory h1) (ex_id e))\<rparr>
            in (publish_event marshal now ExchangeDeleted (ex_id e) (ex_revision e) NoData h2, ApiOk ()))"

section \<open>The history a client pages through\<close>

lemma take_sort_prefix:
  fixes f :: "'a \<Rightarrow> 'k::linorder"
  assumes inj: "inj_on f (set (X @ Q))" and d: "distinct (X @ Q)" and s: "sorted (map f Q)"
    and i: "n \<le> i \<or> length Q \<le> i"
  shows "take n (sort_key f (X @ take i Q)) = take n (sort_key f (X @ Q))"
proof (cases "length Q \<le> i")
  case False
  let ?A = "sort_key f (X @ take i Q)" and ?B = "drop i Q"
  from False i have ni: "n \<le> i" and iQ: "i < length Q" by auto
  have dA: "distinct ?A" using d by (auto simp: distinct_take dest: in_set_takeD)
  have injA: "inj_on f (set ?A)" using inj by (auto intro: inj_on_subset dest: in_set_takeD)
  have sA: "sorted_wrt (<) (map f ?A)"
    using dA injA by (simp add: strict_sorted_iff distinct_map del: set_sort)
  have split: "sorted (map f (take i Q) @ map f ?B)"
    using s by (simp flip: map_append)
  have low: "f a \<le> f b" if "a \<in> set (take n ?A)" and "b \<in> set ?B" for a b
  proof (rule ccontr)
    assume "\<not> f a \<le> f b"
    then have ba: "f b < f a" by simp
    from that(1) obtain p where p: "p < n" "p < length ?A" "a = ?A ! p"
      by (auto simp: in_set_conv_nth)
    have "set (take i Q) \<subseteq> set (take p ?A)"
    proof
      fix q assume q: "q \<in> set (take i Q)"
      then have "f q \<le> f b" using split that(2) by (auto simp: sorted_append)
      with ba have qa: "f q < f a" by simp
      have "q \<in> set ?A" using q by simp
      then obtain k where k: "k < length ?A" "q = ?A ! k" by (auto simp only: in_set_conv_nth)
      have "k < p"
      proof (rule ccontr)
        assume "\<not> k < p"
        then have "f a \<le> f q"
          using p k sA by (cases "p = k") (auto simp: sorted_wrt_iff_nth_less intro: less_imp_le)
        with qa show False by simp
      qed
      then show "q \<in> set (take p ?A)" using k p by (auto simp: in_set_conv_nth)
    qed
    from card_mono [OF _ this] have "card (set (take i Q)) \<le> p"
      using card_length [of "take p ?A"] by simp
    moreover have "card (set (take i Q)) = i"
      using d iQ by (simp add: distinct_card)
    ultimately show False using p ni by simp
  qed
  have "sort_key f (X @ Q) = take n ?A @ sort_key f (drop n ?A @ ?B)"
  proof (rule sort_key_inj_key_eq)
    have "mset ?A + mset ?B = mset X + (mset (take i Q) + mset ?B)" by simp
    also have "\<dots> = mset X + mset Q" by (metis append_take_drop_id mset_append)
    finally show "mset (X @ Q) = mset (take n ?A @ sort_key f (drop n ?A @ ?B))"
      by (metis add.assoc append_take_drop_id mset_append mset_sort)
    show "inj_on f (set (X @ Q))" by (rule inj)
    have "sorted (map f (take n ?A) @ map f (drop n ?A))" by (simp flip: map_append)
    then show "sorted (map f (take n ?A @ sort_key f (drop n ?A @ ?B)))"
      using low by (auto simp: sorted_append)
  qed
  moreover have "n \<le> length ?A" using ni iQ by simp
  ultimately show ?thesis by simp
qed simp

lemma take_filter_prefix: "filter P (take j Q) = take (length (filter P (take j Q))) (filter P Q)"
  by (metis append_eq_conv_conj append_take_drop_id filter_append)

lemma filter_take_length:
  "length (filter P Q) \<le> length (filter P (take j Q)) \<or>
   j \<le> length (filter P (take j Q)) + length (filter (\<lambda>x. \<not> P x) Q)"
proof (cases "length Q \<le> j")
  case False
  have "length (filter (\<lambda>x. \<not> P x) (take j Q)) \<le> length (filter (\<lambda>x. \<not> P x) Q)"
    by (metis append_take_drop_id filter_append le_add1 length_append)
  moreover have "length (filter P (take j Q)) + length (filter (\<lambda>x. \<not> P x) (take j Q)) = j"
    using False sum_length_filter_compl [of P "take j Q"] by simp
  ultimately show ?thesis by linarith
qed simp

lemma unseen_filter:
  "distinct (map ex_id xs) \<Longrightarrow> unseen seen xs = filter (\<lambda>e. ex_id e \<notin> set seen) xs"
  by (induction xs arbitrary: seen) (fastforce intro!: filter_cong simp: image_iff)+

lemma unseen_append:
  "distinct (map ex_id xs) \<Longrightarrow> ex_id ` set xs \<inter> set seen = {} \<Longrightarrow>
   unseen seen (xs @ ys) = xs @ unseen (rev (map ex_id xs) @ seen) ys"
  by (induction xs arbitrary: seen) auto

lemma unseen_merge:
  assumes "distinct (map ex_id xs)" and "distinct (map ex_id ys)"
  shows "unseen [] (xs @ ys) = xs @ filter (\<lambda>e. ex_id e \<notin> ex_id ` set xs) ys"
  using assms by (simp add: unseen_append unseen_filter)

text \<open>
  The order of a cursor: what is after it in the newest-first order. \<open>client_view\<close> is the history that the
  API promises: every exchange of RAM, and every row whose exchange RAM does not hold, newest first.
\<close>

definition cursor_key :: "cursor_boundary \<Rightarrow> order_key" where
  "cursor_key c = OrderKey (cb_completed c + unix_offset_ns) (cb_id c)"

definition after_cursor :: "cursor_boundary option \<Rightarrow> exchange \<Rightarrow> bool" where
  "after_cursor bnd e = (case bnd of None \<Rightarrow> True | Some c \<Rightarrow> cursor_key c < exchange_key e)"

definition stored_exchanges :: "database option \<Rightarrow> exchange list" where
  "stored_exchanges db = (case db of None \<Rightarrow> [] | Some d \<Rightarrow> map row_exchange (db_exchanges d))"

definition client_view :: "memory \<Rightarrow> database option \<Rightarrow> exchange list" where
  "client_view m db = sort_key exchange_key (List_items m
     @ filter (\<lambda>e. ex_id e \<notin> ex_id ` set (List_items m)) (stored_exchanges db))"

text \<open>
  RAM and tables that belong together: the timestamps are in the range of \<open>UnixNano\<close> and their clocks are
  coherent, the rows are of completed exchanges, and an exchange that is in both has one ordering time.
\<close>

definition coherent_history :: "memory \<Rightarrow> database option \<Rightarrow> bool" where
  "coherent_history m db \<longleftrightarrow> mem_inv m \<and> (case db of None \<Rightarrow> True | Some d \<Rightarrow> db_inv d)
     \<and> clocks_coherent (List_items m @ stored_exchanges db)
     \<and> (\<forall>e \<in> set (List_items m @ stored_exchanges db). nano_range (ordering_time e))
     \<and> (\<forall>e \<in> set (stored_exchanges db). \<not> is_zero (ex_completed e))
     \<and> (\<forall>x \<in> set (stored_exchanges db). \<forall>e \<in> set (List_items m).
          ex_id e = ex_id x \<longrightarrow> exchange_key e = exchange_key x)"

lemma exchange_key_id: "exchange_key a = exchange_key b \<Longrightarrow> ex_id a = ex_id b"
  by (simp add: exchange_key_def)

lemma inj_on_exchange_key: "distinct (map ex_id xs) \<Longrightarrow> inj_on exchange_key (set xs)"
  by (auto simp: distinct_map inj_on_def dest: exchange_key_id)

lemma olderThan_after:
  assumes "\<And>e. e \<in> set items \<Longrightarrow> nano_range (ordering_time e)"
  shows "olderThan items bnd = filter (after_cursor bnd) items"
proof (cases bnd)
  case (Some c)
  have "filter (\<lambda>e. unix_nano (ordering_time e) < cb_completed c
       \<or> unix_nano (ordering_time e) = cb_completed c \<and> ex_id e < cb_id c) items
    = filter (\<lambda>e. cursor_key c < exchange_key e) items"
    by (rule filter_cong [OF refl])
      (auto simp: unix_nano_exact [OF assms] cursor_key_def exchange_key_def less_order_key_def)
  with Some show ?thesis by (simp add: olderThan_def after_cursor_def [abs_def])
next
  case None
  have "after_cursor None = (\<lambda>_. True)" by (simp add: after_cursor_def fun_eq_iff)
  with None show ?thesis by (simp add: olderThan_def)
qed

lemma List_items_distinct: "mem_inv m \<Longrightarrow> distinct (map ex_id (List_items m))"
  unfolding List_items_eq distinct_ids_sort mem_inv_def by (blast intro: keyed_distinct_ids)

lemma row_exchange_key:
  assumes "db_inv d" and "r \<in> set (db_exchanges d)" and "\<not> is_zero (ex_completed (row_exchange r))"
    and "nano_range (ordering_time (row_exchange r))"
  shows "exchange_key (row_exchange r) = OrderKey (row_completed_ns r + unix_offset_ns) (row_id r)"
proof -
  have id: "ex_id (row_exchange r) = row_id r"
    and ns: "unix_nano (ex_completed (row_exchange r)) = row_completed_ns r"
    using assms(1,2) by (simp_all add: db_inv_def row_exchange_def)
  have t: "ordering_time (row_exchange r) = ex_completed (row_exchange r)"
    using assms(3) by (simp add: ordering_time_def)
  show ?thesis using ns unix_nano_exact [OF assms(4)] id by (simp add: exchange_key_def t)
qed

text \<open>The SQLite page after a cursor.\<close>

lemma sort_rows:
  assumes "db_inv d" and "set sel \<subseteq> set (db_exchanges d)" and "distinct sel"
    and "\<And>r. r \<in> set sel \<Longrightarrow> exchange_key (row_exchange r) = OrderKey (row_completed_ns r + unix_offset_ns) (row_id r)"
  shows "map row_exchange (sort_key row_key sel) = sort_key exchange_key (map row_exchange sel)"
proof (rule sort_key_inj_key_eq [symmetric])
  have id: "ex_id (row_exchange r) = row_id r" if "r \<in> set sel" for r
    using that assms(1,2) by (auto simp: db_inv_def row_exchange_def)
  have "distinct (map row_id sel)"
    using assms(1-3) unfolding db_inv_def distinct_map by (blast intro: inj_on_subset)
  then have "distinct (map ex_id (map row_exchange sel))"
    using id by (simp cong: map_cong)
  then show "inj_on exchange_key (set (map row_exchange sel))" by (rule inj_on_exchange_key)
  have "sorted_wrt (\<lambda>a b. row_key a \<le> row_key b) (sort_key row_key sel)"
    using sorted_sort_key unfolding sorted_map by blast
  then have "sorted_wrt (\<lambda>a b. exchange_key (row_exchange a) \<le> exchange_key (row_exchange b)) (sort_key row_key sel)"
    by (rule sorted_wrt_mono_rel [rotated])
      (auto simp: assms(4) row_key_def less_eq_order_key_def less_order_key_def)
  then show "sorted (map exchange_key (map row_exchange (sort_key row_key sel)))"
    by (simp add: sorted_map)
qed simp

lemma List_rows_after:
  assumes "coherent_history m (Some d)" and "1 \<le> limit"
    and "\<And>c. bnd = Some c \<Longrightarrow> in_i64 (cb_completed c)"
    and Q: "Q = sort_key exchange_key (filter (after_cursor bnd) (stored_exchanges (Some d)))"
  shows "List_rows d (map_option sqliteBoundary bnd) limit = (take (nat limit) Q, int (length Q) > limit)"
proof -
  have inv: "db_inv d" using assms(1) by (simp add: coherent_history_def)
  have key: "exchange_key (row_exchange r) = OrderKey (row_completed_ns r + unix_offset_ns) (row_id r)"
    if "r \<in> set (db_exchanges d)" for r
    using that assms(1) by (intro row_exchange_key [OF inv]) (auto simp: coherent_history_def stored_exchanges_def)
  let ?sel = "filter (\<lambda>r. after_cursor bnd (row_exchange r)) (db_exchanges d)"
  have "(case map_option sqliteBoundary bnd of None \<Rightarrow> db_exchanges d | Some b \<Rightarrow> filter (row_after b) (db_exchanges d)) = ?sel"
  proof (cases bnd)
    case (Some c)
    have "row_after (sqliteBoundary c) r = after_cursor bnd (row_exchange r)" if "r \<in> set (db_exchanges d)" for r
      using assms(3) [OF Some] Some key [OF that]
      by (auto simp: row_after_def sqliteBoundary_def unix_nano_of_unix_nano after_cursor_def cursor_key_def less_order_key_def)
    with Some show ?thesis by (simp cong: filter_cong)
  qed (simp add: after_cursor_def)
  from List_rows_suffix [OF assms(2) this refl]
  have "List_rows d (map_option sqliteBoundary bnd) limit
    = (take (nat limit) (map row_exchange (sort_key row_key ?sel)), int (length ?sel) > limit)"
    by (simp add: take_map)
  moreover have "map row_exchange (sort_key row_key ?sel) = Q"
  proof -
    have "distinct ?sel" using inv by (auto simp: db_inv_def distinct_map)
    from sort_rows [OF inv _ this] key have "map row_exchange (sort_key row_key ?sel) = sort_key exchange_key (map row_exchange ?sel)"
      by auto
    then show ?thesis by (simp add: Q stored_exchanges_def filter_map comp_def)
  qed
  moreover have "length Q = length ?sel" by (simp add: Q stored_exchanges_def filter_map comp_def)
  ultimately show ?thesis by simp
qed

text \<open>A page of the merged history is the page of the client's view.\<close>

lemma client_view_after:
  assumes "coherent_history m db"
  shows "filter (after_cursor bnd) (client_view m db) = sort_key exchange_key (filter (after_cursor bnd) (List_items m)
    @ filter (\<lambda>e. ex_id e \<notin> ex_id ` set (filter (after_cursor bnd) (List_items m)))
        (filter (after_cursor bnd) (stored_exchanges db)))"
proof -
  have "ex_id x \<in> ex_id ` set (filter (after_cursor bnd) (List_items m)) \<longleftrightarrow> ex_id x \<in> ex_id ` set (List_items m)"
    if "x \<in> set (stored_exchanges db)" and "after_cursor bnd x" for x
  proof
    assume "ex_id x \<in> ex_id ` set (List_items m)"
    then obtain e where e: "e \<in> set (List_items m)" "ex_id e = ex_id x" by auto
    with assms that(1) have "exchange_key e = exchange_key x" by (simp add: coherent_history_def)
    with that(2) have "after_cursor bnd e" by (simp add: after_cursor_def split: option.splits)
    with e show "ex_id x \<in> ex_id ` set (filter (after_cursor bnd) (List_items m))" by (force simp: image_iff)
  qed auto
  then have "filter (after_cursor bnd) (filter (\<lambda>e. ex_id e \<notin> ex_id ` set (List_items m)) (stored_exchanges db))
    = filter (\<lambda>e. ex_id e \<notin> ex_id ` set (filter (after_cursor bnd) (List_items m)))
        (filter (after_cursor bnd) (stored_exchanges db))"
    unfolding filter_filter by (intro filter_cong) auto
  then show ?thesis by (simp add: client_view_def filter_sort del: filter_filter)
qed

lemma card_ids_overlap:
  assumes "distinct (map ex_id ys)"
  shows "length (filter (\<lambda>e. ex_id e \<in> ex_id ` set xs) ys) \<le> length xs"
proof -
  have "distinct (map ex_id (filter (\<lambda>e. ex_id e \<in> ex_id ` set xs) ys))"
    using assms by (rule distinct_map_filter)
  then have "length (filter (\<lambda>e. ex_id e \<in> ex_id ` set xs) ys)
    = card (set (map ex_id (filter (\<lambda>e. ex_id e \<in> ex_id ` set xs) ys)))"
    by (metis distinct_card length_map)
  also have "\<dots> \<le> card (set (map ex_id xs))" by (rule card_mono) auto
  also have "\<dots> \<le> length xs" by (metis card_length length_map)
  finally show ?thesis .
qed

lemma merge_page:
  assumes X: "distinct (map ex_id X)" and Q: "distinct (map ex_id Q)" and s: "sorted (map exchange_key Q)"
    and c: "clocks_coherent (X @ Q)" and j: "j = n + length X"
    and W: "W = sort_key exchange_key (X @ filter (\<lambda>e. ex_id e \<notin> ex_id ` set X) Q)"
  shows "take n (mergeExchanges X (take j Q)) = take n W"
    and "(j < length Q \<or> n < length (mergeExchanges X (take j Q))) = (n < length W)"
proof -
  let ?P = "\<lambda>e. ex_id e \<notin> ex_id ` set X" and ?i = "length (filter (\<lambda>e. ex_id e \<notin> ex_id ` set X) (take j Q))"
  have M: "mergeExchanges X (take j Q) = sort_key exchange_key (X @ take ?i (filter ?P Q))"
  proof -
    have "unseen [] (X @ take j Q) = X @ take ?i (filter ?P Q)"
      unfolding take_filter_prefix [symmetric] using Q by (intro unseen_merge [OF X]) (simp add: distinct_take flip: take_map)
    moreover have "clocks_coherent (X @ take ?i (filter ?P Q))"
      using c by (rule clocks_coherent_subset) (auto dest!: in_set_takeD)
    ultimately show ?thesis by (simp add: mergeExchanges_def sort_newest_first_key)
  qed
  have over: "length (filter (\<lambda>x. \<not> ?P x) Q) \<le> length X" using card_ids_overlap [OF Q] by simp
  have i: "n \<le> ?i \<or> length (filter ?P Q) \<le> ?i"
    using filter_take_length [of ?P Q j] over j by linarith
  have ids: "distinct (map ex_id (X @ filter ?P Q))"
    using X Q by (auto simp: distinct_map_filter image_iff)
  show "take n (mergeExchanges X (take j Q)) = take n W"
    unfolding M W by (rule take_sort_prefix [OF inj_on_exchange_key [OF ids] conjunct1 [OF ids [unfolded distinct_map]] sorted_filter [OF s] i])
  show "(j < length Q \<or> n < length (mergeExchanges X (take j Q))) = (n < length W)"
  proof -
    have m: "length (mergeExchanges X (take j Q)) = length X + min (length (filter ?P Q)) ?i" by (simp add: M)
    have w: "length W = length X + length (filter ?P Q)" by (simp add: W)
    have "length Q = length (filter ?P Q) + length (filter (\<lambda>x. \<not> ?P x) Q)"
      by (rule sum_length_filter_compl [symmetric])
    moreover have "length Q \<le> j \<Longrightarrow> ?i = length (filter ?P Q)" by simp
    ultimately show ?thesis using m w over j by linarith
  qed
qed

lemma page_exact:
  assumes h: "coherent_history m db" and l: "1 \<le> limit"
    and c: "\<And>c. bnd = Some c \<Longrightarrow> in_i64 (cb_completed c)"
    and V: "V = filter (after_cursor bnd) (client_view m db)"
  shows "hp_page (build_page (page_items m db bnd limit) limit) = take (nat limit) V"
    and "hp_more (build_page (page_items m db bnd limit) limit) = (int (length V) > limit)"
proof -
  let ?X = "filter (after_cursor bnd) (List_items m)"
  have items: "olderThan (List_items m) bnd = ?X"
    using h by (intro olderThan_after) (simp add: coherent_history_def)
  have Xd: "distinct (map ex_id ?X)"
    using h by (intro distinct_map_filter List_items_distinct) (simp add: coherent_history_def)
  have clocks: "clocks_coherent (List_items m @ stored_exchanges db)"
    using h by (simp add: coherent_history_def)
  have "fst (page_items m db bnd limit) = V \<and> \<not> snd (page_items m db bnd limit)" if "db = None"
  proof -
    have "clocks_coherent (map snd (mem_items m))"
      using clocks by (rule clocks_coherent_subset) (simp add: List_items_eq)
    then have "sorted (map exchange_key (List_items m))" by (simp add: List_items_eq sort_newest_first_sorted)
    then have "client_view m db = List_items m"
      using that by (simp add: client_view_def stored_exchanges_def sort_key_id_if_sorted)
    then have "V = ?X" by (simp add: V)
    with that items show ?thesis by (simp add: page_items_def Let_def)
  qed
  moreover have "take (nat limit) (fst (page_items m db bnd limit)) = take (nat limit) V
      \<and> (snd (page_items m db bnd limit) \<or> nat limit < length (fst (page_items m db bnd limit))) = (nat limit < length V)"
    if db: "db = Some d" for d
  proof -
    define Q where "Q = sort_key exchange_key (filter (after_cursor bnd) (stored_exchanges db))"
    have "db_inv d" using h db by (simp add: coherent_history_def)
    then have "map ex_id (stored_exchanges db) = map row_id (db_exchanges d)" and "distinct (map row_id (db_exchanges d))"
      by (simp_all add: stored_exchanges_def db db_inv_def row_exchange_def)
    then have Rd: "distinct (map ex_id (stored_exchanges db))" by simp
    then have Qd: "distinct (map ex_id Q)"
      by (simp add: Q_def distinct_map inj_on_def)
    have Qs: "sorted (map exchange_key Q)" by (simp add: Q_def)
    have coh: "clocks_coherent (?X @ Q)"
      using clocks by (rule clocks_coherent_subset) (auto simp: Q_def)
    have "V = sort_key exchange_key (?X @ filter (\<lambda>e. ex_id e \<notin> ex_id ` set ?X) Q)"
    proof -
      let ?S = "filter (\<lambda>e. ex_id e \<notin> ex_id ` set ?X) (filter (after_cursor bnd) (stored_exchanges db))"
      have "distinct (map ex_id (?X @ ?S))" using Xd Rd by (auto simp: distinct_map_filter image_iff)
      then have "sort_key exchange_key (?X @ ?S) = sort_key exchange_key (?X @ filter (\<lambda>e. ex_id e \<notin> ex_id ` set ?X) Q)"
        by (intro sort_key_inj_key_eq inj_on_exchange_key) (simp_all only: Q_def mset_filter mset_append mset_sort sorted_sort_key)
      then show ?thesis by (simp only: V client_view_after [OF h])
    qed
    note mp = merge_page [OF Xd Qd Qs coh refl this, of "nat limit"]
    have "List_rows d (map_option sqliteBoundary bnd) (limit + int (length ?X))
      = (take (nat (limit + int (length ?X))) Q, int (length Q) > limit + int (length ?X))"
      using h l c by (intro List_rows_after [of m]) (simp_all add: Q_def db)
    then have rows: "List_rows d (map_option sqliteBoundary bnd) (limit + int (length ?X))
      = (take (nat limit + length ?X) Q, nat limit + length ?X < length Q)"
      using l by (auto simp: nat_add_distrib)
    have "page_items m db bnd limit
      = (mergeExchanges ?X (take (nat limit + length ?X) Q), nat limit + length ?X < length Q)"
      unfolding page_items_def Let_def items db option.case rows prod.case ..
    with mp show ?thesis by simp
  qed
  ultimately have "take (nat limit) (fst (page_items m db bnd limit)) = take (nat limit) V
      \<and> (snd (page_items m db bnd limit) \<or> nat limit < length (fst (page_items m db bnd limit))) = (nat limit < length V)"
    by (cases db) simp_all
  moreover have nat_less: "nat limit < k \<longleftrightarrow> limit < int k" for k using l by linarith
  ultimately show "hp_page (build_page (page_items m db bnd limit) limit) = take (nat limit) V"
    and "hp_more (build_page (page_items m db bnd limit) limit) = (int (length V) > limit)"
    using nat_less [of "length V"] nat_less [of "length (fst (page_items m db bnd limit))"]
    by (simp_all add: build_page_def Let_def)
qed

section \<open>Following the cursors\<close>

text \<open>
  A client that asks for the first page and follows \<open>next_cursor\<close> while there is one; \<open>None\<close> when a
  request is refused.
\<close>

definition no_faults :: faults where
  "no_faults = \<lparr>fl_contains = False, fl_list = False, fl_get = False, fl_body = False, fl_wait = False, fl_delete = False\<rparr>"

fun client_pages :: "nat \<Rightarrow> memory \<Rightarrow> database option \<Rightarrow> string \<Rightarrow> cursor_parameter \<Rightarrow> exchange list list option" where
  "client_pages 0 m db raw cursor = Some []"
| "client_pages (Suc n) m db raw cursor =
     (case exchanges no_faults m db raw cursor of
        ApiError _ _ \<Rightarrow> None
      | ApiOk p \<Rightarrow> (case hp_next p of
            None \<Rightarrow> Some [hp_page p]
          | Some c \<Rightarrow> map_option (\<lambda>ps. hp_page p # ps) (client_pages n m db raw (Cursor c))))"

definition cursor_of :: "exchange \<Rightarrow> cursor_boundary" where
  "cursor_of e = \<lparr>cb_completed = unix_nano (ordering_time e), cb_id = ex_id e\<rparr>"

fun cursor_text :: "cursor_boundary option \<Rightarrow> cursor_parameter" where
  "cursor_text None = NoCursor"
| "cursor_text (Some c) = Cursor c"

lemma client_view_set: "set (client_view m db) = set (List_items m)
    \<union> {e \<in> set (stored_exchanges db). ex_id e \<notin> ex_id ` set (List_items m)}"
  by (auto simp: client_view_def)

lemma client_view_strict:
  assumes "coherent_history m db"
  shows "sorted_wrt (<) (map exchange_key (client_view m db))"
proof -
  have "distinct (map ex_id (stored_exchanges db))"
    using assms by (auto simp: coherent_history_def stored_exchanges_def db_inv_def row_exchange_def comp_def
        cong: map_cong split: option.splits)
  moreover have "distinct (map ex_id (List_items m))"
    using assms by (simp add: coherent_history_def List_items_distinct)
  ultimately have "distinct (map ex_id (List_items m
      @ filter (\<lambda>e. ex_id e \<notin> ex_id ` set (List_items m)) (stored_exchanges db)))"
    by (auto simp: distinct_map_filter image_iff)
  from inj_on_exchange_key [OF this] conjunct1 [OF this [unfolded distinct_map]]
  show ?thesis unfolding client_view_def by (simp add: strict_sorted_iff distinct_map del: set_append)
qed

lemma cursor_key_of: "nano_range (ordering_time e) \<Longrightarrow> cursor_key (cursor_of e) = exchange_key e"
  by (simp add: cursor_key_def cursor_of_def exchange_key_def unix_nano_exact)

lemma view_range: "coherent_history m db \<Longrightarrow> e \<in> set (client_view m db) \<Longrightarrow> nano_range (ordering_time e)"
  by (auto simp: client_view_set coherent_history_def)

lemma after_last:
  assumes "coherent_history m db" and "client_view m db = A @ x # R"
  shows "filter (after_cursor (Some (cursor_of x))) (client_view m db) = R"
proof -
  have "sorted_wrt (<) (map exchange_key (A @ x # R))"
    using client_view_strict [OF assms(1)] assms(2) by simp
  moreover have "cursor_key (cursor_of x) = exchange_key x"
    using view_range [OF assms(1)] assms(2) by (intro cursor_key_of) simp
  ultimately show ?thesis unfolding assms(2)
    by (auto simp: after_cursor_def sorted_wrt_append sorted_wrt_map filter_empty_conv filter_id_conv dest: less_imp_not_less)
qed

lemma view_cursor_accepted:
  assumes "coherent_history m db" and "e \<in> set (client_view m db)"
  shows "cursorIndex (List_items m) (cursor_of e) \<or> (\<exists>d. db = Some d \<and> ContainsBoundary d (sqliteBoundary (cursor_of e)))"
proof (cases "e \<in> set (List_items m)")
  case True
  then show ?thesis by (auto simp: cursorIndex_def list_ex_iff cursor_of_def)
next
  case False
  with assms(2) have e: "e \<in> set (stored_exchanges db)" by (simp add: client_view_set)
  then obtain d r where d: "db = Some d" and r: "r \<in> set (db_exchanges d)" "e = row_exchange r"
    by (auto simp: stored_exchanges_def split: option.splits)
  have "ordering_time e = ex_completed e" "db_inv d"
    using assms(1) e d by (auto simp: coherent_history_def ordering_time_def)
  with r have "row_id r = ex_id e \<and> row_completed_ns r = unix_nano (ordering_time e)"
    by (simp add: db_inv_def row_exchange_def)
  moreover have "in_i64 (unix_nano (ordering_time e))"
    using view_range [OF assms] by (simp add: unix_nano_exact nano_range_def)
  ultimately show ?thesis using d r(1)
    by (auto simp: ContainsBoundary_def list_ex_iff sqliteBoundary_def cursor_of_def unix_nano_of_unix_nano)
qed

lemma exchanges_page:
  assumes "coherent_history m db" and "parse_limit raw = Some limit"
    and "bnd = None \<or> (\<exists>e \<in> set (client_view m db). bnd = Some (cursor_of e))"
  shows "exchanges no_faults m db raw (cursor_text bnd) = ApiOk (build_page (page_items m db bnd limit) limit)"
proof (cases bnd)
  case (Some c)
  with assms(3) obtain e where "e \<in> set (client_view m db)" and "c = cursor_of e" by auto
  with view_cursor_accepted [OF assms(1)] have "cursorIndex (List_items m) c \<or> (\<exists>d. db = Some d \<and> ContainsBoundary d (sqliteBoundary c))"
    by simp
  with Some assms(2) show ?thesis by (auto simp: exchanges_def no_faults_def Let_def)
qed (simp add: exchanges_def assms(2) no_faults_def)

lemma parse_limit_range: "parse_limit raw = Some limit \<Longrightarrow> 1 \<le> limit \<and> limit \<le> 200"
  by (auto simp: parse_limit_def split: if_splits option.splits)

lemma build_page_next:
  assumes "1 \<le> limit"
  shows "hp_next (build_page merged limit) =
    (if hp_more (build_page merged limit) \<and> hp_page (build_page merged limit) \<noteq> []
     then Some (cursor_of (last (hp_page (build_page merged limit)))) else None)"
  by (simp add: build_page_def Let_def cursor_of_def)

lemma cursor_of_range: "in_i64 (cb_completed (cursor_of e))"
  by (simp add: cursor_of_def unix_nano_def)

lemma client_pages_suffix:
  assumes h: "coherent_history m db" and l: "parse_limit raw = Some limit"
    and "client_view m db = A @ R"
    and "A = [] \<and> bnd = None \<or> A \<noteq> [] \<and> bnd = Some (cursor_of (last A))"
    and "length R < n"
  shows "\<exists>ps. client_pages n m db raw (cursor_text bnd) = Some ps \<and> concat ps = R
    \<and> list_all (\<lambda>p. int (length p) \<le> limit) ps"
  using assms(3-5)
proof (induction n arbitrary: A R bnd)
  case (Suc n)
  have pos: "1 \<le> limit" using parse_limit_range [OF l] by simp
  let ?p = "build_page (page_items m db bnd limit) limit"
  have bnd: "bnd = None \<or> (\<exists>e \<in> set (client_view m db). bnd = Some (cursor_of e))"
    using Suc.prems(1,2) by (auto intro: bexI [of _ "last A"])
  have R: "R = filter (after_cursor bnd) (client_view m db)"
  proof (cases "A = []")
    case True
    with Suc.prems have "bnd = None" by auto
    with True Suc.prems(1) show ?thesis by (simp add: after_cursor_def)
  next
    case False
    then have "client_view m db = butlast A @ last A # R" using Suc.prems(1) by simp
    from after_last [OF h this] False Suc.prems(2) show ?thesis by simp
  qed
  have c: "\<And>c. bnd = Some c \<Longrightarrow> in_i64 (cb_completed c)" using bnd by (auto simp: cursor_of_range)
  have page: "hp_page ?p = take (nat limit) R" and more: "hp_more ?p = (int (length R) > limit)"
    using page_exact [OF h pos c R] by simp_all
  note ex = exchanges_page [OF h l bnd]
  show ?case
  proof (cases "int (length R) > limit")
    case False
    then have none: "hp_next ?p = None" by (simp add: build_page_next [OF pos] more)
    have len: "length R \<le> nat limit" "int (length R) \<le> limit" using False by simp_all
    show ?thesis using ex page none len by simp
  next
    case True
    let ?T = "take (nat limit) R"
    have T: "?T \<noteq> []" using True pos by auto
    then have nx: "hp_next ?p = Some (cursor_of (last ?T))" using True by (simp add: build_page_next [OF pos] more page)
    have "\<exists>ps. client_pages n m db raw (cursor_text (Some (cursor_of (last ?T)))) = Some ps
      \<and> concat ps = drop (nat limit) R \<and> list_all (\<lambda>p. int (length p) \<le> limit) ps"
    proof (rule Suc.IH [of "A @ ?T"])
      show "client_view m db = (A @ ?T) @ drop (nat limit) R" using Suc.prems(1) by simp
      show "length (drop (nat limit) R) < n" using Suc.prems True pos by simp
    qed (use T in simp)
    then obtain ps where "client_pages n m db raw (Cursor (cursor_of (last ?T))) = Some ps"
      and "concat ps = drop (nat limit) R" and "list_all (\<lambda>p. int (length p) \<le> limit) ps" by auto
    then show ?thesis using ex page nx pos by simp
  qed
qed simp

text \<open>
  C7. A client that pages through the history with any valid limit, following the cursors, is refused nowhere and
  is given every exchange of RAM and of SQLite exactly once, newest first, in pages within the limit.
\<close>

theorem history_listed_once:
  assumes "coherent_history m db" and "parse_limit raw = Some limit" and "length (client_view m db) < fuel"
  shows "\<exists>ps. client_pages fuel m db raw NoCursor = Some ps \<and> concat ps = client_view m db
    \<and> list_all (\<lambda>p. int (length p) \<le> limit) ps"
  using client_pages_suffix [OF assms(1,2), of "[]" _ None] assms(3) by simp

definition history_memory :: memory where
  "history_memory = \<lparr>mem_capacity = 2, mem_items =
     [(''x'', sample_exchange ''x'' StateReceiving (unix_offset_ns + 7) 0),
      (''b'', sample_exchange ''b'' StateCompleted (unix_offset_ns + 2) (unix_offset_ns + 9))]\<rparr>"

definition history_tables :: database where
  "history_tables = foldl persist Open_database
     [sample_exchange ''a'' StateCompleted (unix_offset_ns + 1) (unix_offset_ns + 5),
      sample_exchange ''b'' StateCompleted (unix_offset_ns + 2) (unix_offset_ns + 9),
      sample_exchange ''c'' StateFailed (unix_offset_ns + 3) (unix_offset_ns + 9)]"

lemma history_coherent: "coherent_history history_memory (Some history_tables)"
  by code_simp

lemma history_view_length: "length (client_view history_memory (Some history_tables)) = 4"
  by code_simp

theorem history_listed_once_witness:
  "\<exists>ps. client_pages 5 history_memory (Some history_tables) ''2'' NoCursor = Some ps
    \<and> concat ps = client_view history_memory (Some history_tables) \<and> list_all (\<lambda>p. int (length p) \<le> 2) ps"
proof -
  have "parse_limit ''2'' = Some 2" by code_simp
  from history_listed_once [OF history_coherent this, of 5] show ?thesis by (simp add: history_view_length)
qed

section \<open>Bodies\<close>

lemma findExchange_ram: "Get m i = Some e \<Longrightarrow> findExchange f m db i = ApiOk (Some e)"
  by (simp add: findExchange_def)

lemma findExchange_row: "Get m i = None \<Longrightarrow> findExchange no_faults m (Some d) i = ApiOk (Get_row d i)"
  by (simp add: findExchange_def no_faults_def)

lemma stored_body_ram: "Get m i = Some e \<Longrightarrow> stored_body f m db i response body = ApiOk body"
  by (simp add: stored_body_def)

lemma stored_body_row: "Get m i = None \<Longrightarrow> Body d i response = Inr (Some b) \<Longrightarrow>
    stored_body no_faults m (Some d) i response body = ApiOk b"
  by (simp add: stored_body_def no_faults_def)

lemma json_body_sel:
  "ex_transport e = TransportHTTP \<Longrightarrow> rq_complete (ex_request (json_exchange e)) = rq_complete (ex_request e)"
  "ex_mode (json_exchange e) = ex_mode e"
  "ex_response (json_exchange e) = map_option (\<lambda>r. r\<lparr>rs_body := []\<rparr>) (ex_response e)"
  "ex_datagram (json_exchange e) = map_option (\<lambda>g. g\<lparr>dg_payload := []\<rparr>) (ex_datagram e)"
  by (simp_all add: json_exchange_def)

text \<open>
  C38. Which store answers is not visible in a body: an exchange that only SQLite still holds is served with the
  same status and the same bytes as while RAM held it.
\<close>

theorem stores_serve_same_bodies:
  assumes "Get cold (ex_id e) = None" and "Get warm (ex_id e) = Some e"
  shows "requestBody no_faults cold (Some (persist d e)) (ex_id e) = requestBody no_faults warm db (ex_id e)
    \<and> responseBody no_faults cold (Some (persist d e)) (ex_id e) = responseBody no_faults warm db (ex_id e)
    \<and> datagramBody no_faults cold (Some (persist d e)) (ex_id e) = datagramBody no_faults warm db (ex_id e)"
proof (intro conjI)
  note lookups = findExchange_row [OF assms(1)] findExchange_ram [OF assms(2)] Get_persist decode_persisted_row
    stored_body_ram [OF assms(2)]
  show "requestBody no_faults cold (Some (persist d e)) (ex_id e) = requestBody no_faults warm db (ex_id e)"
    by (cases "ex_transport e")
      (simp_all add: requestBody_def lookups json_body_sel stored_body_row [OF assms(1) Body_persist_http])
  show "responseBody no_faults cold (Some (persist d e)) (ex_id e) = responseBody no_faults warm db (ex_id e)"
    by (cases "ex_transport e"; cases "ex_response e")
      (auto simp: responseBody_def lookups json_body_sel stored_body_row [OF assms(1) Body_persist_http])
  show "datagramBody no_faults cold (Some (persist d e)) (ex_id e) = datagramBody no_faults warm db (ex_id e)"
    by (cases "ex_transport e"; cases "ex_datagram e")
      (auto simp: datagramBody_def lookups json_body_sel stored_body_row [OF assms(1) Body_persist_udp])
qed

theorem stores_serve_same_bodies_witness:
  "requestBody no_faults (NewMemory 2) (Some (persist Open_database (sample_exchange ''b'' StateCompleted 2 5))) ''b''
    = requestBody no_faults sample_memory None ''b''"
proof -
  have "Get (NewMemory 2) ''b'' = None" and "Get sample_memory ''b'' = Some (sample_exchange ''b'' StateCompleted 2 5)"
    by (simp_all add: Get_map_of NewMemory_def sample_memory_def)
  with stores_serve_same_bodies [of "NewMemory 2" "sample_exchange ''b'' StateCompleted 2 5" sample_memory] show ?thesis
    by simp
qed

section \<open>Deleting\<close>

lemma Remove_get: "Get (fst (Remove m i)) j =
    (if j = i \<and> (\<exists>e. Get m i = Some e \<and> terminal e) then None else Get m j)"
  by (auto simp: Remove_def Get_map_of delete_conv' split: option.splits)

lemma Delete_get: "Get_row (fst (Delete d i)) j = (if j = i then None else Get_row d j)"
proof -
  have "find (\<lambda>r. row_id r = j) (filter (\<lambda>r. row_id r \<noteq> i) xs) = (if j = i then None else find (\<lambda>r. row_id r = j) xs)" for xs
    by (induction xs) auto
  from this [of "db_exchanges d"] show ?thesis
    by (cases "j = i") (simp_all add: Get_row_def find_row_def Delete_def Let_def delete_ids_def)
qed

lemma findExchange_id:
  assumes "mem_inv m" and "\<And>d. db = Some d \<Longrightarrow> db_inv d" and "findExchange f m db i = ApiOk (Some e)"
  shows "ex_id e = i"
proof (cases "Get m i")
  case None
  with assms(3) obtain d where d: "db = Some d" "Get_row d i = Some e"
    by (auto simp: findExchange_def split: option.splits if_splits)
  then obtain r where "find (\<lambda>r. row_id r = i) (db_exchanges d) = Some r" and e: "e = decodeExchange (row_metadata r)"
    by (auto simp: Get_row_def find_row_def)
  then have "r \<in> set (db_exchanges d)" and "row_id r = i" by (auto simp: find_Some_iff)
  with assms(2) [OF d(1)] e show ?thesis by (auto simp: db_inv_def)
next
  case (Some x)
  with findExchange_ram [OF Some] assms(3) have "map_of (mem_items m) i = Some e" by (simp add: Get_map_of)
  with assms(1) show ?thesis by (simp add: mem_inv_def keyed_lookup)
qed

lemma publish_event_sel [simp]:
  "hs_memory (publish_event marshal now kind i revision data h) = hs_memory h"
  "hs_database (publish_event marshal now kind i revision data h) = hs_database h"
  by (simp_all add: publish_event_def)

lemma findExchange_no_faults: "findExchange no_faults m db i =
    ApiOk (case Get m i of Some e \<Rightarrow> Some e | None \<Rightarrow> (case db of None \<Rightarrow> None | Some d \<Rightarrow> Get_row d i))"
  by (simp add: findExchange_def no_faults_def split: option.splits)

text \<open>
  A delete request removes the exchange from RAM and from SQLite, and nothing else; when it is refused (an
  unknown ID, an exchange in progress, a failed statement) it changes nothing at all.
\<close>

theorem delete_exchange_everywhere:
  assumes "mem_inv (hs_memory h)" and "case hs_database h of None \<Rightarrow> True | Some d \<Rightarrow> db_inv d"
  shows "case deleteExchange marshal now f i h of
      (h', ApiOk _) \<Rightarrow> (\<forall>j. findExchange no_faults (hs_memory h') (hs_database h') j =
        (if j = i then ApiOk None else findExchange no_faults (hs_memory h) (hs_database h) j))
    | (h', ApiError _ _) \<Rightarrow> h' = h"
proof (cases "findExchange f (hs_memory h) (hs_database h) i")
  case (ApiOk found)
  show ?thesis
  proof (cases found)
    case (Some e)
    have id: "ex_id e = i"
      by (rule findExchange_id [OF assms(1) _ ApiOk [unfolded Some]]) (use assms(2) in simp)
    have live: "Get (hs_memory h) i = Some x \<Longrightarrow> x = e" for x
      using ApiOk Some by (simp add: findExchange_def)
    show ?thesis
      using live ApiOk Some
      by (auto simp: deleteExchange_def Let_def id findExchange_no_faults Remove_get Delete_get split: option.splits)
  qed (simp add: deleteExchange_def ApiOk)
qed (simp add: deleteExchange_def)

text \<open>The history of the witness, with a RAM copy that is still in progress.\<close>

definition sample_history :: history where
  "sample_history = \<lparr>hs_memory = history_memory, hs_database = Some history_tables, 
     hs_bus = NewBus \<lparr>bl_replay_count = 8, bl_replay_bytes = 64, bl_subscriber_count = 8, bl_subscriber_bytes = 64\<rparr>\<rparr>"

theorem delete_exchange_everywhere_witness:
  "case deleteExchange (\<lambda>_. Some 1) (wall_time 5) no_faults ''b'' sample_history of
      (h', ApiOk _) \<Rightarrow> (\<forall>j. findExchange no_faults (hs_memory h') (hs_database h') j =
        (if j = ''b'' then ApiOk None else findExchange no_faults (hs_memory sample_history) (hs_database sample_history) j))
    | (h', ApiError _ _) \<Rightarrow> h' = sample_history"
  by (rule delete_exchange_everywhere)
    (use history_coherent in \<open>simp_all add: sample_history_def coherent_history_def\<close>)

lemma Clear_get: "keyed (mem_items m) \<Longrightarrow> Get (fst (Clear m)) i =
    (case Get m i of None \<Rightarrow> None | Some e \<Rightarrow> if terminal e then None else Some e)"
  by (simp add: Clear_def Let_def Get_map_of map_of_filter_value keyed_def split: option.splits)

lemma Clear_rows_get: "Get_row (fst (Clear_rows d)) i = None"
  by (simp add: Clear_rows_def delete_ids_def Get_row_def find_row_def)

text \<open>
  Clearing leaves exactly the exchanges in progress, in RAM and in SQLite; when a statement fails nothing
  is cleared, RAM included.
\<close>

theorem clear_leaves_active:
  assumes "mem_inv (hs_memory h)"
  shows "case clearExchanges marshal now f h of
      (h', ApiOk removed) \<Rightarrow> (\<forall>i. findExchange no_faults (hs_memory h') (hs_database h') i =
          ApiOk (case Get (hs_memory h) i of None \<Rightarrow> None | Some e \<Rightarrow> if terminal e then None else Some e))
        \<and> removed = int (length (completed_items (hs_memory h)))
    | (h', ApiError _ _) \<Rightarrow> h' = h"
proof -
  have "length (snd (Clear (hs_memory h))) = length (completed_items (hs_memory h))"
    by (simp add: Clear_def Let_def completed_items_def)
  moreover have "keyed (mem_items (hs_memory h))" using assms by (simp add: mem_inv_def)
  ultimately show ?thesis
    by (auto simp: clearExchanges_def Let_def case_prod_beta findExchange_no_faults Clear_get Clear_rows_get split: option.splits)
qed

theorem clear_leaves_active_witness:
  "case clearExchanges (\<lambda>_. Some 1) (wall_time 5) no_faults sample_history of
      (h', ApiOk removed) \<Rightarrow> (\<forall>i. findExchange no_faults (hs_memory h') (hs_database h') i =
          ApiOk (case Get (hs_memory sample_history) i of None \<Rightarrow> None | Some e \<Rightarrow> if terminal e then None else Some e))
        \<and> removed = int (length (completed_items (hs_memory sample_history)))
    | (h', ApiError _ _) \<Rightarrow> h' = sample_history"
  by (rule clear_leaves_active) (use history_coherent in \<open>simp add: sample_history_def coherent_history_def\<close>)

end
