(* ===== verification/Management_Api.thy ===== *)
theory Management_Api
  imports Reload_Planes Config_Updates History_Page
begin

text \<open>
  The management API: \<open>internal/httpapi/handler.go\<close> and the guards of \<open>sqlite.go\<close>, over the state it shares with the
  rest of the relay. A request is given with its decoded path, query and body (\<open>None\<close> for a body that does not decode);
  the answer is the status with the error code, empty for a success. JSON encoding is not modelled.
\<close>

section \<open>The relay behind the API\<close>

record 'n relay =
  rl_manager :: "'n manager"
  rl_files :: files
  rl_history :: history
  rl_retention :: int
  rl_management :: management_plane
  rl_traffic :: traffic_plane
  rl_udp :: udp_plane

datatype maintenance_error = MaintenanceBusy | DiskSpace | MaintenanceCancelled | MaintenanceFailed

text \<open>What the environment answers during one request.\<close>

record surroundings =
  sr_marshal :: "envelope \<Rightarrow> nat option"
  sr_now :: gotime
  sr_io :: persist_io
  sr_faults :: faults
  sr_management :: "string option"
  sr_traffic :: "string option"
  sr_udp :: "(string \<Rightarrow> ip_addr list option) \<times> string option"
  sr_random :: "8 word list option"
  sr_maintenance :: "maintenance_error option"
  sr_batches :: nat

definition announce :: "surroundings \<Rightarrow> event_type \<Rightarrow> string \<Rightarrow> u64 \<Rightarrow> event_data \<Rightarrow> history \<Rightarrow> history" where
  "announce env kind i revision data h = publish_event (sr_marshal env) (sr_now env) kind i revision data h"

section \<open>Changing the configuration\<close>

definition evictions :: "surroundings \<Rightarrow> exchange list \<Rightarrow> history \<Rightarrow> history" where
  "evictions env removed h = foldl (\<lambda>h e. announce env ExchangeEvicted (ex_id e) (ex_revision e) NoData h) h removed"

definition resizeHistory :: "surroundings \<Rightarrow> int \<Rightarrow> history \<Rightarrow> history" where
  "resizeHistory env capacity h =
     (let (m, evicted) = Resize (hs_memory h) capacity in evictions env evicted (h\<lparr>hs_memory := m\<rparr>))"

definition applyStorageSettings :: "config \<Rightarrow> 'n relay \<Rightarrow> 'n relay" where
  "applyStorageSettings cfg r =
     (if hs_database (rl_history r) \<noteq> None then r\<lparr>rl_retention := sto_retention_days (cf_storage cfg)\<rparr> else r)"

definition writeConfigError :: "manager_error \<Rightarrow> 'a api_result" where
  "writeConfigError e = (if e = RevisionConflict then ApiError 409 ''revision_conflict'' else ApiError 422 ''configuration_invalid'')"

record update_response =
  ur_view :: configuration_view
  ur_management :: "management_reload option"
  ur_traffic :: "traffic_reload option"
  ur_udp :: "udp_reload option"

text \<open>
  \<open>applyConfigurationUpdate\<close>: the three planes are prepared where their settings changed, the update is committed, and the
  plans are activated, or aborted by the deferred calls on every other way out.
\<close>

definition applyConfigurationUpdate :: "'n yaml_library \<Rightarrow> surroundings \<Rightarrow> update_request \<Rightarrow> 'n relay \<Rightarrow> 'n relay \<times> update_response api_result" where
  "applyConfigurationUpdate y env change r =
     (let current = fst (Current (rl_manager r))
      in case Prepare y (rl_manager r) change of
           Inl e \<Rightarrow> (r, writeConfigError e)
         | Inr prepared \<Rightarrow>
     (let next = pr_effective prepared
      in case begin_reload (managementSettingsChanged current next) (management_prepare (sr_management env) next) (rl_management r) of
           (mp, None) \<Rightarrow> (r\<lparr>rl_management := mp\<rparr>, ApiError 409 ''management_listener_unavailable'')
         | (mp, Some mplan) \<Rightarrow>
     (let r1 = r\<lparr>rl_management := settle management_abort mplan mp\<rparr>
      in case begin_reload (trafficSettingsChanged current next) (traffic_prepare (sr_traffic env) next) (rl_traffic r) of
           (tp, None) \<Rightarrow> (r1\<lparr>rl_traffic := tp\<rparr>, ApiError 409 ''traffic_listener_unavailable'')
         | (tp, Some tplan) \<Rightarrow>
     (let r2 = r1\<lparr>rl_traffic := settle traffic_abort tplan tp\<rparr>
      in case begin_reload (udpSettingsChanged current next) (udp_prepare (sr_udp env) next) (rl_udp r) of
           (up, None) \<Rightarrow> (r2\<lparr>rl_udp := up\<rparr>, ApiError 409 ''udp_listener_unavailable'')
         | (up, Some uplan) \<Rightarrow>
     (case Commit y (sr_io env) prepared (rl_manager r) (rl_files r) of
        (m, fs, Inl e) \<Rightarrow> (r2\<lparr>rl_udp := settle udp_abort uplan up, rl_manager := m, rl_files := fs\<rparr>, writeConfigError e)
      | (m, fs, Inr cfg) \<Rightarrow>
          let r3 = applyStorageSettings cfg (r\<lparr>rl_manager := m, rl_files := fs,
                rl_history := resizeHistory env (cf_history_max cfg) (rl_history r)\<rparr>);
              r4 = r3\<lparr>rl_history := announce env ConfigChanged [] (mg_revision m) NoData (rl_history r3)\<rparr>
          in (r4\<lparr>rl_udp := settle udp_activate uplan up, rl_traffic := settle traffic_activate tplan tp,
                rl_management := settle (management_activate (fst (Current m))) mplan mp\<rparr>,
              ApiOk \<lparr>ur_view = View m, ur_management = map_option ml_result mplan, ur_traffic = map_option tl_result tplan,
                ur_udp = map_option ul_result uplan\<rparr>))))))"

definition containsAny :: "string list \<Rightarrow> string list \<Rightarrow> bool" where
  "containsAny values candidates \<longleftrightarrow> list_ex (\<lambda>value. list_ex (\<lambda>candidate. value = candidate) candidates) values"

text \<open>\<open>strconv.ParseUint(s, 10, 64)\<close>.\<close>

definition parse_u64 :: "string \<Rightarrow> u64 option" where
  "parse_u64 s = (case parse_digits s of None \<Rightarrow> None | Some n \<Rightarrow> if int n \<ge> 18446744073709551616 then None else Some (of_nat n))"

definition removeOverride :: "'n yaml_library \<Rightarrow> surroundings \<Rightarrow> string \<Rightarrow> string \<Rightarrow> 'n relay \<Rightarrow> 'n relay \<times> update_response api_result" where
  "removeOverride y env raw_expected field r =
     (case parse_u64 raw_expected of
        None \<Rightarrow> (r, ApiError 400 ''expected_revision_required'')
      | Some expected \<Rightarrow>
          let removals = (if field = ''authentication'' then [''authentication.username'', ''authentication.password''] else [field])
          in if \<not> containsAny (vw_overrides (View (rl_manager r))) removals then (r, ApiError 404 ''override_not_found'')
             else applyConfigurationUpdate y env \<lparr>up_expected = expected, up_values = [], up_removals = removals\<rparr> r)"

text \<open>The decoded update: the expected revision, the overrides (\<open>None\<close> for a missing or null field) and the removals.\<close>

record config_update =
  cu_expected :: u64
  cu_overrides :: "(string \<times> string) list option"
  cu_removals :: "string list"

definition updateConfiguration :: "'n yaml_library \<Rightarrow> surroundings \<Rightarrow> config_update option \<Rightarrow> 'n relay \<Rightarrow> 'n relay \<times> update_response api_result" where
  "updateConfiguration y env body r =
     (case body of
        None \<Rightarrow> (r, ApiError 400 ''invalid_json'')
      | Some u \<Rightarrow> (case cu_overrides u of
            None \<Rightarrow> (r, ApiError 400 ''overrides_required'')
          | Some values \<Rightarrow> applyConfigurationUpdate y env
              \<lparr>up_expected = cu_expected u, up_values = values, up_removals = cu_removals u\<rparr> r))"

section \<open>An update is applied everywhere or nowhere\<close>

definition database_ok :: "history \<Rightarrow> bool" where
  "database_ok h \<longleftrightarrow> (case hs_database h of None \<Rightarrow> True | Some d \<Rightarrow> db_inv d)"

text \<open>The capacity of the RAM history and, with SQLite, the retention are those of a configuration.\<close>

definition stores_follow :: "'n relay \<Rightarrow> config \<Rightarrow> bool" where
  "stores_follow r cfg \<longleftrightarrow> mem_capacity (hs_memory (rl_history r)) = cf_history_max cfg
     \<and> (hs_database (rl_history r) \<noteq> None \<longrightarrow> rl_retention r = sto_retention_days (cf_storage cfg))"

text \<open>The whole relay agrees on one configuration, the one in force.\<close>

definition relay_ok :: "'n yaml_library \<Rightarrow> 'n relay \<Rightarrow> bool" where
  "relay_ok y r \<longleftrightarrow> manager_ok y (rl_manager r) \<and> mem_inv (hs_memory (rl_history r)) \<and> database_ok (rl_history r)
     \<and> stores_follow r (mg_effective (rl_manager r))
     \<and> management_settled (rl_management r) \<and> management_follows (rl_management r) (mg_effective (rl_manager r))
     \<and> traffic_settled (rl_traffic r) \<and> traffic_follows (rl_traffic r) (mg_effective (rl_manager r))
     \<and> udp_settled (rl_udp r) \<and> udp_follows (rl_udp r) (mg_effective (rl_manager r))"

text \<open>The planes as far as anything depends on them: all but the counters that number listeners.\<close>

definition endpoints :: "'n relay \<Rightarrow> management_plane \<times> traffic_plane \<times> udp_plane" where
  "endpoints r = ((rl_management r)\<lparr>mp_next := 0\<rparr>, (rl_traffic r)\<lparr>tp_next := 0\<rparr>, (rl_udp r)\<lparr>upl_next := 0\<rparr>)"

lemma evictions_sel [simp]:
  "hs_memory (evictions env removed h) = hs_memory h" "hs_database (evictions env removed h) = hs_database h"
  by (induction removed arbitrary: h) (simp_all add: evictions_def announce_def)

lemma resizeHistory_sel [simp]:
  "hs_memory (resizeHistory env capacity h) = fst (Resize (hs_memory h) capacity)"
  "hs_database (resizeHistory env capacity h) = hs_database h"
  by (simp_all add: resizeHistory_def case_prod_beta)

lemma resize_inv: "mem_inv m \<Longrightarrow> mem_inv (fst (Resize m capacity))"
  using mem_inv_apply [of m "OpResize capacity"] by simp

lemma resize_capacity: "mem_capacity (fst (Resize m capacity)) = (if capacity < 1 then 1 else capacity)"
  by (simp add: Resize_def evictExcess_eq)

lemma applyStorageSettings_sel [simp]:
  "rl_manager (applyStorageSettings cfg r) = rl_manager r" "rl_files (applyStorageSettings cfg r) = rl_files r"
  "rl_history (applyStorageSettings cfg r) = rl_history r" "rl_management (applyStorageSettings cfg r) = rl_management r"
  "rl_traffic (applyStorageSettings cfg r) = rl_traffic r" "rl_udp (applyStorageSettings cfg r) = rl_udp r"
  "rl_retention (applyStorageSettings cfg r) = (if hs_database (rl_history r) \<noteq> None then sto_retention_days (cf_storage cfg) else rl_retention r)"
  by (simp_all add: applyStorageSettings_def)

lemma announce_sel [simp]:
  "hs_memory (announce env kind i revision data h) = hs_memory h" "hs_database (announce env kind i revision data h) = hs_database h"
  by (simp_all add: announce_def)

text \<open>The ways through \<open>applyConfigurationUpdate\<close>.\<close>

definition kept :: "'n relay \<Rightarrow> 'n relay \<Rightarrow> bool" where
  "kept r r' \<longleftrightarrow> rl_manager r' = rl_manager r \<and> rl_files r' (mg_path (rl_manager r)) = rl_files r (mg_path (rl_manager r))
     \<and> rl_history r' = rl_history r \<and> rl_retention r' = rl_retention r \<and> endpoints r' = endpoints r"

lemma kept_ok:
  assumes "kept r r'" and "relay_ok y r"
    and "management_settled (rl_management r')" and "traffic_settled (rl_traffic r')" and "udp_settled (rl_udp r')"
  shows "relay_ok y r'"
  using assms management.serving_follows [of "rl_management r'" "rl_management r"]
    traffic.serving_follows [of "rl_traffic r'" "rl_traffic r"] udp.serving_follows [of "rl_udp r'" "rl_udp r"]
  by (auto simp: kept_def relay_ok_def endpoints_def stores_follow_def)

lemma kept_refl: "kept r r"
  by (simp add: kept_def)

lemma writeConfigError_error: "\<exists>status code. writeConfigError e = ApiError status code"
  by (simp add: writeConfigError_def)

lemma update_outcome:
  assumes ok: "relay_ok y r" and io: "io_create (sr_io env) \<noteq> Some (mg_path (rl_manager r))"
  obtains (refused) r' status code where "applyConfigurationUpdate y env change r = (r', ApiError status code)"
      and "kept r r'" and "relay_ok y r'"
  | (applied) r' resp where "applyConfigurationUpdate y env change r = (r', ApiOk resp)" and "relay_ok y r'"
      and "up_expected change = mg_revision (rl_manager r)" and "mg_revision (rl_manager r') = mg_revision (rl_manager r) + 1"
      and "hs_database (rl_history r') = hs_database (rl_history r)" and "ur_view resp = View (rl_manager r')"
proof -
  let ?cur = "mg_effective (rl_manager r)"
  have m: "manager_ok y (rl_manager r)"
    and mp: "management_settled (rl_management r)" "management_follows (rl_management r) ?cur"
    and tp: "traffic_settled (rl_traffic r)" "traffic_follows (rl_traffic r) ?cur"
    and up: "udp_settled (rl_udp r)" "udp_follows (rl_udp r) ?cur"
    using ok by (simp_all add: relay_ok_def)
  show thesis
  proof (cases "Prepare y (rl_manager r) change")
    case (Inl e)
    obtain status code where "applyConfigurationUpdate y env change r = (r, ApiError status code)"
      using writeConfigError_error [of e] by (auto simp: applyConfigurationUpdate_def Inl)
    then show thesis using kept_refl ok by (rule refused)
  next
    case prepared: (Inr p)
    let ?next = "pr_effective p"
    obtain mp' mres where b1: "begin_reload (managementSettingsChanged ?cur ?next) (management_prepare (sr_management env) ?next) (rl_management r) = (mp', mres)"
      by fastforce
    obtain tp' tres where b2: "begin_reload (trafficSettingsChanged ?cur ?next) (traffic_prepare (sr_traffic env) ?next) (rl_traffic r) = (tp', tres)"
      by fastforce
    obtain up' ures where b3: "begin_reload (udpSettingsChanged ?cur ?next) (udp_prepare (sr_udp env) ?next) (rl_udp r) = (up', ures)"
      by fastforce
    note run = applyConfigurationUpdate_def Let_def Current_def prepared b1 b2 b3
    show thesis
    proof (cases mres)
      case None
      with management.begin_refused [OF mp(1)] b1 have same: "mp' = rl_management r" by blast
      have "applyConfigurationUpdate y env change r = (r, ApiError 409 ''management_listener_unavailable'')"
        by (simp add: run None same)
      then show thesis using kept_refl ok by (rule refused)
    next
      case mplan: (Some mplan)
      note ma = management.begin_abort [OF mp(1) b1 [unfolded mplan]]
      note mact = management.begin_activate [OF mp b1 [unfolded mplan]]
      show thesis
      proof (cases tres)
        case None
        with traffic.begin_refused [OF tp(1)] b2 have same: "tp' = rl_traffic r" by blast
        let ?r = "r\<lparr>rl_management := settle management_abort mplan mp'\<rparr>"
        have "applyConfigurationUpdate y env change r = (?r, ApiError 409 ''traffic_listener_unavailable'')"
          by (simp add: run mplan None same)
        moreover have "kept r ?r" using ma by (simp add: kept_def endpoints_def)
        ultimately show thesis using kept_ok [OF _ ok, of ?r] ma tp(1) up(1) by (intro refused) simp_all
      next
        case tplan: (Some tplan)
        note ta = traffic.begin_abort [OF tp(1) b2 [unfolded tplan]]
        note tact = traffic.begin_activate [OF tp b2 [unfolded tplan]]
        show thesis
        proof (cases ures)
          case None
          with udp.begin_refused [OF up(1)] b3 have same: "up' = rl_udp r" by blast
          let ?r = "r\<lparr>rl_management := settle management_abort mplan mp', rl_traffic := settle traffic_abort tplan tp'\<rparr>"
          have "applyConfigurationUpdate y env change r = (?r, ApiError 409 ''udp_listener_unavailable'')"
            by (simp add: run mplan tplan None same)
          moreover have "kept r ?r" using ma ta by (simp add: kept_def endpoints_def)
          ultimately show thesis using kept_ok [OF _ ok, of ?r] ma ta up(1) by (intro refused) simp_all
        next
          case uplan: (Some uplan)
          note ua = udp.begin_abort [OF up(1) b3 [unfolded uplan]]
          note uact = udp.begin_activate [OF up b3 [unfolded uplan]]
          obtain mg fs res where c: "Commit y (sr_io env) p (rl_manager r) (rl_files r) = (mg, fs, res)"
            by (cases "Commit y (sr_io env) p (rl_manager r) (rl_files r)")
          have may: "temp_beside (sr_io env) (rl_manager r) \<and> prepared_ok y (mg_lower (rl_manager r)) p"
            using Prepare_ok [OF prepared m] io by simp
          show thesis
          proof (cases res)
            case (Inl e)
            let ?r = "r\<lparr>rl_management := settle management_abort mplan mp', rl_traffic := settle traffic_abort tplan tp',
              rl_udp := settle udp_abort uplan up', rl_manager := mg, rl_files := fs\<rparr>"
            obtain status code where "applyConfigurationUpdate y env change r = (?r, ApiError status code)"
              using writeConfigError_error [of e] by (auto simp: run mplan tplan uplan c Inl)
            moreover have "kept r ?r"
              using commit.outcome [OF may m c] Inl ma ta ua by (simp add: kept_def endpoints_def)
            ultimately show thesis using kept_ok [OF _ ok, of ?r] ma ta ua by (intro refused) simp_all
          next
            case (Inr cfg)
            obtain r' resp where run': "applyConfigurationUpdate y env change r = (r', ApiOk resp)"
              and r': "rl_manager r' = mg" "hs_memory (rl_history r') = fst (Resize (hs_memory (rl_history r)) (cf_history_max cfg))"
                "hs_database (rl_history r') = hs_database (rl_history r)"
                "hs_database (rl_history r) \<noteq> None \<Longrightarrow> rl_retention r' = sto_retention_days (cf_storage cfg)"
                "rl_management r' = settle (management_activate (mg_effective mg)) mplan mp'"
                "rl_traffic r' = settle traffic_activate tplan tp'" "rl_udp r' = settle udp_activate uplan up'"
                "ur_view resp = View mg"
              by (simp add: run mplan tplan uplan c Inr)
            have eff: "mg_effective mg = cfg" "mg_revision mg = mg_revision (rl_manager r) + 1" "cfg = ?next"
              using commit.outcome [OF may m c] Inr Commit_accepted [OF c [unfolded Inr]] by auto
            have new: "manager_ok y mg" by (rule commit.keeps_ok [OF may m c])
            then have "Validate cfg = []" using effective_of_valid eff(1) unfolding manager_ok_def by blast
            then have "0 < cf_history_max cfg" by (rule Validate_ok)
            then have "stores_follow r' cfg" using r' by (simp add: stores_follow_def resize_capacity)
            moreover have "relay_ok y r' \<longleftrightarrow> stores_follow r' cfg"
              unfolding relay_ok_def r'(1-3) r'(5-7) eff(1) database_ok_def
              using ok new mact tact uact eff
              by (auto simp: relay_ok_def resize_inv database_ok_def)
            ultimately have "relay_ok y r'" by simp
            moreover have "up_expected change = mg_revision (rl_manager r)"
              using prepared by (rule Prepare_success)
            ultimately show thesis using r' eff by (intro applied [OF run']) auto
          qed
        qed
      qed
    qed
  qed
qed


end
