(* ===== verification/App_Start.thy ===== *)
theory App_Start
  imports Management_Api
begin

text \<open>
  Starting and stopping the relay: \<open>Start\<close>, \<open>serve\<close> and \<open>shutdownRuntime\<close> of \<open>internal/app/app.go\<close>. \<open>Start\<close> binds the
  listeners, makes the manager, the stores and the planes; a listener is named in \<open>sf_open\<close> while it is open, so that
  the error paths show which they leave.
\<close>

record start_outcomes =
  so_static :: bool
  so_lookup :: "string \<Rightarrow> ip_addr list option"
  so_udp :: "string option"
  so_management :: "string option"
  so_traffic :: "string option"
  so_database :: "database option"

datatype 'n started = StartFailed string "string list" | Started "'n relay"

text \<open>\<open>startUDP\<close>: no listener when UDP is disabled, else the upstream is resolved first.\<close>

definition startUDP :: "start_outcomes \<Rightarrow> udp_settings \<Rightarrow> string + (string option \<times> addr_port option)" where
  "startUDP so cfg =
     (if \<not> udp_enabled cfg then Inr (None, None)
      else case resolveUDPUpstream (so_lookup so) cfg of
          Inl e \<Rightarrow> Inl e
        | Inr target \<Rightarrow> (case so_udp so of None \<Rightarrow> Inl ''listen for UDP traffic'' | Some addr \<Rightarrow> Inr (Some addr, target)))"

definition closing :: "string list \<Rightarrow> string list \<Rightarrow> string list" where
  "closing closed opened = filter (\<lambda>l. l \<notin> set closed) opened"

text \<open>The listener is the first that its plane opens.\<close>

definition first_listener :: "string \<Rightarrow> net_listener" where
  "first_listener addr = \<lparr>ln_id = 0, ln_addr = addr\<rparr>"

definition newUDPPlane :: "udp_settings \<Rightarrow> udp_plane" where
  "newUDPPlane cfg = \<lparr>upl_config = cfg, upl_listener = None, upl_sessions = None, upl_receivers = [], upl_closed = False,
     upl_locked = False, upl_open = [], upl_next = 0\<rparr>"

definition start_udp_plane :: "string option \<Rightarrow> addr_port option \<Rightarrow> udp_settings \<Rightarrow> udp_plane" where
  "start_udp_plane addr target cfg =
     (case addr of
        None \<Rightarrow> udp_start None target cfg (newUDPPlane cfg)
      | Some a \<Rightarrow> let (l, p) = udp_listen_on a (newUDPPlane cfg) in udp_start (Some l) target cfg p)"

definition start_traffic_plane :: "string \<Rightarrow> config \<Rightarrow> traffic_plane" where
  "start_traffic_plane addr cfg = (let (l, p) = traffic_listen addr newTrafficPlane in traffic_start l cfg p)"

definition start_management_plane :: "string \<Rightarrow> config \<Rightarrow> management_plane" where
  "start_management_plane addr cfg = (let (l, p) = management_listen addr newManagementPlane in management_start l cfg p)"

definition bus_settings :: bus_limits where
  "bus_settings = \<lparr>bl_replay_count = 1000, bl_replay_bytes = 8 * 1048576, bl_subscriber_count = 256, bl_subscriber_bytes = 2 * 1048576\<rparr>"

definition Start :: "'n yaml_library \<Rightarrow> string list \<Rightarrow> (string \<Rightarrow> string option) \<Rightarrow> path_error + string \<Rightarrow> bool \<Rightarrow> files
    \<Rightarrow> start_outcomes \<Rightarrow> config \<Rightarrow> 'n started" where
  "Start y args lookupEnv defaultSQLite readable fs so cfg =
     (if \<not> so_static so then StartFailed ''load embedded interface'' []
      else case startUDP so (cf_udp cfg) of
          Inl e \<Rightarrow> StartFailed e []
        | Inr (udpListener, target) \<Rightarrow>
     (let o1 = (case udpListener of None \<Rightarrow> [] | Some _ \<Rightarrow> [''udp''])
      in case so_management so of
           None \<Rightarrow> StartFailed ''listen for management traffic'' (closing [''udp''] o1)
         | Some managementAddr \<Rightarrow>
     (let o2 = ''management'' # o1
      in case so_traffic so of
           None \<Rightarrow> StartFailed ''listen for inspected traffic'' (closing [''management'', ''udp''] o2)
         | Some trafficAddr \<Rightarrow>
     (let o3 = ''traffic'' # o2
      in case NewManager y args lookupEnv defaultSQLite readable fs cfg of
           Inl e \<Rightarrow> StartFailed ''initialize runtime configuration'' (closing [''management'', ''traffic'', ''udp''] o3)
         | Inr manager \<Rightarrow>
             if sto_mode (cf_storage cfg) = StorageSQLite \<and> so_database so = None
             then StartFailed ''initialize sqlite history'' (closing [''management'', ''traffic'', ''udp''] o3)
             else
               let db = (if sto_mode (cf_storage cfg) = StorageSQLite then so_database so else None)
               in Started \<lparr>rl_manager = manager, rl_files = fs,
                    rl_history = \<lparr>hs_memory = NewMemory (cf_history_max cfg), hs_database = db, hs_bus = NewBus bus_settings\<rparr>,
                    rl_retention = sto_retention_days (cf_storage cfg),
                    rl_management = start_management_plane managementAddr (fst (Current manager)),
                    rl_traffic = start_traffic_plane trafficAddr cfg,
                    rl_udp = start_udp_plane udpListener target (cf_udp cfg)\<rparr>))))"

text \<open>
  \<open>serve\<close> after its wait, with \<open>shutdownRuntime\<close>: the event streams end, ingestion stops, and the management servers
  are shut down last; between them the SQLite writer closes, which is the closing of the writer queue. Every management
  server ends before \<open>Shutdown\<close> returns.
\<close>

definition shutdownRuntime :: "'n relay \<Rightarrow> 'n relay" where
  "shutdownRuntime r =
     (let r1 = r\<lparr>rl_traffic := traffic_close (rl_traffic r), rl_udp := udp_close (rl_udp r)\<rparr>;
          (p, servers) = management_shutdown (rl_management r1)
      in r1\<lparr>rl_management := fold management_served servers p\<rparr>)"

definition serve_end :: "'n relay \<Rightarrow> 'n relay" where
  "serve_end r = shutdownRuntime (r\<lparr>rl_management := CloseStreams (rl_management r)\<rparr>)"

section \<open>Starting\<close>

lemma start_management_settled:
  "management_settled (start_management_plane addr cfg)" "management_follows (start_management_plane addr cfg) cfg"
  by (auto simp: start_management_plane_def management_listen_def management_start_def newManagementPlane_def Let_def
      management_settled_def channels_ok_def sockets_ok_def current_server_def newManagementServer_def management_follows_def
      management_handler_of_def managementFactory_def management_address_def)

lemma start_traffic_settled:
  "traffic_settled (start_traffic_plane addr cfg)" "traffic_follows (start_traffic_plane addr cfg) cfg"
  by (simp_all add: start_traffic_plane_def traffic_listen_def traffic_start_def traffic_serve_on_def newTrafficPlane_def Let_def
      traffic_settled_def sockets_ok_def current_server_def newTrafficServer_def traffic_follows_def)

lemma start_udp_settled:
  "udp_settled (start_udp_plane l target cfg)"
  "cf_udp c = cfg \<Longrightarrow> (l \<noteq> None \<longleftrightarrow> udp_enabled cfg) \<Longrightarrow> udp_follows (start_udp_plane l target cfg) c"
  by (cases l; simp add: start_udp_plane_def udp_listen_on_def udp_start_def newUDPPlane_def udp_settled_def udp_follows_def
      new_sessions_again)+

lemma new_memory_capacity: "0 < c \<Longrightarrow> mem_capacity (NewMemory c) = c"
  by (simp add: NewMemory_def)

lemma startUDP_enabled: "startUDP so cfg = Inr (l, target) \<Longrightarrow> l \<noteq> None \<longleftrightarrow> udp_enabled cfg"
  by (cases "udp_enabled cfg"; cases "resolveUDPUpstream (so_lookup so) cfg"; cases "so_udp so"; cases l) (simp_all add: startUDP_def)

lemma start_outcome:
  assumes "Load y args env defaultPath d readable fs = Inr cfg" and "cf_config_path cfg \<noteq> []"
    and "fst (ResolveConfigPath args env defaultPath) = Inr (cf_config_path cfg)"
    and "case NewManager y args env d readable fs cfg of Inl e \<Rightarrow> True
      | Inr m \<Rightarrow> overrides_ok (mg_overrides m) \<and> ''storage.sqlite_path'' \<notin> fst ` set (mg_overrides m)"
    and "case so_database so of None \<Rightarrow> True | Some db \<Rightarrow> db_inv db"
  shows "case Start y args env d readable fs so cfg of
      StartFailed e opened \<Rightarrow> opened = []
    | Started r \<Rightarrow> relay_ok y r \<and> mg_effective (rl_manager r) = cfg"
proof (cases "Start y args env d readable fs so cfg")
  case (StartFailed e opened)
  then show ?thesis
    by (auto simp: Start_def closing_def Let_def split: if_splits sum.splits option.splits)
next
  case (Started r)
  then obtain l target manager managementAddr trafficAddr where udp: "startUDP so (cf_udp cfg) = Inr (l, target)"
    and new: "NewManager y args env d readable fs cfg = Inr manager"
    and r: "rl_manager r = manager" "hs_memory (rl_history r) = NewMemory (cf_history_max cfg)"
      "hs_database (rl_history r) = (if sto_mode (cf_storage cfg) = StorageSQLite then so_database so else None)"
      "rl_retention r = sto_retention_days (cf_storage cfg)"
      "rl_management r = start_management_plane managementAddr (mg_effective manager)"
      "rl_traffic r = start_traffic_plane trafficAddr cfg" "rl_udp r = start_udp_plane l target (cf_udp cfg)"
    by (auto simp: Start_def Let_def Current_def split: if_splits sum.splits option.splits)
  have m: "manager_ok y manager \<and> mg_effective manager = cfg"
    using assms(4) new by (intro started_manager_ok [OF assms(1-3)]) simp_all
  then have "0 < cf_history_max cfg"
    using effective_of_valid unfolding manager_ok_def by (blast intro: Validate_ok)
  with m show ?thesis
    using Started r assms(5) startUDP_enabled [OF udp]
    by (simp add: relay_ok_def stores_follow_def new_memory_capacity database_ok_def start_management_settled start_traffic_settled start_udp_settled mem_inv_new)
qed

text \<open>
  C20. A start that fails, at whatever point, leaves no listener open; one that succeeds gives a relay in which the manager,
  the stores and all three planes agree on the loaded configuration.
\<close>

theorem start_clean_or_consistent:
  assumes "Load y args env defaultPath d readable fs = Inr cfg" and "cf_config_path cfg \<noteq> []"
    and "fst (ResolveConfigPath args env defaultPath) = Inr (cf_config_path cfg)"
    and "case NewManager y args env d readable fs cfg of Inl e \<Rightarrow> True
      | Inr m \<Rightarrow> overrides_ok (mg_overrides m) \<and> ''storage.sqlite_path'' \<notin> fst ` set (mg_overrides m)"
    and "case so_database so of None \<Rightarrow> True | Some db \<Rightarrow> db_inv db"
  shows "case Start y args env d readable fs so cfg of
      StartFailed e opened \<Rightarrow> opened = []
    | Started r \<Rightarrow> relay_ok y r \<and> mg_effective (rl_manager r) = cfg"
  by (rule start_outcome [OF assms])

definition sample_config :: config where
  "sample_config = sample_lower\<lparr>cf_cors_enabled := True\<rparr>"

definition sample_outcomes :: start_outcomes where
  "sample_outcomes = \<lparr>so_static = True, so_lookup = \<lambda>_. None, so_udp = None, so_management = Some ''127.0.0.1:8080'',
     so_traffic = Some ''127.0.0.1:8081'', so_database = Some Open_database\<rparr>"

lemma sample_load: "Load sample_yaml [''--config=/etc/relay.yaml''] (\<lambda>_. None) (Inl NoHome) (Inl NoHome) True sample_files
    = Inr sample_config"
proof -
  have "stored sample_yaml sample_committed sample_files" and "manager_ok sample_yaml sample_committed"
    using commit.outcome [of sample_io sample_manager sample_yaml sample_prepared] commit.keeps_ok [of sample_io sample_manager sample_yaml sample_prepared]
      sample_commit sample_manager_ok by fastforce+
  moreover have "mg_path sample_committed = ''/etc/relay.yaml''" "mg_lower sample_committed = sample_lower"
    "base_of sample_yaml sample_committed = ''{}''" "mg_overrides sample_committed = sample_overrides" "mg_effective sample_committed = sample_config"
    by (simp_all add: sample_committed_def installed_def sample_manager_def base_of_def sample_yaml_def sample_config_def)
  ultimately show ?thesis
    using restart_loads [OF sample_roundtrip, of sample_committed sample_files sample_lower "Inl NoHome"
      "[''--config=/etc/relay.yaml'']" "\<lambda>_. None" "Inl NoHome" True] sample_small sample_lower_loaded sample_arguments
    by simp (simp add: sample_yaml_def sample_overrides_def)
qed

lemma sample_document: "readDocument sample_yaml True sample_files ''/etc/relay.yaml'' explicit = Inr (Some ''{}'', sample_overrides)"
  by (simp add: readDocument_def parseDocument_def sample_files_def sample_yaml_def)

lemma sample_config_path: "cf_config_path sample_config = ''/etc/relay.yaml''"
  by (simp add: sample_config_def sample_lower_def)

lemma sample_new:
  obtains m where "NewManager sample_yaml [''--config=/etc/relay.yaml''] (\<lambda>_. None) (Inl NoHome) True sample_files sample_config = Inr m"
    and "mg_overrides m = sample_overrides" and "mg_path m = ''/etc/relay.yaml''" and "mg_revision m = 1"
proof -
  have "sample_overrides \<noteq> []" by (simp add: sample_overrides_def)
  then show thesis using that
    by (simp add: NewManager_def Let_def sample_config_path sample_document sample_lower_loaded(3))
qed

text \<open>The sample satisfies what the theorems on \<open>Start\<close> assume, and starts.\<close>

lemma sample_start_facts:
  "cf_config_path sample_config \<noteq> []"
  "fst (ResolveConfigPath [''--config=/etc/relay.yaml''] (\<lambda>_. None) (Inl NoHome)) = Inr (cf_config_path sample_config)"
  "case NewManager sample_yaml [''--config=/etc/relay.yaml''] (\<lambda>_. None) (Inl NoHome) True sample_files sample_config of
      Inl e \<Rightarrow> True | Inr m \<Rightarrow> overrides_ok (mg_overrides m) \<and> ''storage.sqlite_path'' \<notin> fst ` set (mg_overrides m)"
  "case so_database sample_outcomes of None \<Rightarrow> True | Some db \<Rightarrow> db_inv db"
proof -
  show "case NewManager sample_yaml [''--config=/etc/relay.yaml''] (\<lambda>_. None) (Inl NoHome) True sample_files sample_config of
      Inl e \<Rightarrow> True | Inr m \<Rightarrow> overrides_ok (mg_overrides m) \<and> ''storage.sqlite_path'' \<notin> fst ` set (mg_overrides m)"
    by (rule sample_new) (simp add: sample_overrides_def overrides_ok_def cors_known)
qed (simp_all add: sample_config_path sample_arguments sample_outcomes_def db_inv_open)

lemma sample_started:
  obtains r where "Start sample_yaml [''--config=/etc/relay.yaml''] (\<lambda>_. None) (Inl NoHome) True sample_files sample_outcomes sample_config = Started r"
proof -
  have "\<not> udp_enabled (cf_udp sample_config)" by (simp add: sample_config_def sample_lower_def Defaults_def)
  then show thesis using that
    by (rule_tac sample_new) (simp add: Start_def startUDP_def sample_outcomes_def Let_def)
qed

theorem start_clean_or_consistent_witness:
  "case Start sample_yaml [''--config=/etc/relay.yaml''] (\<lambda>_. None) (Inl NoHome) True sample_files sample_outcomes sample_config of
      StartFailed e opened \<Rightarrow> opened = []
    | Started r \<Rightarrow> relay_ok sample_yaml r \<and> mg_effective (rl_manager r) = sample_config"
  by (rule start_clean_or_consistent [OF sample_load sample_start_facts])

section \<open>Stopping\<close>

lemma served_all: "mp_open (fold management_served is p) = filter (\<lambda>i. i \<notin> set is) (mp_open p)"
  "mp_closes (fold management_served is p) = mp_closes p" "mp_channels (fold management_served is p) = mp_channels p"
  by (induction "is" arbitrary: p) (auto simp: management_served_def removeAll_filter_not_eq intro!: filter_cong)

text \<open>
  C21. Stopping closes every listener of every plane, and every stream channel of every management handler there has been, each
  exactly once (a second close would panic).
\<close>

theorem shutdown_closes_everything:
  assumes "relay_ok y r"
  shows "tp_open (rl_traffic (serve_end r)) = [] \<and> upl_open (rl_udp (serve_end r)) = [] \<and> mp_open (rl_management (serve_end r)) = []
    \<and> distinct (mp_closes (rl_management (serve_end r)))
    \<and> set (mp_closes (rl_management (serve_end r))) = {..<mp_channels (rl_management (serve_end r))}"
proof (intro conjI)
  let ?p = "rl_management r"
  have t: "traffic_settled (rl_traffic r)" and u: "udp_settled (rl_udp r)" and m: "management_settled ?p"
    using assms by (simp_all add: relay_ok_def)
  show "tp_open (rl_traffic (serve_end r)) = []"
    using t by (simp add: serve_end_def shutdownRuntime_def Let_def case_prod_beta traffic_close_def traffic_settled_def sockets_ok_def)
  show "upl_open (rl_udp (serve_end r)) = []"
    using u udp_open_one [OF u] by (simp add: serve_end_def shutdownRuntime_def Let_def case_prod_beta udp_close_def split: option.splits)
  show "mp_open (rl_management (serve_end r)) = []"
    using m by (simp add: serve_end_def shutdownRuntime_def Let_def case_prod_beta served_all management_shutdown_def
        CloseStreams_def close_stream_def management_settled_def sockets_ok_def)
  have c: "channels_ok ?p" using m by (simp add: management_settled_def)
  have "mp_closes (rl_management (serve_end r)) = (if mp_stream_closed ?p then mp_closes ?p else mp_closes ?p @ [mp_stream ?p])"
    "mp_channels (rl_management (serve_end r)) = mp_channels ?p"
    by (simp_all add: serve_end_def shutdownRuntime_def Let_def case_prod_beta served_all management_shutdown_def
        CloseStreams_def close_stream_def)
  then show "distinct (mp_closes (rl_management (serve_end r)))"
    and "set (mp_closes (rl_management (serve_end r))) = {..<mp_channels (rl_management (serve_end r))}"
    using c by (auto simp: channels_ok_def)
qed

text \<open>A relay as it is after a start, and the answers of its surroundings.\<close>

definition sample_relay :: "string relay" where
  "sample_relay = \<lparr>rl_manager = sample_manager, rl_files = \<lambda>_. None,
     rl_history = \<lparr>hs_memory = NewMemory 100, hs_database = Some Open_database, hs_bus = NewBus bus_settings\<rparr>, rl_retention = 0,
     rl_management = start_management_plane ''127.0.0.1:8080'' sample_lower,
     rl_traffic = start_traffic_plane ''127.0.0.1:8081'' sample_lower,
     rl_udp = start_udp_plane None None (cf_udp sample_lower)\<rparr>"

definition sample_surroundings :: surroundings where
  "sample_surroundings = \<lparr>sr_marshal = \<lambda>_. Some 100, sr_now = wall_time (unix_offset_ns + 10), sr_io = sample_io, sr_faults = no_faults,
     sr_management = Some ''127.0.0.1:9090'', sr_traffic = None, sr_udp = (\<lambda>_. None, None), sr_random = Some [1, 2, 3],
     sr_maintenance = None, sr_batches = 0\<rparr>"

lemma sample_relay_ok: "relay_ok sample_yaml sample_relay"
proof -
  have "mg_effective sample_manager = sample_lower" by (simp add: sample_manager_def)
  moreover have "\<not> udp_enabled (cf_udp sample_lower)" by (simp add: sample_lower_def Defaults_def)
  moreover have "stores_follow sample_relay sample_lower"
    by (simp add: stores_follow_def sample_relay_def new_memory_capacity sample_lower_def Defaults_def)
  ultimately show ?thesis
    using sample_manager_ok(1) by (simp add: relay_ok_def sample_relay_def database_ok_def db_inv_open mem_inv_new
        start_management_settled start_traffic_settled start_udp_settled)
qed

definition sample_change :: update_request where
  "sample_change = \<lparr>up_expected = 1, up_values = sample_overrides, up_removals = []\<rparr>"


theorem shutdown_closes_everything_witness:
  "tp_open (rl_traffic (serve_end sample_relay)) = [] \<and> upl_open (rl_udp (serve_end sample_relay)) = []
    \<and> mp_open (rl_management (serve_end sample_relay)) = [] \<and> distinct (mp_closes (rl_management (serve_end sample_relay)))
    \<and> set (mp_closes (rl_management (serve_end sample_relay))) = {..<mp_channels (rl_management (serve_end sample_relay))}"
  by (rule shutdown_closes_everything [OF sample_relay_ok])

end
