(* ===== verification/Api_Routes.thy ===== *)
theory Api_Routes
  imports App_Start
begin

text \<open>
  The routes of \<open>NewManagementHandler\<close> (\<open>internal/httpapi/handler.go\<close>), the guards in front of them, the session
  endpoints and the maintenance endpoints of \<open>sqlite.go\<close>. The path is given as its segments, already cleaned: the
  redirects of \<open>ServeMux\<close> for other paths are outside. A \<open>GET\<close> pattern also serves \<open>HEAD\<close>.
\<close>

section \<open>Requests and routes\<close>

record api_request =
  aq_method :: string
  aq_path :: "string list"
  aq_remote :: string
  aq_cookie :: "string option"
  aq_origin :: string
  aq_host :: string
  aq_tls :: bool
  aq_limit :: string
  aq_cursor :: cursor_parameter
  aq_expected :: string
  aq_keep_days :: string
  aq_range :: string
  aq_credentials :: "(string \<times> string) option"
  aq_update :: "config_update option"
  aq_cleanup :: "(int \<times> bool) option"
  aq_vacuum :: "bool option"

datatype endpoint =
    Health | SessionStatus | LoginPost | LogoutDelete | StatusGet | ConfigGet | ConfigPut | OverrideDelete string
  | ExchangesGet | ExchangeGet string | ExchangeRemove string | RequestBodyGet string | ResponseBodyGet string
  | DatagramBodyGet string | ExchangesClear | EventsGet | SqliteStatus | CleanupPreview | CleanupPost | CompactPost | VacuumPost
  | NoMethod | NoRoute | StaticFile

datatype segment = Lit string | Wild

text \<open>A wildcard matches one segment that is not empty.\<close>

fun match_path :: "segment list \<Rightarrow> string list \<Rightarrow> string list option" where
  "match_path [] [] = Some []"
| "match_path (Lit l # ps) (s # ss) = (if l = s then match_path ps ss else None)"
| "match_path (Wild # ps) (s # ss) = (if s = [] then None else map_option (\<lambda>vs. s # vs) (match_path ps ss))"
| "match_path _ _ = None"

definition api_path :: "segment list \<Rightarrow> segment list" where
  "api_path ps = Lit ''api'' # Lit ''v1'' # ps"

definition route_table :: "(string \<times> segment list \<times> (string list \<Rightarrow> endpoint)) list" where
  "route_table = [
     (''GET'', [Lit ''health''], \<lambda>_. Health),
     (''GET'', [Lit ''session''], \<lambda>_. SessionStatus),
     (''POST'', [Lit ''session''], \<lambda>_. LoginPost),
     (''DELETE'', [Lit ''session''], \<lambda>_. LogoutDelete),
     (''GET'', [Lit ''status''], \<lambda>_. StatusGet),
     (''GET'', [Lit ''config''], \<lambda>_. ConfigGet),
     (''PUT'', [Lit ''config''], \<lambda>_. ConfigPut),
     (''DELETE'', [Lit ''config'', Lit ''overrides'', Wild], \<lambda>vs. OverrideDelete (hd vs)),
     (''GET'', [Lit ''exchanges''], \<lambda>_. ExchangesGet),
     (''GET'', [Lit ''exchanges'', Wild], \<lambda>vs. ExchangeGet (hd vs)),
     (''DELETE'', [Lit ''exchanges'', Wild], \<lambda>vs. ExchangeRemove (hd vs)),
     (''GET'', [Lit ''exchanges'', Wild, Lit ''request'', Lit ''body''], \<lambda>vs. RequestBodyGet (hd vs)),
     (''GET'', [Lit ''exchanges'', Wild, Lit ''response'', Lit ''body''], \<lambda>vs. ResponseBodyGet (hd vs)),
     (''GET'', [Lit ''exchanges'', Wild, Lit ''datagram'', Lit ''body''], \<lambda>vs. DatagramBodyGet (hd vs)),
     (''DELETE'', [Lit ''exchanges''], \<lambda>_. ExchangesClear),
     (''GET'', [Lit ''events''], \<lambda>_. EventsGet),
     (''GET'', [Lit ''storage'', Lit ''sqlite''], \<lambda>_. SqliteStatus),
     (''GET'', [Lit ''storage'', Lit ''sqlite'', Lit ''cleanup-preview''], \<lambda>_. CleanupPreview),
     (''POST'', [Lit ''storage'', Lit ''sqlite'', Lit ''cleanup''], \<lambda>_. CleanupPost),
     (''POST'', [Lit ''storage'', Lit ''sqlite'', Lit ''compact''], \<lambda>_. CompactPost),
     (''POST'', [Lit ''storage'', Lit ''sqlite'', Lit ''vacuum''], \<lambda>_. VacuumPost)]"

definition any_method_patterns :: "segment list list" where
  "any_method_patterns = [[Lit ''health''], [Lit ''session''], [Lit ''status''], [Lit ''config''],
     [Lit ''config'', Lit ''overrides'', Wild], [Lit ''exchanges''], [Lit ''exchanges'', Wild],
     [Lit ''exchanges'', Wild, Lit ''request'', Lit ''body''], [Lit ''exchanges'', Wild, Lit ''response'', Lit ''body''],
     [Lit ''exchanges'', Wild, Lit ''datagram'', Lit ''body''], [Lit ''events''], [Lit ''storage'', Lit ''sqlite''],
     [Lit ''storage'', Lit ''sqlite'', Lit ''cleanup-preview''], [Lit ''storage'', Lit ''sqlite'', Lit ''cleanup''],
     [Lit ''storage'', Lit ''sqlite'', Lit ''compact''], [Lit ''storage'', Lit ''sqlite'', Lit ''vacuum'']]"

definition method_matches :: "string \<Rightarrow> string \<Rightarrow> bool" where
  "method_matches pattern method \<longleftrightarrow> method = pattern \<or> pattern = ''GET'' \<and> method = ''HEAD''"

fun first_route :: "(string \<times> segment list \<times> (string list \<Rightarrow> endpoint)) list \<Rightarrow> string \<Rightarrow> string list \<Rightarrow> endpoint option" where
  "first_route [] method path = None"
| "first_route ((m, ps, endpoint_of) # rs) method path =
     (case match_path (api_path ps) path of
        Some vs \<Rightarrow> if method_matches m method then Some (endpoint_of vs) else first_route rs method path
      | None \<Rightarrow> first_route rs method path)"

definition route :: "string \<Rightarrow> string list \<Rightarrow> endpoint" where
  "route method path =
     (case first_route route_table method path of
        Some e \<Rightarrow> e
      | None \<Rightarrow>
          if list_ex (\<lambda>ps. match_path (api_path ps) path \<noteq> None) any_method_patterns then NoMethod
          else if path \<noteq> [] \<and> hd path = ''api'' then NoRoute else StaticFile)"

definition validMutationOrigin :: "api_request \<Rightarrow> bool" where
  "validMutationOrigin q =
     (if aq_origin q = [] then True
      else case url_parse (aq_origin q) of
          None \<Rightarrow> False
        | Some parsed \<Rightarrow> url_host parsed \<noteq> []
            \<and> equal_fold (url_scheme parsed) (if aq_tls q then ''https'' else ''http'')
            \<and> equal_fold (url_host parsed) (aq_host q))"

section \<open>Sessions\<close>

record session_cookie =
  ck_value :: string
  ck_max_age :: int
  ck_http_only :: bool
  ck_secure :: bool
  ck_same_site_strict :: bool

record reply =
  rp_status :: int
  rp_code :: string
  rp_cookie :: "session_cookie option"

definition reply_of :: "int \<Rightarrow> string \<Rightarrow> reply" where
  "reply_of status code = \<lparr>rp_status = status, rp_code = code, rp_cookie = None\<rparr>"

text \<open>The authenticator of the handler that the current management server runs.\<close>

definition auth_of :: "'n relay \<Rightarrow> authenticator" where
  "auth_of r = (case management_handler_of (rl_management r) of Some h \<Rightarrow> mh_auth h
     | None \<Rightarrow> newAuthenticator (cf_auth (mg_effective (rl_manager r))))"

definition set_auth :: "authenticator \<Rightarrow> 'n relay \<Rightarrow> 'n relay" where
  "set_auth a r =
     (case (mp_server (rl_management r), management_handler_of (rl_management r)) of
        (Some s, Some h) \<Rightarrow> r\<lparr>rl_management := (rl_management r)\<lparr>
          mp_handlers := AList.update (hs_id s) (h\<lparr>mh_auth := a\<rparr>) (mp_handlers (rl_management r))\<rparr>\<rparr>
      | _ \<Rightarrow> r)"

definition session_ok :: "surroundings \<Rightarrow> api_request \<Rightarrow> 'n relay \<Rightarrow> bool" where
  "session_ok env q r = snd (valid (auth_of r) (aq_cookie q) (sr_now env))"

definition check_session :: "surroundings \<Rightarrow> api_request \<Rightarrow> 'n relay \<Rightarrow> 'n relay" where
  "check_session env q r = set_auth (fst (valid (auth_of r) (aq_cookie q) (sr_now env))) r"

definition safe_method :: "string \<Rightarrow> bool" where
  "safe_method m \<longleftrightarrow> m = ''GET'' \<or> m = ''HEAD''"

definition protect :: "surroundings \<Rightarrow> api_request \<Rightarrow> ('n relay \<Rightarrow> 'n relay \<times> reply) \<Rightarrow> 'n relay \<Rightarrow> 'n relay \<times> reply" where
  "protect env q next r =
     (let r1 = check_session env q r
      in if \<not> session_ok env q r then (r1, reply_of 401 ''authentication_required'')
         else if \<not> safe_method (aq_method q) \<and> \<not> validMutationOrigin q then (r1, reply_of 403 ''origin_rejected'')
         else next r1)"

text \<open>\<open>max(1, int(expires.Sub(now).Seconds()))\<close>; the conversion truncates.\<close>

definition login_cookie :: "api_request \<Rightarrow> gotime \<Rightarrow> string \<Rightarrow> gotime \<Rightarrow> session_cookie" where
  "login_cookie q now token expires = \<lparr>ck_value = token, ck_max_age = max 1 (time_sub expires now div second_ns),
     ck_http_only = True, ck_secure = aq_tls q, ck_same_site_strict = True\<rparr>"

definition login_handler :: "surroundings \<Rightarrow> api_request \<Rightarrow> 'n relay \<Rightarrow> 'n relay \<times> reply" where
  "login_handler env q r =
     (if \<not> validMutationOrigin q then (r, reply_of 403 ''origin_rejected'')
      else case aq_credentials q of
          None \<Rightarrow> (r, reply_of 400 ''invalid_json'')
        | Some (username, password) \<Rightarrow>
            (case login (auth_of r) (aq_remote q) username password (sr_now env) (sr_random env) of
               (a, LoginFailed code) \<Rightarrow> (set_auth a r, reply_of
                  (if code = ''login_rate_limited'' \<or> code = ''session_capacity_exhausted'' then 429 else 401) code)
             | (a, LoggedIn token expires) \<Rightarrow>
                 (set_auth a r, (reply_of 200 [])\<lparr>rp_cookie := Some (login_cookie q (sr_now env) token expires)\<rparr>)))"

definition logout_handler :: "api_request \<Rightarrow> 'n relay \<Rightarrow> 'n relay \<times> reply" where
  "logout_handler q r =
     (if \<not> validMutationOrigin q then (r, reply_of 403 ''origin_rejected'')
      else (set_auth (logout (auth_of r) (aq_cookie q)) r, (reply_of 204 [])\<lparr>rp_cookie := Some
        \<lparr>ck_value = [], ck_max_age = -1, ck_http_only = True, ck_secure = aq_tls q, ck_same_site_strict = True\<rparr>\<rparr>))"

section \<open>Maintenance\<close>

definition requireSQLite :: "'n relay \<Rightarrow> bool" where
  "requireSQLite r \<longleftrightarrow> hs_database (rl_history r) \<noteq> None"

fun writeMaintenanceError :: "maintenance_error \<Rightarrow> string \<Rightarrow> reply" where
  "writeMaintenanceError MaintenanceBusy fallback = reply_of 409 ''maintenance_in_progress''"
| "writeMaintenanceError DiskSpace fallback = reply_of 507 ''insufficient_disk_space''"
| "writeMaintenanceError MaintenanceCancelled fallback = reply_of 408 ''maintenance_cancelled''"
| "writeMaintenanceError MaintenanceFailed fallback = reply_of 500 fallback"

definition sqliteStatus :: "surroundings \<Rightarrow> 'n relay \<Rightarrow> reply" where
  "sqliteStatus env r =
     (if \<not> requireSQLite r then reply_of 409 ''sqlite_disabled''
      else if sr_maintenance env \<noteq> None then reply_of 500 ''sqlite_status_failed'' else reply_of 200 [])"

definition sqliteCleanupPreview :: "surroundings \<Rightarrow> string \<Rightarrow> 'n relay \<Rightarrow> reply" where
  "sqliteCleanupPreview env raw r =
     (if \<not> requireSQLite r then reply_of 409 ''sqlite_disabled''
      else case parse_i64 raw of
          None \<Rightarrow> reply_of 400 ''invalid_keep_days''
        | Some keep_days \<Rightarrow> if keep_days < 0 then reply_of 400 ''invalid_keep_days''
            else if sr_maintenance env \<noteq> None then reply_of 500 ''cleanup_preview_failed'' else reply_of 200 [])"

text \<open>
  A cleanup deletes the old rows, in batches of 500; more rounds than rows are not needed. A failed one keeps what its batches
  have deleted. After it, what completed before the same cutoff leaves RAM: first in \<open>OnCleanup\<close>, then in the handler.
\<close>

definition evict_before :: "surroundings \<Rightarrow> gotime \<Rightarrow> history \<Rightarrow> history" where
  "evict_before env cutoff h =
     (let (m, removed) = RemoveCompletedBefore (hs_memory h) cutoff in evictions env removed (h\<lparr>hs_memory := m\<rparr>))"

fun cleanup_batches :: "nat \<Rightarrow> gotime \<Rightarrow> database \<Rightarrow> database" where
  "cleanup_batches 0 cutoff d = d"
| "cleanup_batches (Suc n) cutoff d = cleanup_batches n cutoff (fst (cleanup_batch d (unix_nano cutoff) 500))"

definition sqliteCleanup :: "surroundings \<Rightarrow> (int \<times> bool) option \<Rightarrow> 'n relay \<Rightarrow> 'n relay \<times> reply" where
  "sqliteCleanup env body r =
     (case hs_database (rl_history r) of
        None \<Rightarrow> (r, reply_of 409 ''sqlite_disabled'')
      | Some d \<Rightarrow>
          (case body of
             None \<Rightarrow> (r, reply_of 400 ''invalid_cleanup'')
           | Some (keep_days, confirm) \<Rightarrow>
               if keep_days < 0 then (r, reply_of 400 ''invalid_cleanup'')
               else if \<not> confirm then (r, reply_of 412 ''confirmation_required'')
               else
                 let cutoff = cleanup_cutoff (sr_now env) keep_days
                 in case sr_maintenance env of
                      Some e \<Rightarrow>
                        (r\<lparr>rl_history := (rl_history r)\<lparr>hs_database := Some (if e = MaintenanceBusy then d else cleanup_batches (sr_batches env) cutoff d)\<rparr>\<rparr>,
                         writeMaintenanceError e ''cleanup_failed'')
                    | None \<Rightarrow>
                        (case cleanup_loop (length (db_exchanges d) + 1) d (unix_nano cutoff) 500 0 of
                           None \<Rightarrow> (r, writeMaintenanceError MaintenanceFailed ''cleanup_failed'')
                         | Some (d1, deleted) \<Rightarrow>
                             (r\<lparr>rl_history := evict_before env cutoff (evict_before env cutoff ((rl_history r)\<lparr>hs_database := Some d1\<rparr>))\<rparr>,
                              reply_of 200 []))))"

definition sqliteCompact :: "surroundings \<Rightarrow> 'n relay \<Rightarrow> reply" where
  "sqliteCompact env r =
     (if \<not> requireSQLite r then reply_of 409 ''sqlite_disabled''
      else case sr_maintenance env of Some e \<Rightarrow> writeMaintenanceError e ''compact_failed'' | None \<Rightarrow> reply_of 200 [])"

definition sqliteVacuum :: "surroundings \<Rightarrow> bool option \<Rightarrow> 'n relay \<Rightarrow> reply" where
  "sqliteVacuum env body r =
     (if \<not> requireSQLite r then reply_of 409 ''sqlite_disabled''
      else case body of
          None \<Rightarrow> reply_of 400 ''invalid_vacuum''
        | Some confirm \<Rightarrow> if \<not> confirm then reply_of 412 ''confirmation_required''
            else case sr_maintenance env of Some e \<Rightarrow> writeMaintenanceError e ''vacuum_failed'' | None \<Rightarrow> reply_of 200 [])"

section \<open>Dispatching\<close>

fun result_reply :: "'a api_result \<Rightarrow> reply" where
  "result_reply (ApiError status code) = reply_of status code"
| "result_reply (ApiOk _) = reply_of 200 []"

definition body_reply :: "api_request \<Rightarrow> string \<Rightarrow> bytes api_result \<Rightarrow> reply" where
  "body_reply q name result =
     (case result of
        ApiError status code \<Rightarrow> reply_of status code
      | ApiOk body \<Rightarrow> (let b = writeBody (aq_range q) name body in reply_of (bo_status b) (case bo_error b of None \<Rightarrow> [] | Some e \<Rightarrow> e)))"

text \<open>A handler behind \<open>protect\<close>; the body of an event stream is outside.\<close>

fun handle :: "'n yaml_library \<Rightarrow> surroundings \<Rightarrow> api_request \<Rightarrow> endpoint \<Rightarrow> 'n relay \<Rightarrow> 'n relay \<times> reply" where
  "handle y env q ConfigPut r = (let (r', result) = updateConfiguration y env (aq_update q) r in (r', result_reply result))"
| "handle y env q (OverrideDelete field) r = (let (r', result) = removeOverride y env (aq_expected q) field r in (r', result_reply result))"
| "handle y env q (ExchangeRemove i) r =
     (let (h, result) = deleteExchange (sr_marshal env) (sr_now env) (sr_faults env) i (rl_history r) in (r\<lparr>rl_history := h\<rparr>, result_reply result))"
| "handle y env q ExchangesClear r =
     (let (h, result) = clearExchanges (sr_marshal env) (sr_now env) (sr_faults env) (rl_history r) in (r\<lparr>rl_history := h\<rparr>, result_reply result))"
| "handle y env q CleanupPost r = sqliteCleanup env (aq_cleanup q) r"
| "handle y env q CompactPost r = (r, sqliteCompact env r)"
| "handle y env q VacuumPost r = (r, sqliteVacuum env (aq_vacuum q) r)"
| "handle y env q ExchangesGet r =
     (r, result_reply (exchanges (sr_faults env) (hs_memory (rl_history r)) (hs_database (rl_history r)) (aq_limit q) (aq_cursor q)))"
| "handle y env q (ExchangeGet i) r =
     (r, result_reply (exchange_details (sr_faults env) (hs_memory (rl_history r)) (hs_database (rl_history r)) i))"
| "handle y env q (RequestBodyGet i) r =
     (r, body_reply q (i @ ''-request.bin'') (requestBody (sr_faults env) (hs_memory (rl_history r)) (hs_database (rl_history r)) i))"
| "handle y env q (ResponseBodyGet i) r =
     (r, body_reply q (i @ ''-response.bin'') (responseBody (sr_faults env) (hs_memory (rl_history r)) (hs_database (rl_history r)) i))"
| "handle y env q (DatagramBodyGet i) r =
     (r, body_reply q (i @ ''-udp-datagram.bin'') (datagramBody (sr_faults env) (hs_memory (rl_history r)) (hs_database (rl_history r)) i))"
| "handle y env q SqliteStatus r = (r, sqliteStatus env r)"
| "handle y env q CleanupPreview r = (r, sqliteCleanupPreview env (aq_keep_days q) r)"
| "handle y env q _ r = (r, reply_of 200 [])"

fun serve_api :: "'n yaml_library \<Rightarrow> surroundings \<Rightarrow> api_request \<Rightarrow> endpoint \<Rightarrow> 'n relay \<Rightarrow> 'n relay \<times> reply" where
  "serve_api y env q Health r = (r, reply_of 200 [])"
| "serve_api y env q SessionStatus r = (check_session env q r, reply_of 200 [])"
| "serve_api y env q LoginPost r = login_handler env q r"
| "serve_api y env q LogoutDelete r = logout_handler q r"
| "serve_api y env q NoMethod r = (r, reply_of 405 ''method_not_allowed'')"
| "serve_api y env q NoRoute r = (r, reply_of 404 ''route_not_found'')"
| "serve_api y env q StaticFile r = (r, reply_of 200 [])"
| "serve_api y env q e r = protect env q (handle y env q e) r"

definition ServeAPI :: "'n yaml_library \<Rightarrow> surroundings \<Rightarrow> api_request \<Rightarrow> 'n relay \<Rightarrow> 'n relay \<times> reply" where
  "ServeAPI y env q r = serve_api y env q (route (aq_method q) (aq_path q)) r"

end
