(* ===== verification/Api_Safety.thy ===== *)
theory Api_Safety
  imports Api_Routes
begin

text \<open>
  What the management API guarantees: who may change anything, and that the relay agrees on one configuration through any
  sequence of requests, traffic and servers that finish draining.
\<close>

section \<open>Routes\<close>

text \<open>The endpoints that can change the relay, and those that answer without a session.\<close>

fun changing :: "endpoint \<Rightarrow> bool" where
  "changing ConfigPut = True"
| "changing (OverrideDelete field) = True"
| "changing (ExchangeRemove i) = True"
| "changing ExchangesClear = True"
| "changing CleanupPost = True"
| "changing e = False"

definition open_endpoint :: "endpoint \<Rightarrow> bool" where
  "open_endpoint e \<longleftrightarrow> e \<in> {Health, SessionStatus, LoginPost, LogoutDelete, NoMethod, NoRoute, StaticFile}"

lemma first_route_entry:
  "first_route rs m p = Some e \<Longrightarrow> list_ex (\<lambda>(pm, ps, f). \<exists>vs. e = f vs \<and> method_matches pm m) rs"
  by (induction rs m p rule: first_route.induct) (auto split: option.splits if_splits)

lemma route_table_methods:
  "list_all (\<lambda>(pm, ps, f). pm \<noteq> ''GET'' \<and> pm \<in> {''PUT'', ''POST'', ''DELETE''} \<or> (\<forall>vs. \<not> changing (f vs))) route_table"
  by (simp add: route_table_def)

lemma changing_method:
  assumes "changing (route m p)"
  shows "m \<in> {''PUT'', ''POST'', ''DELETE''}"
proof (cases "first_route route_table m p")
  case (Some e)
  then have c: "changing e" using assms by (simp add: route_def)
  obtain pm ps f vs where "(pm, ps, f) \<in> set route_table" and e: "e = f vs" and m: "method_matches pm m"
    using first_route_entry [OF Some] by (auto simp: list_ex_iff)
  with route_table_methods have "pm \<noteq> ''GET'' \<and> pm \<in> {''PUT'', ''POST'', ''DELETE''} \<or> (\<forall>vs. \<not> changing (f vs))"
    unfolding list_all_iff by fastforce
  with c e m show ?thesis unfolding method_matches_def by metis
qed (use assms in \<open>simp add: route_def split: if_splits\<close>)

lemma protected: "\<not> open_endpoint e \<Longrightarrow> serve_api y env q e r = protect env q (handle y env q e) r"
  by (cases e) (simp_all add: open_endpoint_def)

section \<open>What a session operation changes\<close>

text \<open>The relay without the session tables of its management handlers.\<close>

definition core :: "'n relay \<Rightarrow> 'n relay" where
  "core r = r\<lparr>rl_management := (rl_management r)\<lparr>mp_handlers := []\<rparr>\<rparr>"

lemma core_set_auth [simp]: "core (set_auth a r) = core r"
  by (simp add: core_def set_auth_def split: option.splits)

lemma core_check [simp]: "core (check_session env q r) = core r"
  by (simp add: check_session_def)

lemma core_login: "core (fst (login_handler env q r)) = core r"
  by (simp add: login_handler_def Let_def split: option.splits prod.splits login_result.splits)

lemma core_logout: "core (fst (logout_handler q r)) = core r"
  by (simp add: logout_handler_def)

lemma handle_unchanging: "\<not> changing e \<Longrightarrow> fst (handle y env q e r) = r"
  by (cases e) simp_all

lemma core_open: "open_endpoint e \<Longrightarrow> core (fst (serve_api y env q e r)) = core r"
  by (cases e) (simp_all add: open_endpoint_def core_login core_logout)

lemma core_serve:
  "core (fst (serve_api y env q e r)) = core r
     \<or> changing e \<and> session_ok env q r \<and> (safe_method (aq_method q) \<or> validMutationOrigin q)"
proof (cases "open_endpoint e")
  case False
  then show ?thesis
    using handle_unchanging [of e y env q "check_session env q r"] by (auto simp: protected protect_def Let_def)
qed (simp add: core_open)

section \<open>Every request keeps the agreement\<close>

text \<open>A new authenticator with the same credentials in the current handler.\<close>

lemma follows_set_auth:
  assumes "management_follows (rl_management r) cfg" and "credentials_of a = credentials_of (auth_of r)"
  shows "management_follows (rl_management (set_auth a r)) cfg"
  using assms
  by (auto simp: set_auth_def auth_of_def management_follows_def management_handler_of_def management_address_def update_conv' bind_eq_Some_conv
      split: option.splits)

lemma set_auth_ok:
  assumes "relay_ok y r" and "credentials_of a = credentials_of (auth_of r)"
  shows "relay_ok y (set_auth a r)"
proof -
  have "management_settled (rl_management (set_auth a r)) = management_settled (rl_management r)"
    by (simp add: set_auth_def management_settled_def channels_ok_def split: option.splits)
  moreover have "rl_manager (set_auth a r) = rl_manager r" "rl_history (set_auth a r) = rl_history r"
    "rl_traffic (set_auth a r) = rl_traffic r" "rl_udp (set_auth a r) = rl_udp r" "rl_retention (set_auth a r) = rl_retention r"
    by (simp_all add: set_auth_def split: option.splits)
  ultimately show ?thesis
    using assms follows_set_auth [OF _ assms(2)] by (simp add: relay_ok_def stores_follow_def)
qed

lemma credentials_apply: "credentials_of (auth_apply a x) = credentials_of a"
  by (simp add: credentials_of_def credentials_kept)

lemma check_session_ok: "relay_ok y r \<Longrightarrow> relay_ok y (check_session env q r)"
  using credentials_apply [of "auth_of r" "OpValid (aq_cookie q) (sr_now env)"] by (simp add: check_session_def set_auth_ok)

lemma login_ok: "relay_ok y r \<Longrightarrow> relay_ok y (fst (login_handler env q r))"
proof -
  assume ok: "relay_ok y r"
  have "relay_ok y (set_auth (fst (login (auth_of r) (aq_remote q) u p (sr_now env) (sr_random env))) r)" for u p
    using credentials_apply [of "auth_of r" "OpLogin (aq_remote q) u p (sr_now env) (sr_random env)"] ok by (simp add: set_auth_ok)
  then show ?thesis
    using ok by (auto simp: login_handler_def split: option.splits prod.splits login_result.splits) (metis fst_conv)+
qed

lemma logout_ok: "relay_ok y r \<Longrightarrow> relay_ok y (fst (logout_handler q r))"
  using credentials_apply [of "auth_of r" "OpLogout (aq_cookie q)"] by (simp add: logout_handler_def set_auth_ok)

text \<open>Only the history changes, and stays consistent.\<close>

lemma history_ok:
  assumes "relay_ok y r" and "mem_inv (hs_memory h)" and "database_ok h"
    and "mem_capacity (hs_memory h) = mem_capacity (hs_memory (rl_history r))"
    and "hs_database h \<noteq> None \<longleftrightarrow> hs_database (rl_history r) \<noteq> None"
  shows "relay_ok y (r\<lparr>rl_history := h\<rparr>)"
  using assms by (auto simp: relay_ok_def stores_follow_def)

text \<open>Only \<open>Resize\<close> changes the capacity.\<close>

fun resizing :: "mem_op \<Rightarrow> bool" where
  "resizing (OpResize c) = True"
| "resizing x = False"

lemma capacity_kept: "\<not> resizing x \<Longrightarrow> mem_capacity (mem_apply m x) = mem_capacity m"
  by (cases x) (simp_all add: Save_def Clear_def Remove_def RemoveCompletedBefore_def evictExcess_eq Let_def split: option.splits)

lemmas capacity_ops = capacity_kept [of "OpSave e" for e, simplified] capacity_kept [of OpClear, simplified]
  capacity_kept [of "OpRemove i" for i, simplified] capacity_kept [of "OpRemoveBefore c" for c, simplified]

lemma remove_before_inv: "mem_inv m \<Longrightarrow> mem_inv (fst (RemoveCompletedBefore m cutoff))"
  using mem_inv_apply [of m "OpRemoveBefore cutoff"] by simp

lemma evict_before_sel [simp]:
  "hs_memory (evict_before env cutoff h) = fst (RemoveCompletedBefore (hs_memory h) cutoff)"
  "hs_database (evict_before env cutoff h) = hs_database h"
  by (simp_all add: evict_before_def case_prod_beta)

lemma batches_inv: "db_inv d \<Longrightarrow> db_inv (cleanup_batches n cutoff d)"
  by (induction n cutoff d rule: cleanup_batches.induct) (simp_all add: cleanup_batch_def Let_def db_inv_delete)


lemma db_inv_purged: "db_inv d \<Longrightarrow> db_inv (purged d cutoff)"
proof -
  assume d: "db_inv d"
  then have "purged d cutoff = delete_ids d (map row_id (expired d cutoff))"
    using delete_selected [OF d, of "expired d cutoff"]
    by (auto simp: purged_def expired_def delete_ids_def intro!: filter_cong)
  with d show ?thesis by (simp add: db_inv_delete)
qed

lemma cleanup_ok:
  assumes "relay_ok y r"
  shows "relay_ok y (fst (sqliteCleanup env body r))"
proof (cases "hs_database (rl_history r)")
  case (Some d)
  have m: "mem_inv (hs_memory (rl_history r))" and d: "db_inv d"
    using assms Some by (simp_all add: relay_ok_def database_ok_def)
  have kept: "relay_ok y (r\<lparr>rl_history := (rl_history r)\<lparr>hs_database := Some d1\<rparr>\<rparr>)" if "db_inv d1" for d1
    using assms m that Some by (intro history_ok) (simp_all add: database_ok_def)
  have cleaned: "relay_ok y (r\<lparr>rl_history := evict_before env c (evict_before env c ((rl_history r)\<lparr>hs_database := Some d1\<rparr>))\<rparr>)"
    if "db_inv d1" for d1 c
    using assms m that Some by (intro history_ok) (simp_all add: database_ok_def remove_before_inv capacity_ops)
  have loop: "cleanup_loop (length (db_exchanges d) + 1) d c 500 0 = Some (purged d c, count_expired d c)" for c
    using cleanup_loop_result [OF d, of 500 c "length (db_exchanges d) + 1" 0] by (simp add: expired_def le_imp_less_Suc)
  show ?thesis
    using assms Some loop d by (auto simp: sqliteCleanup_def Let_def kept cleaned batches_inv db_inv_purged split: option.splits)
qed (use assms in \<open>simp add: sqliteCleanup_def\<close>)

lemma remove_inv: "mem_inv m \<Longrightarrow> mem_inv (fst (Remove m i))"
  using mem_inv_apply [of m "OpRemove i"] by simp

lemma delete_ok:
  "relay_ok y r \<Longrightarrow> relay_ok y (r\<lparr>rl_history := fst (deleteExchange marshal now f i (rl_history r))\<rparr>)"
  by (intro history_ok) (auto simp: deleteExchange_def Let_def relay_ok_def database_ok_def publish_event_def Delete_def db_inv_delete
      remove_inv capacity_ops split: api_result.splits option.splits)

lemma clear_ok:
  "relay_ok y r \<Longrightarrow> relay_ok y (r\<lparr>rl_history := fst (clearExchanges marshal now f (rl_history r))\<rparr>)"
  using mem_inv_apply [of "hs_memory (rl_history r)" OpClear]
  by (intro history_ok) (auto simp: clearExchanges_def Let_def relay_ok_def database_ok_def publish_event_def Clear_rows_def db_inv_delete case_prod_beta capacity_ops
      split: option.splits)

text \<open>The configuration endpoints end in \<open>applyConfigurationUpdate\<close> or change nothing.\<close>

lemma apply_ok:
  assumes "relay_ok y r" and "io_create (sr_io env) \<noteq> Some (mg_path (rl_manager r))"
  shows "relay_ok y (fst (applyConfigurationUpdate y env change r))"
  by (rule update_outcome [OF assms, of change]) simp_all

lemma update_configuration_ok:
  assumes "relay_ok y r" and "io_create (sr_io env) \<noteq> Some (mg_path (rl_manager r))"
  shows "relay_ok y (fst (updateConfiguration y env body r))" "relay_ok y (fst (removeOverride y env raw field r))"
  using apply_ok [OF assms] assms(1)
  by (simp_all add: updateConfiguration_def removeOverride_def Let_def split: option.splits)

lemma handle_ok:
  assumes "relay_ok y r" and "io_create (sr_io env) \<noteq> Some (mg_path (rl_manager r))"
  shows "relay_ok y (fst (handle y env q e r))"
proof (cases "changing e")
  case True
  then show ?thesis
    using update_configuration_ok [OF assms] assms(1)
    by (cases e) (simp_all add: case_prod_beta cleanup_ok delete_ok clear_ok)
qed (simp add: handle_unchanging assms(1))

lemma serve_ok:
  assumes "relay_ok y r" and "io_create (sr_io env) \<noteq> Some (mg_path (rl_manager r))"
  shows "relay_ok y (fst (ServeAPI y env q r))"
proof (cases "open_endpoint (route (aq_method q) (aq_path q))")
  case True
  then show ?thesis
    using assms(1) unfolding open_endpoint_def ServeAPI_def
    by (cases "route (aq_method q) (aq_path q)") (simp_all add: login_ok logout_ok check_session_ok)
next
  case False
  have "rl_manager (check_session env q r) = rl_manager r"
    by (simp add: check_session_def set_auth_def split: option.splits)
  then have "relay_ok y (fst (handle y env q e (check_session env q r)))" for e
    using assms check_session_ok by (intro handle_ok) simp_all
  then show ?thesis
    using False assms(1) by (simp add: ServeAPI_def protected protect_def Let_def check_session_ok)
qed

section \<open>Runs of the relay\<close>

text \<open>
  A run: API requests, the traffic and the SQLite writer changing the stores, events, and the ends of servers and receive loops
  that were replaced.
\<close>

inductive relay_step :: "'n yaml_library \<Rightarrow> 'n relay \<Rightarrow> 'n relay \<Rightarrow> bool" for y where
  api: "io_create (sr_io env) \<noteq> Some (mg_path (rl_manager r)) \<Longrightarrow> relay_step y r (fst (ServeAPI y env q r))"
| memory: "\<not> resizing x \<Longrightarrow> relay_step y r (r\<lparr>rl_history := (rl_history r)\<lparr>hs_memory := mem_apply (hs_memory (rl_history r)) x\<rparr>\<rparr>)"
| transaction: "hs_database (rl_history r) = Some d \<Longrightarrow>
    relay_step y r (r\<lparr>rl_history := (rl_history r)\<lparr>hs_database := Some (write_transaction d items failure)\<rparr>\<rparr>)"
| event: "relay_step y r (r\<lparr>rl_history := announce env kind i revision data (rl_history r)\<rparr>)"
| management_drained: "i \<in> set (mp_draining (rl_management r)) \<Longrightarrow>
    relay_step y r (r\<lparr>rl_management := management_served i (rl_management r)\<rparr>)"
| traffic_drained: "i \<in> set (tp_draining (rl_traffic r)) \<Longrightarrow> relay_step y r (r\<lparr>rl_traffic := traffic_drained i (rl_traffic r)\<rparr>)"
| udp_receiver: "relay_step y r (r\<lparr>rl_udp := udp_received_last i (rl_udp r)\<rparr>)"

lemma sockets_drained:
  assumes "sockets_ok c servers draining opened n" and "i \<in> set draining"
  shows "sockets_ok c (removeAll i servers) (removeAll i draining) (removeAll i opened) n"
  using assms by (auto simp: sockets_ok_def distinct_removeAll)

lemma drained_ok:
  "relay_ok y r \<Longrightarrow> i \<in> set (mp_draining (rl_management r)) \<Longrightarrow> relay_ok y (r\<lparr>rl_management := management_served i (rl_management r)\<rparr>)"
  "relay_ok y r \<Longrightarrow> i \<in> set (tp_draining (rl_traffic r)) \<Longrightarrow> relay_ok y (r\<lparr>rl_traffic := traffic_drained i (rl_traffic r)\<rparr>)"
  by (simp_all add: relay_ok_def stores_follow_def management_served_def traffic_drained_def management_settled_def traffic_settled_def channels_ok_def
      management_follows_def traffic_follows_def management_handler_of_def management_address_def sockets_drained)

lemma receiver_ok: "relay_ok y r \<Longrightarrow> relay_ok y (r\<lparr>rl_udp := udp_received_last i (rl_udp r)\<rparr>)"
  by (auto simp: relay_ok_def stores_follow_def udp_received_last_def udp_settled_def udp_follows_def)

lemma relay_step_ok: "relay_step y r r' \<Longrightarrow> relay_ok y r \<Longrightarrow> relay_ok y r'"
proof (induction rule: relay_step.induct)
  case (memory r x)
  then show ?case by (intro history_ok) (simp_all add: relay_ok_def database_ok_def mem_inv_apply capacity_kept)
next
  case (transaction r d items failure)
  then show ?case by (intro history_ok) (simp_all add: relay_ok_def database_ok_def db_inv_transaction)
next
  case (event r env kind i revision data)
  then show ?case by (intro history_ok) (simp_all add: relay_ok_def database_ok_def)
qed (simp_all add: serve_ok drained_ok receiver_ok)

lemma relay_run_ok: "(relay_step y)\<^sup>*\<^sup>* r r' \<Longrightarrow> relay_ok y r \<Longrightarrow> relay_ok y r'"
  by (induction rule: rtranclp_induct) (simp_all add: relay_step_ok)

section \<open>Guarantees\<close>

text \<open>
  C6. Nothing but the session tables changes through the management API unless the request has a valid session, where credentials
  are configured, uses a changing method and does not come from another origin.
\<close>

theorem changes_are_authorised:
  assumes "core (fst (ServeAPI y env q r)) \<noteq> core r"
  shows "aq_method q \<in> {''PUT'', ''POST'', ''DELETE''} \<and> validMutationOrigin q
    \<and> (required (auth_of r) \<longrightarrow> (\<exists>token expires. aq_cookie q = Some token
          \<and> map_of (at_sessions (auth_of r)) token = Some expires \<and> time_after expires (sr_now env)))"
proof -
  from assms have c: "changing (route (aq_method q) (aq_path q))" and s: "session_ok env q r"
    and o: "safe_method (aq_method q) \<or> validMutationOrigin q"
    using core_serve unfolding ServeAPI_def by blast+
  have "aq_method q \<in> {''PUT'', ''POST'', ''DELETE''}" using c by (rule changing_method)
  with s o show ?thesis
    by (auto simp: safe_method_def session_ok_def valid_def split: option.splits if_splits)
qed

text \<open>Without a valid session every protected endpoint answers 401 and nothing happens but the removal of an expired session.\<close>

theorem unauthenticated_refused:
  assumes "\<not> session_ok env q r" and "\<not> open_endpoint (route (aq_method q) (aq_path q))"
  shows "snd (ServeAPI y env q r) = reply_of 401 ''authentication_required'' \<and> core (fst (ServeAPI y env q r)) = core r"
  using assms by (simp add: ServeAPI_def protected protect_def Let_def)

text \<open>
  C1. From a start of the relay, through every sequence of API requests, traffic, writes and replaced servers that end: the
  configuration in force is valid, and the listeners, the CORS switch, the UDP sessions, the credentials, the RAM
  capacity and the retention are those of this configuration.
\<close>

theorem relay_agrees_on_configuration:
  assumes "Load y args lookup defaultPath d readable fs = Inr cfg" and "cf_config_path cfg \<noteq> []"
    and "fst (ResolveConfigPath args lookup defaultPath) = Inr (cf_config_path cfg)"
    and "case NewManager y args lookup d readable fs cfg of Inl e \<Rightarrow> True
      | Inr m \<Rightarrow> overrides_ok (mg_overrides m) \<and> ''storage.sqlite_path'' \<notin> fst ` set (mg_overrides m)"
    and "case so_database so of None \<Rightarrow> True | Some db \<Rightarrow> db_inv db"
    and "Start y args lookup d readable fs so cfg = Started r0" and "(relay_step y)\<^sup>*\<^sup>* r0 r"
  shows "Validate (mg_effective (rl_manager r)) = []
    \<and> management_follows (rl_management r) (mg_effective (rl_manager r))
    \<and> traffic_follows (rl_traffic r) (mg_effective (rl_manager r))
    \<and> udp_follows (rl_udp r) (mg_effective (rl_manager r)) \<and> stores_follow r (mg_effective (rl_manager r))"
proof -
  have "relay_ok y r0" using start_outcome [OF assms(1-5)] assms(6) by fastforce
  then have "relay_ok y r" using relay_run_ok assms(7) by blast
  then show ?thesis
    using effective_of_valid unfolding relay_ok_def manager_ok_def by blast
qed

text \<open>The end of every replaced server.\<close>

definition drain_all :: "'n relay \<Rightarrow> 'n relay" where
  "drain_all r = r\<lparr>rl_management := fold management_served (remdups (mp_draining (rl_management r))) (rl_management r),
     rl_traffic := fold traffic_drained (remdups (tp_draining (rl_traffic r))) (rl_traffic r)\<rparr>"

lemma management_drains:
  "distinct is \<Longrightarrow> set is \<subseteq> set (mp_draining (rl_management r)) \<Longrightarrow>
     (relay_step y)\<^sup>*\<^sup>* r (r\<lparr>rl_management := fold management_served is (rl_management r)\<rparr>)"
proof (induction "is" arbitrary: r)
  case (Cons i rest)
  let ?r = "r\<lparr>rl_management := management_served i (rl_management r)\<rparr>"
  have "relay_step y r ?r" using Cons.prems by (intro relay_step.management_drained) simp
  moreover have "(relay_step y)\<^sup>*\<^sup>* ?r (?r\<lparr>rl_management := fold management_served rest (rl_management ?r)\<rparr>)"
    using Cons.prems by (intro Cons.IH) (auto simp: management_served_def)
  ultimately show ?case by (simp add: converse_rtranclp_into_rtranclp)
qed simp

lemma traffic_drains:
  "distinct is \<Longrightarrow> set is \<subseteq> set (tp_draining (rl_traffic r)) \<Longrightarrow>
     (relay_step y)\<^sup>*\<^sup>* r (r\<lparr>rl_traffic := fold traffic_drained is (rl_traffic r)\<rparr>)"
proof (induction "is" arbitrary: r)
  case (Cons i rest)
  let ?r = "r\<lparr>rl_traffic := traffic_drained i (rl_traffic r)\<rparr>"
  have "relay_step y r ?r" using Cons.prems by (intro relay_step.traffic_drained) simp
  moreover have "(relay_step y)\<^sup>*\<^sup>* ?r (?r\<lparr>rl_traffic := fold traffic_drained rest (rl_traffic ?r)\<rparr>)"
    using Cons.prems by (intro Cons.IH) (auto simp: traffic_drained_def)
  ultimately show ?case by (simp add: converse_rtranclp_into_rtranclp)
qed simp

lemma traffic_drained_all: "tp_open (fold traffic_drained is p) = filter (\<lambda>i. i \<notin> set is) (tp_open p)"
  by (induction "is" arbitrary: p) (auto simp: traffic_drained_def removeAll_filter_not_eq intro!: filter_cong)

lemma distinct_singleton: "set xs = {a} \<Longrightarrow> distinct xs \<Longrightarrow> xs = [a]"
  by (cases xs; cases "tl xs") auto

lemma only_current:
  assumes "sockets_ok (Some c) servers draining opened n"
  shows "filter (\<lambda>i. i \<notin> set (remdups draining)) opened = [c]"
proof -
  have "set (filter (\<lambda>i. i \<notin> set (remdups draining)) opened) = {c}"
    using assms by (auto simp: sockets_ok_def)
  moreover have "distinct (filter (\<lambda>i. i \<notin> set (remdups draining)) opened)"
    using assms by (simp add: sockets_ok_def)
  ultimately show ?thesis by (rule distinct_singleton)
qed


section \<open>Examples\<close>


definition sample_secured :: "string relay" where
  "sample_secured = set_auth ((newAuthenticator \<lparr>au_username = ''admin'', au_password = ''secret'', au_session_ttl = 1000\<rparr>)
     \<lparr>at_sessions := [(''t'', wall_time (unix_offset_ns + 1000))]\<rparr>) sample_relay"

definition sample_request :: api_request where
  "sample_request = \<lparr>aq_method = ''DELETE'', aq_path = [''api'', ''v1'', ''exchanges''], aq_remote = ''127.0.0.1:5000'', aq_cookie = Some ''t'',
     aq_origin = [], aq_host = ''127.0.0.1:8080'', aq_tls = False, aq_limit = [], aq_cursor = NoCursor, aq_expected = [],
     aq_keep_days = [], aq_range = [], aq_credentials = None, aq_update = None, aq_cleanup = None, aq_vacuum = None\<rparr>"

lemma sample_route: "route ''DELETE'' [''api'', ''v1'', ''exchanges''] = ExchangesClear"
  by (simp add: route_def route_table_def api_path_def method_matches_def)

lemma sample_auth_of: "auth_of sample_secured = (newAuthenticator \<lparr>au_username = ''admin'', au_password = ''secret'', au_session_ttl = 1000\<rparr>)
     \<lparr>at_sessions := [(''t'', wall_time (unix_offset_ns + 1000))]\<rparr>"
  by (simp add: auth_of_def sample_secured_def set_auth_def sample_relay_def start_management_plane_def management_listen_def
     management_start_def Let_def management_handler_of_def newManagementServer_def)

lemma sample_session: "session_ok sample_surroundings sample_request sample_secured"
  by (simp add: session_ok_def sample_auth_of valid_def required_def newAuthenticator_def sample_request_def sample_surroundings_def
   time_after_def wall_time_def unix_offset_ns_def time_diff_def)

lemma sample_history: "rl_history (set_auth a r) = rl_history r"
  by (simp add: set_auth_def split: option.splits)


lemma bus_next_offers: "bus_next_id (foldl (offer q) b ss) = bus_next_id b"
  by (induction ss arbitrary: b) (simp_all add: offer_def Let_def disconnect_def split: if_splits)

lemma clear_announced:
  assumes "hs_database h \<noteq> None \<longrightarrow> \<not> fl_wait f \<and> \<not> fl_delete f"
  shows "bus_next_id (hs_bus (fst (clearExchanges marshal now f h))) = bus_next_id (hs_bus h) + 1"
  using assms by (auto simp: clearExchanges_def Let_def case_prod_beta publish_event_def Publish_def bus_next_offers trimReplay_def)

lemma sample_request_route:
  "route (aq_method sample_request) (aq_path sample_request) = ExchangesClear" "validMutationOrigin sample_request"
  by (simp_all add: sample_request_def sample_route validMutationOrigin_def)

lemma replaced_history: "rl_history (r\<lparr>rl_history := h\<rparr>) = h"
  by simp

lemma sample_next: "bus_next_id (hs_bus (rl_history sample_secured)) = 0"
  by (simp add: sample_secured_def sample_history sample_relay_def NewBus_def)

lemma sample_cleared: "core (fst (ServeAPI sample_yaml sample_surroundings sample_request sample_secured)) \<noteq> core sample_secured"
proof -
  have "rl_history (fst (ServeAPI sample_yaml sample_surroundings sample_request sample_secured))
      = fst (clearExchanges (sr_marshal sample_surroundings) (sr_now sample_surroundings) (sr_faults sample_surroundings) (rl_history sample_secured))"
    unfolding ServeAPI_def sample_request_route serve_api.simps protect_def handle.simps Let_def case_prod_beta
    by (simp only: sample_session sample_request_route check_session_def sample_history not_True_eq_False simp_thms if_False fst_conv replaced_history)
  moreover have "\<not> fl_wait (sr_faults sample_surroundings) \<and> \<not> fl_delete (sr_faults sample_surroundings)"
    by (simp add: sample_surroundings_def no_faults_def)
  ultimately have "bus_next_id (hs_bus (rl_history (fst (ServeAPI sample_yaml sample_surroundings sample_request sample_secured)))) = 0 + 1"
    unfolding sample_next [symmetric] by (metis clear_announced)
  moreover have "core x = core y \<Longrightarrow> rl_history x = rl_history y" for x y :: "string relay"
    by (auto simp: core_def dest!: arg_cong [of _ _ rl_history])
  ultimately show ?thesis using sample_next by (metis add_0 zero_neq_one)
qed

theorem changes_are_authorised_witness:
  "aq_method sample_request \<in> {''PUT'', ''POST'', ''DELETE''} \<and> validMutationOrigin sample_request
    \<and> (\<exists>token expires. aq_cookie sample_request = Some token
          \<and> map_of (at_sessions (auth_of sample_secured)) token = Some expires \<and> time_after expires (sr_now sample_surroundings))"
  using changes_are_authorised [OF sample_cleared] by (simp add: sample_auth_of required_def newAuthenticator_def)

theorem unauthenticated_refused_witness:
  "snd (ServeAPI sample_yaml sample_surroundings (sample_request\<lparr>aq_cookie := None\<rparr>) sample_secured) = reply_of 401 ''authentication_required''
    \<and> core (fst (ServeAPI sample_yaml sample_surroundings (sample_request\<lparr>aq_cookie := None\<rparr>) sample_secured)) = core sample_secured"
  by (rule unauthenticated_refused)
    (simp_all add: session_ok_def sample_auth_of valid_def required_def newAuthenticator_def sample_request_def sample_route open_endpoint_def)


theorem relay_agrees_on_configuration_witness:
  "\<exists>r. Start sample_yaml [''--config=/etc/relay.yaml''] (\<lambda>_. None) (Inl NoHome) True sample_files sample_outcomes sample_config = Started r
    \<and> Validate (mg_effective (rl_manager r)) = []
    \<and> management_follows (rl_management r) (mg_effective (rl_manager r))
    \<and> traffic_follows (rl_traffic r) (mg_effective (rl_manager r))
    \<and> udp_follows (rl_udp r) (mg_effective (rl_manager r)) \<and> stores_follow r (mg_effective (rl_manager r))"
proof -
  obtain r where r: "Start sample_yaml [''--config=/etc/relay.yaml''] (\<lambda>_. None) (Inl NoHome) True sample_files sample_outcomes sample_config = Started r"
    by (rule sample_started)
  show ?thesis
    using relay_agrees_on_configuration [OF sample_load _ _ _ _ r rtranclp.rtrancl_refl] sample_start_facts r by simp
qed

end
