(* ===== verification/Udp_Sessions.thy ===== *)
theory Udp_Sessions
  imports Reload_Planes
begin

text \<open>
  The proxy sessions of UDP: \<open>internal/app/udp_sessions.go\<close>. Each client address has a session with a socket of its own
  towards the upstream; a cache of \<open>golang-lru/v2/expirable\<close>, which is not part of the repository, holds them and closes those
  it evicts. The cache is an argument; what its operations are relied on to do is \<open>cache_laws\<close>.

  Sockets are numbered by their session; what dialling, writing and reading give are arguments.
\<close>

section \<open>The cache\<close>

text \<open>Every operation returns the entries for which the eviction callback ran; \<open>lc_expire\<close> is the cleanup in the background.\<close>

record 'c session_cache =
  lc_get :: "'c \<Rightarrow> addr_port \<Rightarrow> gotime \<Rightarrow> 'c \<times> nat option"
  lc_add :: "'c \<Rightarrow> addr_port \<Rightarrow> nat \<Rightarrow> gotime \<Rightarrow> 'c \<times> (addr_port \<times> nat) list"
  lc_remove :: "'c \<Rightarrow> addr_port \<Rightarrow> 'c \<times> (addr_port \<times> nat) list"
  lc_purge :: "'c \<Rightarrow> 'c \<times> (addr_port \<times> nat) list"
  lc_expire :: "'c \<Rightarrow> gotime \<Rightarrow> 'c \<times> (addr_port \<times> nat) list"
  lc_entries :: "'c \<Rightarrow> (addr_port \<times> nat) list"

text \<open>
  The documented behaviour, for the caches that satisfy an invariant of theirs: one entry per key and at most \<open>limit\<close> entries;
  \<open>Get\<close> finds only what is there and changes the order at most; \<open>Add\<close> keeps the new entry; an entry is either kept or evicted.
\<close>

definition law_get :: "'c session_cache \<Rightarrow> ('c \<Rightarrow> bool) \<Rightarrow> bool" where
  "law_get lc ok \<longleftrightarrow> (\<forall>c key now c' found. ok c \<longrightarrow> lc_get lc c key now = (c', found) \<longrightarrow>
     ok c' \<and> set (lc_entries lc c') = set (lc_entries lc c) \<and> (\<forall>i. found = Some i \<longrightarrow> (key, i) \<in> set (lc_entries lc c)))"

definition law_add :: "'c session_cache \<Rightarrow> ('c \<Rightarrow> bool) \<Rightarrow> bool" where
  "law_add lc ok \<longleftrightarrow> (\<forall>c key i now c' gone. ok c \<longrightarrow> lc_add lc c key i now = (c', gone) \<longrightarrow>
     ok c' \<and> (key, i) \<in> set (lc_entries lc c') \<and> set (lc_entries lc c') \<inter> set gone = {}
     \<and> set (lc_entries lc c') \<union> set gone = insert (key, i) {x \<in> set (lc_entries lc c). fst x \<noteq> key})"

definition law_remove :: "'c session_cache \<Rightarrow> ('c \<Rightarrow> bool) \<Rightarrow> bool" where
  "law_remove lc ok \<longleftrightarrow> (\<forall>c key c' gone. ok c \<longrightarrow> lc_remove lc c key = (c', gone) \<longrightarrow>
     ok c' \<and> set (lc_entries lc c') = {x \<in> set (lc_entries lc c). fst x \<noteq> key} \<and> set gone = {x \<in> set (lc_entries lc c). fst x = key})"

definition law_purge :: "'c session_cache \<Rightarrow> ('c \<Rightarrow> bool) \<Rightarrow> bool" where
  "law_purge lc ok \<longleftrightarrow> (\<forall>c c' gone. ok c \<longrightarrow> lc_purge lc c = (c', gone) \<longrightarrow>
     ok c' \<and> lc_entries lc c' = [] \<and> set gone = set (lc_entries lc c))"

definition law_expire :: "'c session_cache \<Rightarrow> ('c \<Rightarrow> bool) \<Rightarrow> bool" where
  "law_expire lc ok \<longleftrightarrow> (\<forall>c now c' gone. ok c \<longrightarrow> lc_expire lc c now = (c', gone) \<longrightarrow>
     ok c' \<and> set (lc_entries lc c') \<inter> set gone = {} \<and> set (lc_entries lc c') \<union> set gone = set (lc_entries lc c))"

definition cache_laws :: "'c session_cache \<Rightarrow> ('c \<Rightarrow> bool) \<Rightarrow> int \<Rightarrow> bool" where
  "cache_laws lc ok limit \<longleftrightarrow>
     (\<forall>c. ok c \<longrightarrow> distinct (map fst (lc_entries lc c)) \<and> int (length (lc_entries lc c)) \<le> limit)
     \<and> law_get lc ok \<and> law_add lc ok \<and> law_remove lc ok \<and> law_purge lc ok \<and> law_expire lc ok"

lemma cache_law:
  assumes "cache_laws lc ok limit" and "ok c"
  shows "distinct (map fst (lc_entries lc c))" "int (length (lc_entries lc c)) \<le> limit"
  using assms by (simp_all add: cache_laws_def)

lemma cache_get:
  assumes "cache_laws lc ok limit" and "ok c" and "lc_get lc c key now = (c', found)"
  shows "ok c'" "set (lc_entries lc c') = set (lc_entries lc c)" "found = Some i \<Longrightarrow> (key, i) \<in> set (lc_entries lc c)"
  using assms unfolding cache_laws_def law_get_def by blast+

lemma cache_add:
  assumes "cache_laws lc ok limit" and "ok c" and "lc_add lc c key i now = (c', gone)"
  shows "ok c'" "(key, i) \<in> set (lc_entries lc c')" "set (lc_entries lc c') \<inter> set gone = {}"
    "set (lc_entries lc c') \<union> set gone = insert (key, i) {x \<in> set (lc_entries lc c). fst x \<noteq> key}"
  using assms unfolding cache_laws_def law_add_def by blast+

lemma cache_remove:
  assumes "cache_laws lc ok limit" and "ok c" and "lc_remove lc c key = (c', gone)"
  shows "ok c'" "set (lc_entries lc c') = {x \<in> set (lc_entries lc c). fst x \<noteq> key}"
    "set gone = {x \<in> set (lc_entries lc c). fst x = key}"
  using assms unfolding cache_laws_def law_remove_def by blast+

lemma cache_purge:
  assumes "cache_laws lc ok limit" and "ok c" and "lc_purge lc c = (c', gone)"
  shows "ok c'" "lc_entries lc c' = []" "set gone = set (lc_entries lc c)"
  using assms unfolding cache_laws_def law_purge_def by blast+

lemma cache_expire:
  assumes "cache_laws lc ok limit" and "ok c" and "lc_expire lc c now = (c', gone)"
  shows "ok c'" "set (lc_entries lc c') \<inter> set gone = {}" "set (lc_entries lc c') \<union> set gone = set (lc_entries lc c)"
  using assms unfolding cache_laws_def law_expire_def by blast+

section \<open>Sessions\<close>

record udp_session =
  se_client :: addr_port
  se_closed :: bool
  se_receiving :: bool
  se_window :: gotime
  se_replies :: int
  se_bytes :: int
  se_forwarded :: int
  se_dropped :: int

record 'c udp_sessions =
  us_manager :: udp_manager
  us_cache :: 'c
  us_closed :: bool
  us_heap :: "nat \<Rightarrow> udp_session"
  us_fresh :: nat

definition no_session :: udp_session where
  "no_session = \<lparr>se_client = \<lparr>ap_addr = \<lparr>ia_bytes = [], ia_zone = []\<rparr>, ap_port = 0\<rparr>, se_closed = True, se_receiving = False,
     se_window = zero_time, se_replies = 0, se_bytes = 0, se_forwarded = 0, se_dropped = 0\<rparr>"

definition newUDPSessions :: "'c \<Rightarrow> udp_manager \<Rightarrow> 'c udp_sessions" where
  "newUDPSessions cache manager = \<lparr>us_manager = manager, us_cache = cache, us_closed = False, us_heap = (\<lambda>_. no_session), us_fresh = 0\<rparr>"

text \<open>\<open>udpSession.close\<close>, and the eviction callback for each evicted entry.\<close>

definition session_close :: "'c udp_sessions \<Rightarrow> nat \<Rightarrow> 'c udp_sessions" where
  "session_close m i = m\<lparr>us_heap := (us_heap m)(i := (us_heap m i)\<lparr>se_closed := True\<rparr>)\<rparr>"

definition evicting :: "'c udp_sessions \<Rightarrow> 'c \<times> (addr_port \<times> nat) list \<Rightarrow> 'c udp_sessions" where
  "evicting m r = foldl session_close (m\<lparr>us_cache := fst r\<rparr>) (map snd (snd r))"

text \<open>A \<open>net.UDPAddr\<close>: the IP as a byte slice of any length. The zone of an IPv6 address is dropped.\<close>

record udp_source =
  ua_ip :: "nat list"
  ua_port :: int

definition canonicalUDPAddr :: "udp_source option \<Rightarrow> addr_port option" where
  "canonicalUDPAddr address =
     (case address of
        None \<Rightarrow> None
      | Some a \<Rightarrow>
          if ua_port a < 1 \<or> ua_port a > 65535 then None
          else if length (ua_ip a) \<noteq> 4 \<and> length (ua_ip a) \<noteq> 16 then None
          else Some \<lparr>ap_addr = addr_unmap \<lparr>ia_bytes = ua_ip a, ia_zone = []\<rparr>, ap_port = nat (ua_port a)\<rparr>)"

definition session_forward :: "string option \<Rightarrow> nat \<Rightarrow> 'c udp_sessions \<Rightarrow> 'c udp_sessions \<times> string option" where
  "session_forward write_error i m =
     (let s = us_heap m i
      in if se_closed s then (m, Some ''use of closed network connection'')
         else case write_error of
             None \<Rightarrow> (m\<lparr>us_heap := (us_heap m)(i := s\<lparr>se_forwarded := se_forwarded s + 1\<rparr>)\<rparr>, None)
           | Some e \<Rightarrow> (m, Some e))"

text \<open>
  \<open>Forward\<close>: the session of the client, or a new one. The background cleanup of the cache does not take the lock of the
  manager: with \<open>between\<close> it runs after the lookup.
\<close>

definition Forward :: "'c session_cache \<Rightarrow> gotime option \<Rightarrow> string option \<Rightarrow> string option \<Rightarrow> gotime \<Rightarrow> udp_source option
    \<Rightarrow> 'c udp_sessions \<Rightarrow> 'c udp_sessions \<times> string option" where
  "Forward lc between dial_error write_error now source m =
     (case canonicalUDPAddr source of
        None \<Rightarrow> (m, Some ''invalid UDP source address'')
      | Some key \<Rightarrow>
          if us_closed m then (m, Some ''use of closed network connection'')
          else
            let (c, found) = lc_get lc (us_cache m) key now;
                m1 = m\<lparr>us_cache := c\<rparr>;
                m2 = (case between of None \<Rightarrow> m1 | Some t \<Rightarrow> evicting m1 (lc_expire lc (us_cache m1) t))
            in case found of
                 Some i \<Rightarrow> session_forward write_error i (evicting m2 (lc_add lc (us_cache m2) key i now))
               | None \<Rightarrow>
                   let m3 = evicting m2 (lc_remove lc (us_cache m2) key)
                   in if dial_error \<noteq> None then (m3, dial_error)
                      else
                        let i = us_fresh m3;
                            s = \<lparr>se_client = key, se_closed = False, se_receiving = True, se_window = now, se_replies = 0,
                                 se_bytes = 0, se_forwarded = 0, se_dropped = 0\<rparr>;
                            m4 = m3\<lparr>us_heap := (us_heap m3)(i := s), us_fresh := i + 1\<rparr>
                        in session_forward write_error i (evicting m4 (lc_add lc (us_cache m4) key i now)))"

text \<open>\<open>allowReply\<close>: a window of one second; the empty string allows.\<close>

definition reply_window :: "gotime \<Rightarrow> udp_session \<Rightarrow> udp_session" where
  "reply_window now s = (if time_sub now (se_window s) \<ge> second_ns then s\<lparr>se_window := now, se_replies := 0, se_bytes := 0\<rparr> else s)"

definition allowReply :: "udp_settings \<Rightarrow> gotime \<Rightarrow> int \<Rightarrow> udp_session \<Rightarrow> udp_session \<times> string" where
  "allowReply cfg now bytes s =
     (let s1 = reply_window now s
      in if se_replies s1 \<ge> udp_max_replies cfg then (s1, ''reply_rate_limited'')
         else if wrap_i64 (se_bytes s1 + bytes) > udp_max_reply_bytes cfg then (s1, ''reply_byte_limited'')
         else (s1\<lparr>se_replies := se_replies s1 + 1, se_bytes := wrap_i64 (se_bytes s1 + bytes)\<rparr>, []))"

datatype reply_outcome = ReplyLoopEnded | ReplyRejected string | ReplySent addr_port bytes

text \<open>
  One round of \<open>receive\<close>: \<open>None\<close> is a read error. The read returns at most one byte more than a datagram may have.
\<close>

definition receive_reply :: "gotime \<Rightarrow> bytes option \<Rightarrow> nat \<Rightarrow> 'c udp_sessions \<Rightarrow> 'c udp_sessions \<times> reply_outcome" where
  "receive_reply now read i m =
     (let s = us_heap m i; cfg = um_config (us_manager m);
          put = (\<lambda>s. m\<lparr>us_heap := (us_heap m)(i := s)\<rparr>);
          reject = (\<lambda>s reason. (put (s\<lparr>se_dropped := se_dropped s + 1\<rparr>), ReplyRejected reason))
      in case read of
           None \<Rightarrow> (put (s\<lparr>se_receiving := False\<rparr>), ReplyLoopEnded)
         | Some data \<Rightarrow>
             if se_closed s then (put (s\<lparr>se_receiving := False\<rparr>), ReplyLoopEnded)
             else if int (length data) > udp_max_datagram cfg then reject s ''reply_oversized''
             else (case allowReply cfg now (int (length data)) s of
                 (s1, []) \<Rightarrow> (put s1, ReplySent (se_client s1) data)
               | (s1, reason) \<Rightarrow> reject s1 reason))"

definition sessions_len :: "'c session_cache \<Rightarrow> 'c udp_sessions \<Rightarrow> nat" where
  "sessions_len lc m = length (lc_entries lc (us_cache m))"

definition sessions_close :: "'c session_cache \<Rightarrow> 'c udp_sessions \<Rightarrow> 'c udp_sessions" where
  "sessions_close lc m =
     (if us_closed m then m else let m1 = m\<lparr>us_closed := True\<rparr> in evicting m1 (lc_purge lc (us_cache m1)))"

definition sessions_expire :: "'c session_cache \<Rightarrow> gotime \<Rightarrow> 'c udp_sessions \<Rightarrow> 'c udp_sessions" where
  "sessions_expire lc now m = evicting m (lc_expire lc (us_cache m) now)"

section \<open>Runs\<close>

text \<open>
  A run of the manager with an \<open>atomic\<close> cache has no cleanup between the lookup and the insertion of a \<open>Forward\<close>.
\<close>

inductive session_step :: "'c session_cache \<Rightarrow> bool \<Rightarrow> 'c udp_sessions \<Rightarrow> 'c udp_sessions \<Rightarrow> bool" for lc atomic where
  forward: "(atomic \<Longrightarrow> between = None) \<Longrightarrow> session_step lc atomic m (fst (Forward lc between dial_error write_error now source m))"
| reply: "i < us_fresh m \<Longrightarrow> session_step lc atomic m (fst (receive_reply now read i m))"
| expire: "session_step lc atomic m (sessions_expire lc now m)"
| close: "session_step lc atomic m (sessions_close lc m)"

definition open_sessions :: "'c udp_sessions \<Rightarrow> nat set" where
  "open_sessions m = {i. i < us_fresh m \<and> \<not> se_closed (us_heap m i)}"

text \<open>
  Every open socket is that of the cached session of its client; with an atomic cache every cached session is open.
\<close>

definition sessions_inv :: "'c session_cache \<Rightarrow> ('c \<Rightarrow> bool) \<Rightarrow> bool \<Rightarrow> 'c udp_sessions \<Rightarrow> bool" where
  "sessions_inv lc ok atomic m \<longleftrightarrow> ok (us_cache m)
     \<and> (\<forall>(k, i) \<in> set (lc_entries lc (us_cache m)). i < us_fresh m \<and> se_client (us_heap m i) = k \<and> (atomic \<longrightarrow> \<not> se_closed (us_heap m i)))
     \<and> (\<forall>i \<in> open_sessions m. (se_client (us_heap m i), i) \<in> set (lc_entries lc (us_cache m)))
     \<and> (us_closed m \<longrightarrow> open_sessions m = {})"

lemma evicting_heap: "us_heap (foldl session_close m is) i = (if i \<in> set is then (us_heap m i)\<lparr>se_closed := True\<rparr> else us_heap m i)"
  by (induction "is" arbitrary: m) (auto simp: session_close_def)

lemma evicting_others:
  "us_cache (foldl session_close m is) = us_cache m" "us_fresh (foldl session_close m is) = us_fresh m"
  "us_closed (foldl session_close m is) = us_closed m" "us_manager (foldl session_close m is) = us_manager m"
  by (induction "is" arbitrary: m) (simp_all add: session_close_def)

lemma evicting_sel [simp]:
  "us_cache (evicting m r) = fst r" "us_fresh (evicting m r) = us_fresh m" "us_closed (evicting m r) = us_closed m"
  "us_manager (evicting m r) = us_manager m"
  "us_heap (evicting m r) i = (if i \<in> snd ` set (snd r) then (us_heap m i)\<lparr>se_closed := True\<rparr> else us_heap m i)"
  by (simp_all add: evicting_def evicting_others evicting_heap)

lemma open_evicting: "open_sessions (evicting m r) = open_sessions m - snd ` set (snd r)"
  by (auto simp: open_sessions_def)

lemma client_evicting: "se_client (us_heap (evicting m r) i) = se_client (us_heap m i)"
  by simp

text \<open>An operation of the cache keeps the invariant if each open session is then cached or evicted.\<close>

lemma evicting_inv:
  assumes ok: "ok (fst r)"
    and entries: "\<And>k i. (k, i) \<in> set (lc_entries lc (fst r)) \<union> set (snd r) \<Longrightarrow> i < us_fresh m \<and> se_client (us_heap m i) = k"
    and opened: "\<And>i. i \<in> open_sessions m \<Longrightarrow> (se_client (us_heap m i), i) \<in> set (lc_entries lc (fst r)) \<union> set (snd r)"
    and closed: "us_closed m \<Longrightarrow> open_sessions m \<subseteq> snd ` set (snd r)"
    and kept: "\<And>k i. atomic \<Longrightarrow> (k, i) \<in> set (lc_entries lc (fst r)) \<Longrightarrow> (k, i) \<notin> set (snd r) \<and> \<not> se_closed (us_heap m i)"
  shows "sessions_inv lc ok atomic (evicting m r)"
  unfolding sessions_inv_def open_evicting client_evicting
proof (intro conjI ballI impI)
  show "ok (us_cache (evicting m r))" using ok by simp
  fix x assume x: "x \<in> set (lc_entries lc (us_cache (evicting m r)))"
  obtain k i where xi: "x = (k, i)" by fastforce
  have e: "i < us_fresh m \<and> se_client (us_heap m i) = k" using x xi entries by auto
  moreover have "\<not> se_closed (us_heap (evicting m r) i)" if "atomic"
  proof -
    have k: "(k, i) \<notin> set (snd r)" "\<not> se_closed (us_heap m i)" using kept [OF that] x xi by auto
    have "i \<notin> snd ` set (snd r)"
    proof
      assume "i \<in> snd ` set (snd r)"
      then obtain k' where "(k', i) \<in> set (snd r)" by force
      with entries [of k' i] e k show False by auto
    qed
    with k show ?thesis by simp
  qed
  ultimately show "case x of (k, i) \<Rightarrow> i < us_fresh (evicting m r) \<and> se_client (us_heap m i) = k
      \<and> (atomic \<longrightarrow> \<not> se_closed (us_heap (evicting m r) i))"
    using xi by simp
next
  fix i assume i: "i \<in> open_sessions m - snd ` set (snd r)"
  then show "(se_client (us_heap m i), i) \<in> set (lc_entries lc (us_cache (evicting m r)))"
    using opened [of i] by force
next
  assume "us_closed (evicting m r)"
  then show "open_sessions m - snd ` set (snd r) = {}" using closed by auto
qed

text \<open>An operation that keeps or evicts what is cached.\<close>

lemma evicting_same:
  assumes inv: "sessions_inv lc ok atomic m" and ok: "ok (fst r)"
    and keep: "set (lc_entries lc (fst r)) \<union> set (snd r) = set (lc_entries lc (us_cache m))"
    and apart: "set (lc_entries lc (fst r)) \<inter> set (snd r) = {}"
  shows "sessions_inv lc ok atomic (evicting m r)"
proof (rule evicting_inv [where r = r and ok = ok, OF ok])
  fix k i assume "(k, i) \<in> set (lc_entries lc (fst r)) \<union> set (snd r)"
  then show "i < us_fresh m \<and> se_client (us_heap m i) = k" using inv keep by (auto simp: sessions_inv_def)
next
  fix i assume "i \<in> open_sessions m"
  then show "(se_client (us_heap m i), i) \<in> set (lc_entries lc (fst r)) \<union> set (snd r)"
    using inv keep by (auto simp: sessions_inv_def)
next
  assume "us_closed m"
  then show "open_sessions m \<subseteq> snd ` set (snd r)" using inv by (simp add: sessions_inv_def)
next
  fix k i assume "atomic" "(k, i) \<in> set (lc_entries lc (fst r))"
  then show "(k, i) \<notin> set (snd r) \<and> \<not> se_closed (us_heap m i)"
    using inv keep apart by (auto simp: sessions_inv_def)
qed

text \<open>An operation on one session.\<close>

lemma one_session_inv:
  assumes "sessions_inv lc ok atomic m" and "se_client s = se_client (us_heap m i)" and "se_closed s = se_closed (us_heap m i)"
  shows "sessions_inv lc ok atomic (m\<lparr>us_heap := (us_heap m)(i := s)\<rparr>)"
proof -
  have "open_sessions (m\<lparr>us_heap := (us_heap m)(i := s)\<rparr>) = open_sessions m"
    using assms(3) by (auto simp: open_sessions_def)
  with assms show ?thesis by (auto simp: sessions_inv_def)
qed

lemma session_forward_inv: "sessions_inv lc ok atomic m \<Longrightarrow> sessions_inv lc ok atomic (fst (session_forward e i m))"
  by (auto simp: session_forward_def Let_def one_session_inv split: option.splits)

lemma allowReply_keeps:
  "se_client (fst (allowReply cfg now n s)) = se_client s" "se_closed (fst (allowReply cfg now n s)) = se_closed s"
  by (simp_all add: allowReply_def reply_window_def Let_def)

lemma receive_reply_inv:
  assumes "sessions_inv lc ok atomic m"
  shows "sessions_inv lc ok atomic (fst (receive_reply now read i m))"
proof -
  have "sessions_inv lc ok atomic (m\<lparr>us_heap := (us_heap m)(i := s)\<rparr>)" if "se_client s = se_client (us_heap m i)"
      "se_closed s = se_closed (us_heap m i)" for s
    using one_session_inv [OF assms that] .
  moreover have "se_client s = se_client (us_heap m i) \<and> se_closed s = se_closed (us_heap m i)"
    if "allowReply (um_config (us_manager m)) now n (us_heap m i) = (s, reason)" for n s reason
    using allowReply_keeps [of "um_config (us_manager m)" now n "us_heap m i"] that by simp
  ultimately show ?thesis
    by (simp add: receive_reply_def Let_def split: option.splits prod.splits list.splits)
qed

text \<open>\<open>Forward\<close>.\<close>

lemma get_inv:
  assumes "cache_laws lc ok limit" and "sessions_inv lc ok atomic m" and "lc_get lc (us_cache m) key now = (c, found)"
  shows "sessions_inv lc ok atomic (m\<lparr>us_cache := c\<rparr>)"
proof -
  have "ok (us_cache m)" using assms(2) by (simp add: sessions_inv_def)
  from cache_get [OF assms(1) this assms(3)] show ?thesis
    using assms(2) by (simp add: sessions_inv_def open_sessions_def)
qed

lemma expire_inv:
  assumes "cache_laws lc ok limit" and "sessions_inv lc ok atomic m"
  shows "sessions_inv lc ok atomic (evicting m (lc_expire lc (us_cache m) t))"
proof -
  have "ok (us_cache m)" using assms(2) by (simp add: sessions_inv_def)
  moreover obtain c gone where r: "lc_expire lc (us_cache m) t = (c, gone)" by fastforce
  ultimately show ?thesis
    unfolding r using cache_expire [OF assms(1) _ r] by (intro evicting_same [OF assms(2)]) simp_all
qed

lemma add_found_inv:
  assumes laws: "cache_laws lc ok limit" and inv: "sessions_inv lc ok atomic m"
    and i: "i < us_fresh m" "se_client (us_heap m i) = key" "atomic \<Longrightarrow> \<not> se_closed (us_heap m i)"
    and only: "\<And>j. (key, j) \<in> set (lc_entries lc (us_cache m)) \<Longrightarrow> j = i"
  shows "sessions_inv lc ok atomic (evicting m (lc_add lc (us_cache m) key i now))"
proof -
  have "ok (us_cache m)" using inv by (simp add: sessions_inv_def)
  moreover obtain c gone where r: "lc_add lc (us_cache m) key i now = (c, gone)" by fastforce
  ultimately have c: "ok c" "set (lc_entries lc c) \<inter> set gone = {}"
      "set (lc_entries lc c) \<union> set gone = insert (key, i) {x \<in> set (lc_entries lc (us_cache m)). fst x \<noteq> key}"
    using cache_add [OF laws _ r] by simp_all
  then have e: "set (lc_entries lc c) \<union> set gone = insert (key, i) (set (lc_entries lc (us_cache m)))"
    using only by auto
  show ?thesis
    unfolding r
  proof (rule evicting_inv)
    show "ok (fst (c, gone))" using c by simp
    fix k j assume "(k, j) \<in> set (lc_entries lc (fst (c, gone))) \<union> set (snd (c, gone))"
    then show "j < us_fresh m \<and> se_client (us_heap m j) = k" using e i inv by (auto simp: sessions_inv_def)
  next
    fix j assume "j \<in> open_sessions m"
    then show "(se_client (us_heap m j), j) \<in> set (lc_entries lc (fst (c, gone))) \<union> set (snd (c, gone))"
      using e inv by (auto simp: sessions_inv_def)
  next
    assume "us_closed m"
    then show "open_sessions m \<subseteq> snd ` set (snd (c, gone))" using inv by (simp add: sessions_inv_def)
  next
    fix k j assume "atomic" "(k, j) \<in> set (lc_entries lc (fst (c, gone)))"
    then show "(k, j) \<notin> set (snd (c, gone)) \<and> \<not> se_closed (us_heap m j)"
      using e i inv c(2) by (auto simp: sessions_inv_def)
  qed
qed

lemma drop_session_inv:
  assumes "cache_laws lc ok limit" and "sessions_inv lc ok atomic m"
  shows "sessions_inv lc ok atomic (evicting m (lc_remove lc (us_cache m) key))"
    "(key, j) \<notin> set (lc_entries lc (us_cache (evicting m (lc_remove lc (us_cache m) key))))"
proof -
  have ok: "ok (us_cache m)" using assms(2) by (simp add: sessions_inv_def)
  obtain c gone where r: "lc_remove lc (us_cache m) key = (c, gone)" by fastforce
  note c = cache_remove [OF assms(1) ok r]
  show "sessions_inv lc ok atomic (evicting m (lc_remove lc (us_cache m) key))"
    unfolding r using c by (intro evicting_same [OF assms(2)]) auto
  show "(key, j) \<notin> set (lc_entries lc (us_cache (evicting m (lc_remove lc (us_cache m) key))))"
    unfolding r using c by simp
qed

lemma add_new_inv:
  assumes laws: "cache_laws lc ok limit" and inv: "sessions_inv lc ok atomic m" and "\<not> us_closed m"
    and s: "se_client s = key" "\<not> se_closed s" and none: "\<And>j. (key, j) \<notin> set (lc_entries lc (us_cache m))"
    and n: "n = m\<lparr>us_heap := (us_heap m)(us_fresh m := s), us_fresh := us_fresh m + 1\<rparr>"
  shows "sessions_inv lc ok atomic (evicting n (lc_add lc (us_cache n) key (us_fresh m) now))"
proof -
  have ok: "ok (us_cache n)" using inv n by (simp add: sessions_inv_def)
  obtain c gone where r: "lc_add lc (us_cache n) key (us_fresh m) now = (c, gone)" by fastforce
  note c = cache_add [OF laws ok r]
  have e: "set (lc_entries lc c) \<union> set gone = insert (key, us_fresh m) (set (lc_entries lc (us_cache m)))"
    using c(4) none n by auto
  have o: "open_sessions n = insert (us_fresh m) (open_sessions m)"
    using s n by (auto simp: open_sessions_def less_Suc_eq)
  have old: "i < us_fresh m \<and> se_client (us_heap m i) = k \<and> (atomic \<longrightarrow> \<not> se_closed (us_heap m i))"
    if "(k, i) \<in> set (lc_entries lc (us_cache m))" for k i
    using inv that by (auto simp: sessions_inv_def)
  show ?thesis
    unfolding r
  proof (rule evicting_inv)
    show "ok (fst (c, gone))" using c by simp
    fix k j assume "(k, j) \<in> set (lc_entries lc (fst (c, gone))) \<union> set (snd (c, gone))"
    then have "(k, j) = (key, us_fresh m) \<or> (k, j) \<in> set (lc_entries lc (us_cache m))" using e by auto
    then show "j < us_fresh n \<and> se_client (us_heap n j) = k" using n s old by fastforce
  next
    fix j assume "j \<in> open_sessions n"
    then show "(se_client (us_heap n j), j) \<in> set (lc_entries lc (fst (c, gone))) \<union> set (snd (c, gone))"
      using e inv n s o by (auto simp: sessions_inv_def open_sessions_def)
  next
    assume "us_closed n"
    then show "open_sessions n \<subseteq> snd ` set (snd (c, gone))" using assms(3) n by simp
  next
    fix k j assume a: "atomic" "(k, j) \<in> set (lc_entries lc (fst (c, gone)))"
    then have "(k, j) = (key, us_fresh m) \<or> (k, j) \<in> set (lc_entries lc (us_cache m))" using e by auto
    then show "(k, j) \<notin> set (snd (c, gone)) \<and> \<not> se_closed (us_heap n j)"
      using a c(3) n s old by fastforce
  qed
qed

lemma Forward_inv:
  assumes laws: "cache_laws lc ok limit" and inv: "sessions_inv lc ok atomic m" and between: "atomic \<Longrightarrow> between = None"
  shows "sessions_inv lc ok atomic (fst (Forward lc between dial_error write_error now source m))"
proof (cases "canonicalUDPAddr source")
  case None
  with inv show ?thesis by (simp add: Forward_def)
next
  case key: (Some key)
  show ?thesis
  proof (cases "us_closed m")
    case True
    with inv key show ?thesis by (simp add: Forward_def)
  next
    case opened: False
    obtain c found where g: "lc_get lc (us_cache m) key now = (c, found)" by fastforce
    have ok: "ok (us_cache m)" using inv by (simp add: sessions_inv_def)
    note get = cache_get [OF laws ok g]
    define m1 where "m1 = m\<lparr>us_cache := c\<rparr>"
    define m2 where "m2 = (case between of None \<Rightarrow> m1 | Some t \<Rightarrow> evicting m1 (lc_expire lc (us_cache m1) t))"
    have i1: "sessions_inv lc ok atomic m1" unfolding m1_def by (rule get_inv [OF laws inv g])
    have i2: "sessions_inv lc ok atomic m2"
      unfolding m2_def using i1 expire_inv [OF laws i1] by (simp split: option.splits)
    have same: "us_fresh m2 = us_fresh m" "us_closed m2 = us_closed m" "se_client (us_heap m2 i) = se_client (us_heap m i)" for i
      by (simp_all add: m2_def m1_def split: option.splits)
    have sub: "set (lc_entries lc (us_cache m2)) \<subseteq> set (lc_entries lc (us_cache m))"
    proof (cases between)
      case (Some t)
      obtain c2 gone where x: "lc_expire lc c t = (c2, gone)" by fastforce
      from cache_expire [OF laws get(1) x] get(2) show ?thesis by (auto simp: m2_def m1_def Some x)
    qed (use get in \<open>simp add: m2_def m1_def\<close>)
    define m3 where "m3 = evicting m2 (lc_remove lc (us_cache m2) key)"
    define m4 where "m4 = m3\<lparr>us_heap := (us_heap m3)(us_fresh m3 := \<lparr>se_client = key, se_closed = False, se_receiving = True,
        se_window = now, se_replies = 0, se_bytes = 0, se_forwarded = 0, se_dropped = 0\<rparr>), us_fresh := us_fresh m3 + 1\<rparr>"
    have run: "Forward lc between dial_error write_error now source m = (case found of
          Some i \<Rightarrow> session_forward write_error i (evicting m2 (lc_add lc (us_cache m2) key i now))
        | None \<Rightarrow> if dial_error \<noteq> None then (m3, dial_error)
            else session_forward write_error (us_fresh m3) (evicting m4 (lc_add lc (us_cache m4) key (us_fresh m3) now)))"
      unfolding m4_def m3_def m2_def m1_def Forward_def key g Let_def option.case prod.case
      using opened by (cases found) (simp_all del: evicting_sel)
    show ?thesis
    proof (cases found)
      case (Some i)
      have e: "(key, i) \<in> set (lc_entries lc (us_cache m))" using get(3) Some by simp
      have "sessions_inv lc ok atomic (evicting m2 (lc_add lc (us_cache m2) key i now))"
      proof (rule add_found_inv [OF laws i2])
        show "i < us_fresh m2" "se_client (us_heap m2 i) = key" using e inv same by (auto simp: sessions_inv_def)
        show "\<not> se_closed (us_heap m2 i)" if atomic
          using between [OF that] that e inv by (auto simp: sessions_inv_def m2_def m1_def)
        fix j assume "(key, j) \<in> set (lc_entries lc (us_cache m2))"
        then show "j = i" using sub e cache_law(1) [OF laws ok] by (metis eq_key_imp_eq_value subsetD)
      qed
      then show ?thesis using run Some by (simp add: session_forward_inv)
    next
      case None
      note i3 = drop_session_inv [OF laws i2, of key, folded m3_def]
      have "\<not> us_closed m3" using opened same by (simp add: m3_def)
      then have "sessions_inv lc ok atomic (evicting m4 (lc_add lc (us_cache m4) key (us_fresh m3) now))"
        by (rule add_new_inv [OF laws i3(1) _ _ _ i3(2) m4_def]) simp_all
      then show ?thesis using run None i3(1) by (simp add: session_forward_inv)
    qed
  qed
qed

lemma open_cached: "sessions_inv lc ok atomic m \<Longrightarrow> open_sessions m \<subseteq> snd ` set (lc_entries lc (us_cache m))"
  by (force simp: sessions_inv_def)

lemma close_inv:
  assumes laws: "cache_laws lc ok limit" and inv: "sessions_inv lc ok atomic m"
  shows "sessions_inv lc ok atomic (sessions_close lc m)"
proof (cases "us_closed m")
  case False
  let ?m = "m\<lparr>us_closed := True\<rparr>"
  have ok: "ok (us_cache m)" using inv by (simp add: sessions_inv_def)
  obtain c gone where r: "lc_purge lc (us_cache m) = (c, gone)" by fastforce
  note c = cache_purge [OF laws ok r]
  have "sessions_inv lc ok atomic (evicting ?m (c, gone))"
  proof (rule evicting_inv)
    show "open_sessions ?m \<subseteq> snd ` set (snd (c, gone))"
      using open_cached [OF inv] c by (simp add: open_sessions_def)
  qed (use c inv in \<open>auto simp: sessions_inv_def open_sessions_def\<close>)
  then show ?thesis using False r by (simp add: sessions_close_def Let_def)
qed (use inv in \<open>simp add: sessions_close_def\<close>)

lemma session_step_inv:
  "session_step lc atomic m m' \<Longrightarrow> cache_laws lc ok limit \<Longrightarrow> sessions_inv lc ok atomic m \<Longrightarrow> sessions_inv lc ok atomic m'"
  by (induction rule: session_step.induct)
    (auto simp: sessions_expire_def intro: Forward_inv receive_reply_inv expire_inv close_inv)

lemma session_run_inv:
  assumes "(session_step lc atomic)\<^sup>*\<^sup>* (newUDPSessions cache manager) m"
    and "cache_laws lc ok limit" and "ok cache" and "lc_entries lc cache = []"
  shows "sessions_inv lc ok atomic m"
  using assms(1)
proof (induction rule: rtranclp_induct)
  case base
  show ?case using assms(3,4) by (simp add: sessions_inv_def newUDPSessions_def open_sessions_def)
next
  case (step m m')
  then show ?case using session_step_inv assms(2) by blast
qed

text \<open>
  C10. Whatever clients, upstream and cache do, at most the configured number of upstream sockets is open, one per client address, each
  the cached session of its client, and none after \<open>Close\<close>; if the cache never cleans up inside a \<open>Forward\<close>, every cached
  session is open.
\<close>

theorem udp_sockets_bounded:
  assumes "cache_laws lc ok (udp_max_sessions (um_config manager))" and "ok cache" and "lc_entries lc cache = []"
    and "(session_step lc atomic)\<^sup>*\<^sup>* (newUDPSessions cache manager) m"
  shows "int (card (open_sessions m)) \<le> udp_max_sessions (um_config manager)
    \<and> inj_on (\<lambda>i. se_client (us_heap m i)) (open_sessions m)
    \<and> open_sessions m \<subseteq> snd ` set (lc_entries lc (us_cache m))
    \<and> (us_closed m \<longrightarrow> open_sessions m = {}) \<and> (atomic \<longrightarrow> open_sessions m = snd ` set (lc_entries lc (us_cache m)))"
proof -
  let ?es = "lc_entries lc (us_cache m)"
  have inv: "sessions_inv lc ok atomic m" by (rule session_run_inv [OF assms(4,1-3)])
  then have ok: "ok (us_cache m)" by (simp add: sessions_inv_def)
  note law = cache_law [OF assms(1) ok]
  have own: "(se_client (us_heap m i), i) \<in> set ?es" if "i \<in> open_sessions m" for i
    using inv that by (auto simp: sessions_inv_def)
  have sub: "open_sessions m \<subseteq> snd ` set ?es" by (rule open_cached [OF inv])
  have "card (open_sessions m) \<le> card (snd ` set ?es)" by (rule card_mono) (use sub in simp_all)
  also have "\<dots> \<le> length ?es" using card_image_le [of "set ?es" snd] card_length [of ?es] by simp
  finally have "int (card (open_sessions m)) \<le> udp_max_sessions (um_config manager)" using law(2) by simp
  moreover have "inj_on (\<lambda>i. se_client (us_heap m i)) (open_sessions m)"
  proof (rule inj_onI)
    fix i j assume "i \<in> open_sessions m" "j \<in> open_sessions m" "se_client (us_heap m i) = se_client (us_heap m j)"
    then show "i = j" using own [of i] own [of j] law(1) by (metis eq_key_imp_eq_value)
  qed
  moreover have "snd ` set ?es \<subseteq> open_sessions m" if atomic
    using inv that by (auto simp: sessions_inv_def open_sessions_def)
  ultimately show ?thesis using sub inv by (auto simp: sessions_inv_def)
qed

section \<open>The rate of replies\<close>

text \<open>A run of \<open>allowReply\<close> on one session: the state and the replies it let through, with their times and sizes.\<close>

definition reply_step :: "udp_settings \<Rightarrow> udp_session \<times> (gotime \<times> int) list \<Rightarrow> gotime \<times> int \<Rightarrow> udp_session \<times> (gotime \<times> int) list" where
  "reply_step cfg st x = (let (s1, reason) = allowReply cfg (fst x) (snd x) (fst st) in (s1, if reason = [] then snd st @ [x] else snd st))"

definition reply_run :: "udp_settings \<Rightarrow> udp_session \<Rightarrow> (gotime \<times> int) list \<Rightarrow> udp_session \<times> (gotime \<times> int) list" where
  "reply_run cfg s xs = foldl (reply_step cfg) (s, []) xs"

definition tick :: "gotime \<Rightarrow> int" where
  "tick t = (case mono_ns t of Some n \<Rightarrow> n | None \<Rightarrow> 0)"

definition in_second :: "int \<Rightarrow> gotime \<times> int \<Rightarrow> bool" where
  "in_second t x \<longleftrightarrow> t \<le> tick (fst x) \<and> tick (fst x) < t + second_ns"

lemma allowReply_cases:
  obtains (refused) reason where "allowReply cfg now n s = (reply_window now s, reason)" and "reason \<noteq> []"
  | (allowed) s1 where "allowReply cfg now n s = (s1, [])"
      and "s1 = (reply_window now s)\<lparr>se_replies := se_replies (reply_window now s) + 1, se_bytes := wrap_i64 (se_bytes (reply_window now s) + n)\<rparr>"
      and "se_replies (reply_window now s) < udp_max_replies cfg" and "wrap_i64 (se_bytes (reply_window now s) + n) \<le> udp_max_reply_bytes cfg"
proof (cases "udp_max_replies cfg \<le> se_replies (reply_window now s)")
  case True
  then have "allowReply cfg now n s = (reply_window now s, ''reply_rate_limited'')" by (simp add: allowReply_def Let_def)
  then show thesis by (rule refused) simp
next
  case rate: False
  show thesis
  proof (cases "udp_max_reply_bytes cfg < wrap_i64 (se_bytes (reply_window now s) + n)")
    case True
    with rate have "allowReply cfg now n s = (reply_window now s, ''reply_byte_limited'')" by (simp add: allowReply_def Let_def)
    then show thesis by (rule refused) simp
  next
    case False
    with rate show thesis by (intro allowed) (simp_all add: allowReply_def Let_def)
  qed
qed

text \<open>A counter of the window, with what one reply adds to it and the limit it is held to.\<close>

locale window_counter =
  fixes cfg :: udp_settings and used :: "udp_session \<Rightarrow> int" and cost :: "int \<Rightarrow> int" and limit :: int and fine :: "udp_session \<Rightarrow> bool"
  assumes fine_window: "fine s \<Longrightarrow> fine (reply_window now s)"
    and fine_allowed: "fine s \<Longrightarrow> 0 \<le> n \<Longrightarrow> n \<le> 65507 \<Longrightarrow> allowReply cfg now n s = (s1, []) \<Longrightarrow> fine s1"
    and bound: "fine s \<Longrightarrow> 0 \<le> used s \<and> used s \<le> limit"
    and counted: "fine s \<Longrightarrow> 0 \<le> n \<Longrightarrow> n \<le> 65507 \<Longrightarrow> allowReply cfg now n s = (s1, []) \<Longrightarrow> used s1 = used (reply_window now s) + cost n"
    and restart: "time_sub now (se_window s) \<ge> second_ns \<Longrightarrow> used (reply_window now s) = 0"
    and cost_pos: "0 \<le> n \<Longrightarrow> 0 \<le> cost n"
begin

definition spent :: "int \<Rightarrow> (gotime \<times> int) list \<Rightarrow> int" where
  "spent t acc = sum_list (map (\<lambda>x. cost (snd x)) (filter (in_second t) acc))"

text \<open>The replies of any second belong to at most two windows.\<close>

definition two_windows :: "int \<Rightarrow> int \<Rightarrow> udp_session \<times> (gotime \<times> int) list \<Rightarrow> bool" where
  "two_windows t now st \<longleftrightarrow> fine (fst st) \<and> mono_ns (se_window (fst st)) \<noteq> None \<and> tick (se_window (fst st)) \<le> now
     \<and> list_all (\<lambda>x. tick (fst x) \<le> now) (snd st) \<and> spent t (snd st) \<le> 2 * limit
     \<and> (tick (se_window (fst st)) < t \<longrightarrow> spent t (snd st) \<le> used (fst st))
     \<and> (t \<le> tick (se_window (fst st)) \<and> tick (se_window (fst st)) < t + second_ns \<longrightarrow> spent t (snd st) \<le> limit + used (fst st))"

lemma spent_before: "list_all (\<lambda>x. tick (fst x) \<le> now) acc \<Longrightarrow> now < t \<Longrightarrow> spent t acc = 0"
proof -
  assume "list_all (\<lambda>x. tick (fst x) \<le> now) acc" "now < t"
  then have "filter (in_second t) acc = []" by (auto simp: list_all_iff in_second_def filter_empty_conv)
  then show ?thesis by (simp add: spent_def)
qed

lemma spent_snoc: "spent t (acc @ [x]) = spent t acc + (if in_second t x then cost (snd x) else 0)"
  by (simp add: spent_def)

text \<open>The clock moves on and the window may restart.\<close>

lemma window_moves:
  assumes "two_windows t latest (s, acc)" and "mono_ns now \<noteq> None" and "latest \<le> tick now"
  shows "two_windows t (tick now) (reply_window now s, acc)"
proof (cases "time_sub now (se_window s) \<ge> second_ns")
  case True
  obtain a b where m: "mono_ns now = Some a" "mono_ns (se_window s) = Some b"
    using assms(1,2) by (auto simp: two_windows_def)
  have gap: "tick (se_window s) + second_ns \<le> tick now"
    using True m by (simp add: time_sub_def time_diff_def tick_def clamp_i64_def second_ns_def min_i64_def max_i64_def split: if_splits)
  have w: "se_window (reply_window now s) = now" "used (reply_window now s) = 0" "fine (reply_window now s)"
    using True assms(1) restart [OF True] fine_window [of s now] by (simp_all only: two_windows_def reply_window_def if_True fst_conv) simp
  have lim: "0 \<le> limit" using bound [OF w(3)] by simp
  have "spent t acc \<le> limit" if "t \<le> tick now" "tick now < t + second_ns"
    using assms(1) that gap bound [of s] by (auto simp: two_windows_def)
  moreover have "spent t acc = 0" if "tick now < t"
    using assms that by (intro spent_before [of latest]) (simp_all add: two_windows_def)
  ultimately show ?thesis
    using assms w lim by (auto simp: two_windows_def list_all_iff)
next
  case False
  then have "reply_window now s = s" by (simp add: reply_window_def)
  with assms show ?thesis by (auto simp: two_windows_def list_all_iff)
qed

lemma window_step:
  assumes "two_windows t latest st" and "mono_ns now \<noteq> None" and "latest \<le> tick now" and "0 \<le> n" and "n \<le> 65507"
  shows "two_windows t (tick now) (reply_step cfg st (now, n))"
proof -
  obtain s acc where st: "st = (s, acc)" by fastforce
  have w: "two_windows t (tick now) (reply_window now s, acc)" using window_moves assms(1-3) st by simp
  show ?thesis
  proof (cases rule: allowReply_cases [of cfg now n s])
    case (refused reason)
    with w show ?thesis by (simp add: reply_step_def st)
  next
    case (allowed s1)
    have f: "fine s" using assms(1) st by (simp add: two_windows_def)
    have u: "used s1 = used (reply_window now s) + cost n" by (rule counted [OF f assms(4,5) allowed(1)])
    have f1: "fine s1" by (rule fine_allowed [OF f assms(4,5) allowed(1)])
    have same: "se_window s1 = se_window (reply_window now s)" using allowed(2) by simp
    show ?thesis
      using w u f1 same bound [OF f1] cost_pos [OF assms(4)] allowed(1)
      by (auto simp: reply_step_def st two_windows_def spent_snoc in_second_def list_all_iff split: if_splits)
  qed
qed

lemma run_bound:
  assumes "fine s" and "mono_ns (se_window s) \<noteq> None"
    and "list_all (\<lambda>(now, n). mono_ns now \<noteq> None \<and> 0 \<le> n \<and> n \<le> 65507) xs" and "sorted (tick (se_window s) # map (tick \<circ> fst) xs)"
  shows "spent t (snd (reply_run cfg s xs)) \<le> 2 * limit"
proof -
  have "\<exists>latest. two_windows t latest (reply_run cfg s xs) \<and> latest = (if xs = [] then tick (se_window s) else tick (fst (last xs)))"
    using assms(3,4)
  proof (induction xs rule: rev_induct)
    case Nil
    show ?case using assms(1,2) bound [OF assms(1)] by (simp add: two_windows_def reply_run_def spent_def)
  next
    case (snoc x xs)
    obtain now n where x: "x = (now, n)" by fastforce
    from snoc have ih: "two_windows t (if xs = [] then tick (se_window s) else tick (fst (last xs))) (reply_run cfg s xs)"
      by (auto simp: sorted_append)
    moreover have "(if xs = [] then tick (se_window s) else tick (fst (last xs))) \<le> tick now"
      using snoc.prems(2) x by (auto simp: sorted_append)
    ultimately have "two_windows t (tick now) (reply_step cfg (reply_run cfg s xs) (now, n))"
      using snoc.prems(1) x by (intro window_step) simp_all
    then show ?case using x by (simp add: reply_run_def)
  qed
  then show ?thesis by (auto simp: two_windows_def)
qed

end

text \<open>The two counters: replies, and their bytes where the limit leaves room for one more datagram in 64 bits.\<close>

definition replies_fine :: "udp_settings \<Rightarrow> udp_session \<Rightarrow> bool" where
  "replies_fine cfg s \<longleftrightarrow> 0 \<le> se_replies s \<and> se_replies s \<le> udp_max_replies cfg"

definition bytes_fine :: "udp_settings \<Rightarrow> udp_session \<Rightarrow> bool" where
  "bytes_fine cfg s \<longleftrightarrow> 0 \<le> se_bytes s \<and> se_bytes s \<le> udp_max_reply_bytes cfg \<and> udp_max_reply_bytes cfg \<le> max_i64 - 65507"

lemma bytes_exact:
  assumes "bytes_fine cfg s" and "0 \<le> n" and "n \<le> 65507"
  shows "wrap_i64 (se_bytes s + n) = se_bytes s + n"
  using assms by (intro wrap_i64_id) (simp add: in_i64_def bytes_fine_def min_i64_def max_i64_def)

lemma bytes_fine_window: "bytes_fine cfg s \<Longrightarrow> bytes_fine cfg (reply_window now s)"
  by (auto simp: bytes_fine_def reply_window_def)

lemma allowed_state:
  assumes "allowReply cfg now n s = (s1, [])"
  shows "se_replies s1 = se_replies (reply_window now s) + 1" "se_bytes s1 = wrap_i64 (se_bytes (reply_window now s) + n)"
    "se_replies (reply_window now s) < udp_max_replies cfg" "wrap_i64 (se_bytes (reply_window now s) + n) \<le> udp_max_reply_bytes cfg"
proof -
  have "se_replies s1 = se_replies (reply_window now s) + 1 \<and> se_bytes s1 = wrap_i64 (se_bytes (reply_window now s) + n)
    \<and> se_replies (reply_window now s) < udp_max_replies cfg \<and> wrap_i64 (se_bytes (reply_window now s) + n) \<le> udp_max_reply_bytes cfg"
  proof (cases rule: allowReply_cases [of cfg now n s])
    case (refused reason)
    with assms show ?thesis by simp
  next
    case (allowed s2)
    from allowed(1) assms have "s1 = s2" by simp
    then show ?thesis using allowed(3,4) unfolding allowed(2) by simp
  qed
  then show "se_replies s1 = se_replies (reply_window now s) + 1" "se_bytes s1 = wrap_i64 (se_bytes (reply_window now s) + n)"
    "se_replies (reply_window now s) < udp_max_replies cfg" "wrap_i64 (se_bytes (reply_window now s) + n) \<le> udp_max_reply_bytes cfg"
    by simp_all
qed

interpretation replies: window_counter cfg se_replies "\<lambda>_. 1" "udp_max_replies cfg" "replies_fine cfg" for cfg
proof
  fix s s1 now and n :: int
  assume "replies_fine cfg s" "allowReply cfg now n s = (s1, [])"
  with allowed_state [OF this(2)] show "replies_fine cfg s1"
    by (auto simp: replies_fine_def reply_window_def split: if_splits)
qed (use allowed_state in \<open>auto simp: replies_fine_def reply_window_def\<close>)

interpretation bytes: window_counter cfg se_bytes "\<lambda>n. n" "udp_max_reply_bytes cfg" "bytes_fine cfg" for cfg
proof
  fix s s1 now and n :: int
  assume f: "bytes_fine cfg s" and n: "0 \<le> n" "n \<le> 65507" and a: "allowReply cfg now n s = (s1, [])"
  note w = bytes_fine_window [OF f, of now]
  from allowed_state [OF a] bytes_exact [OF w n] show "se_bytes s1 = se_bytes (reply_window now s) + n" by simp
  with allowed_state [OF a] bytes_exact [OF w n] w n show "bytes_fine cfg s1" by (simp add: bytes_fine_def)
qed (auto simp: bytes_fine_window, auto simp: bytes_fine_def reply_window_def)

text \<open>
  C32. In any second of the monotonic clock a session passes at most twice the configured replies and twice the configured bytes to
  its client, whatever the upstream sends: a second meets at most two windows.
\<close>

theorem udp_replies_bounded:
  assumes "0 \<le> udp_max_replies cfg" and "0 \<le> udp_max_reply_bytes cfg" and "udp_max_reply_bytes cfg \<le> max_i64 - 65507"
    and "mono_ns (se_window s) \<noteq> None" and "se_replies s = 0" and "se_bytes s = 0"
    and "list_all (\<lambda>(now, n). mono_ns now \<noteq> None \<and> 0 \<le> n \<and> n \<le> 65507) xs" and "sorted (tick (se_window s) # map (tick \<circ> fst) xs)"
  shows "int (length (filter (in_second t) (snd (reply_run cfg s xs)))) \<le> 2 * udp_max_replies cfg
    \<and> sum_list (map snd (filter (in_second t) (snd (reply_run cfg s xs)))) \<le> 2 * udp_max_reply_bytes cfg"
proof
  have "replies.spent t (snd (reply_run cfg s xs)) \<le> 2 * udp_max_replies cfg"
    using assms by (intro replies.run_bound) (simp_all add: replies_fine_def)
  then show "int (length (filter (in_second t) (snd (reply_run cfg s xs)))) \<le> 2 * udp_max_replies cfg"
    by (simp add: replies.spent_def sum_list_triv comp_def)
  have "bytes.spent t (snd (reply_run cfg s xs)) \<le> 2 * udp_max_reply_bytes cfg"
    using assms by (intro bytes.run_bound) (simp_all add: bytes_fine_def)
  then show "sum_list (map snd (filter (in_second t) (snd (reply_run cfg s xs)))) \<le> 2 * udp_max_reply_bytes cfg"
    by (simp add: bytes.spent_def)
qed

section \<open>Examples\<close>

text \<open>A cache of two entries that evicts the oldest, and whose cleanup finds everything expired.\<close>

definition sample_cache :: "(addr_port \<times> nat) list session_cache" where
  "sample_cache = \<lparr>lc_get = (\<lambda>c key now. (c, map_of c key)),
     lc_add = (\<lambda>c key i now. let l = filter (\<lambda>x. fst x \<noteq> key) c @ [(key, i)] in (drop (length l - 2) l, take (length l - 2) l)),
     lc_remove = (\<lambda>c key. (filter (\<lambda>x. fst x \<noteq> key) c, filter (\<lambda>x. fst x = key) c)),
     lc_purge = (\<lambda>c. ([], c)), lc_expire = (\<lambda>c now. ([], c)), lc_entries = (\<lambda>c. c)\<rparr>"

definition sample_cache_ok :: "(addr_port \<times> nat) list \<Rightarrow> bool" where
  "sample_cache_ok c \<longleftrightarrow> distinct (map fst c) \<and> length c \<le> 2"

lemma sample_cache_add: "law_add sample_cache sample_cache_ok"
  unfolding law_add_def
proof (intro allI impI)
  fix c c' gone :: "(addr_port \<times> nat) list" and key i now
  assume ok: "sample_cache_ok c" and r: "lc_add sample_cache c key i now = (c', gone)"
  define l where "l = filter (\<lambda>x. fst x \<noteq> key) c @ [(key, i)]"
  have c: "c' = drop (length l - 2) l" "gone = take (length l - 2) l"
    using r by (simp_all add: sample_cache_def l_def Let_def)
  have d: "distinct (map fst l)" using ok by (auto simp: sample_cache_ok_def l_def distinct_map_filter)
  then have dl: "distinct l" by (simp add: distinct_map)
  have "sample_cache_ok c'" using d by (simp add: c(1) sample_cache_ok_def drop_map [symmetric])
  moreover have "(key, i) \<in> set c'" by (simp add: c(1) l_def)
  moreover have "set c' \<inter> set gone = {}" unfolding c using set_take_disj_set_drop_if_distinct [OF dl] by blast
  moreover have "set c' \<union> set gone = set l" unfolding c by (metis append_take_drop_id set_append Un_commute)
  ultimately show "sample_cache_ok c' \<and> (key, i) \<in> set (lc_entries sample_cache c') \<and> set (lc_entries sample_cache c') \<inter> set gone = {}
      \<and> set (lc_entries sample_cache c') \<union> set gone = insert (key, i) {x \<in> set (lc_entries sample_cache c). fst x \<noteq> key}"
    by (auto simp: sample_cache_def l_def)
qed

lemma sample_cache_laws: "cache_laws sample_cache sample_cache_ok 2"
proof -
  have "law_get sample_cache sample_cache_ok" "law_purge sample_cache sample_cache_ok" "law_expire sample_cache sample_cache_ok"
    by (auto simp: law_get_def law_purge_def law_expire_def sample_cache_def sample_cache_ok_def dest: map_of_SomeD)
  moreover have "law_remove sample_cache sample_cache_ok"
    by (auto simp: law_remove_def sample_cache_def sample_cache_ok_def distinct_map_filter intro: order_trans [OF length_filter_le])
  ultimately show ?thesis
    using sample_cache_add by (simp add: cache_laws_def) (simp add: sample_cache_ok_def sample_cache_def)
qed

definition sample_udp :: udp_settings where
  "sample_udp = \<lparr>udp_enabled = True, udp_listen = ''127.0.0.1:9000'', udp_mode = ModeProxy, udp_upstream = ''10.0.0.1:53'', udp_max_datagram = 100,
     udp_max_sessions = 2, udp_session_ttl = second_ns, udp_capture_response = [], udp_max_replies = 1, udp_max_reply_bytes = 50\<rparr>"

definition sample_udp_manager :: udp_manager where
  "sample_udp_manager = \<lparr>um_listener = \<lparr>ln_id = 0, ln_addr = ''127.0.0.1:9000''\<rparr>, um_upstream = None, um_config = sample_udp\<rparr>"

definition sample_source :: "nat \<Rightarrow> udp_source option" where
  "sample_source n = Some \<lparr>ua_ip = [10, 0, 0, n], ua_port = 4000\<rparr>"

lemma sample_key: "canonicalUDPAddr (sample_source n) = Some \<lparr>ap_addr = \<lparr>ia_bytes = [10, 0, 0, n], ia_zone = []\<rparr>, ap_port = 4000\<rparr>"
  by (simp add: canonicalUDPAddr_def sample_source_def addr_unmap_def)

definition first_session :: "(addr_port \<times> nat) list udp_sessions" where
  "first_session = fst (Forward sample_cache None None None zero_time (sample_source 1) (newUDPSessions [] sample_udp_manager))"

theorem udp_sockets_bounded_witness:
  "int (card (open_sessions first_session)) \<le> 2 \<and> open_sessions first_session = snd ` set (us_cache first_session)"
proof -
  have m: "udp_max_sessions (um_config sample_udp_manager) = 2" by (simp add: sample_udp_manager_def sample_udp_def)
  have laws: "cache_laws sample_cache sample_cache_ok (udp_max_sessions (um_config sample_udp_manager))"
    unfolding m by (rule sample_cache_laws)
  have "session_step sample_cache True (newUDPSessions [] sample_udp_manager) first_session"
    unfolding first_session_def by (rule session_step.forward) simp
  then have run: "(session_step sample_cache True)\<^sup>*\<^sup>* (newUDPSessions [] sample_udp_manager) first_session" by simp
  have "sample_cache_ok []" "lc_entries sample_cache [] = []" by (simp_all add: sample_cache_ok_def sample_cache_def)
  from udp_sockets_bounded [OF laws this run]
  have "int (card (open_sessions first_session)) \<le> 2" "open_sessions first_session = snd ` set (lc_entries sample_cache (us_cache first_session))"
    unfolding m by blast+
  then show ?thesis by (simp add: sample_cache_def)
qed

text \<open>
  With one reply per second configured, two replies within a nanosecond pass: the last moment of a window and the first of the
  next. The bound above is reached.
\<close>

theorem udp_replies_bounded_witness:
  "length (filter (in_second 0) (snd (reply_run sample_udp (no_session\<lparr>se_window := \<lparr>wall_ns = 0, mono_ns = Some (- 1)\<rparr>\<rparr>)
     [(\<lparr>wall_ns = 0, mono_ns = Some 999999998\<rparr>, 10), (\<lparr>wall_ns = 0, mono_ns = Some 999999999\<rparr>, 20)]))) = 2"
proof -
  let ?s = "no_session\<lparr>se_window := \<lparr>wall_ns = 0, mono_ns = Some (- 1)\<rparr>\<rparr>"
  let ?xs = "[(\<lparr>wall_ns = 0, mono_ns = Some 999999998\<rparr>, 10), (\<lparr>wall_ns = 0, mono_ns = Some 999999999\<rparr>, 20)] :: (gotime \<times> int) list"
  have "int (length (filter (in_second 0) (snd (reply_run sample_udp ?s ?xs)))) \<le> 2 * udp_max_replies sample_udp"
    using udp_replies_bounded [of sample_udp ?s ?xs 0]
    by (simp add: sample_udp_def no_session_def max_i64_def tick_def)
  moreover have "2 \<le> length (filter (in_second 0) (snd (reply_run sample_udp ?s ?xs)))"
    by (simp add: reply_run_def reply_step_def allowReply_def reply_window_def no_session_def sample_udp_def time_sub_def time_diff_def
      clamp_i64_def min_i64_def max_i64_def second_ns_def wrap_i64_def in_second_def tick_def Let_def)
  ultimately show ?thesis by (simp add: sample_udp_def)
qed

text \<open>
  The cleanup of the cache between the lookup and the insertion closes the session and \<open>Forward\<close> puts it back: the datagram and
  every later one of the client are refused.
\<close>

lemma expired_session_stays:
  "let (m1, e1) = Forward sample_cache (Some zero_time) None None zero_time (sample_source 1) first_session;
       (m2, e2) = Forward sample_cache None None None zero_time (sample_source 1) m1
   in e1 = Some ''use of closed network connection'' \<and> e2 = Some ''use of closed network connection''
      \<and> open_sessions m2 = {} \<and> length (us_cache m2) = 1"
  by (simp add: first_session_def Forward_def sample_key sample_cache_def newUDPSessions_def evicting_def session_close_def
      session_forward_def Let_def open_sessions_def)

text \<open>A read error ends the receive loop of a session, which stays cached: datagrams are still forwarded, replies never read.\<close>

lemma deaf_session_stays:
  "let m1 = fst (receive_reply zero_time None 0 first_session);
       (m2, e) = Forward sample_cache None None None zero_time (sample_source 1) m1
   in e = None \<and> se_forwarded (us_heap m2 0) = 2 \<and> \<not> se_closed (us_heap m2 0) \<and> \<not> se_receiving (us_heap m2 0)"
  by (simp add: first_session_def Forward_def sample_key sample_cache_def newUDPSessions_def evicting_def session_close_def
      session_forward_def receive_reply_def Let_def)

end
