(* ===== verification/Udp_Traffic.thy ===== *)
theory Udp_Traffic
  imports Traffic_System Udp_Sessions
begin

text \<open>
  \<open>receiveUDP\<close> of \<open>internal/app/app.go\<close>: one datagram, from the read to the published event, over the stores of
  \<open>Traffic_System\<close> and the sessions of \<open>Udp_Sessions\<close>. Other requests, the writer and the management plane act before each
  of its calls on the shared state, as they do for HTTP requests.
\<close>

section \<open>One datagram\<close>

text \<open>
  A datagram as read, with the text of its source, what sending to the client, dialling and writing to the upstream give, and the
  time at which the sessions see it.
\<close>

record incoming_datagram =
  ud_data :: bytes
  ud_source :: udp_source
  ud_source_text :: string
  ud_send :: "bytes \<Rightarrow> int \<times> string option"
  ud_now :: gotime
  ud_between :: "gotime option"
  ud_dial :: "string option"
  ud_write :: "string option"

definition zero_request :: request where
  "zero_request = \<lparr>rq_method = [], rq_scheme = [], rq_protocol = [], rq_host = [], rq_target = [], rq_path = [], rq_raw_query = [],
     rq_remote_address = [], rq_headers = [], rq_content_type = [], rq_body = [], rq_observed = 0, rq_complete = False,
     rq_header_bytes = 0, rq_preview = [], rq_preview_truncated = False, rq_decoded_preview = None, rq_preview_error = []\<rparr>"

text \<open>The buffer of the receive loop, and what of it a datagram may fill.\<close>

definition read_count :: "incoming_datagram \<Rightarrow> nat" where
  "read_count d = min (length (ud_data d)) 65508"

definition accepted_payload :: "udp_settings \<Rightarrow> incoming_datagram \<Rightarrow> bytes" where
  "accepted_payload udp d = take (nat (min (int (read_count d)) (udp_max_datagram udp))) (ud_data d)"

text \<open>The exchange, before anything is sent. A preview is cut at its limit whether previews are enabled or not.\<close>

definition discard :: "string \<Rightarrow> string \<Rightarrow> exchange \<Rightarrow> exchange" where
  "discard category message e = (set_error category message e)\<lparr>ex_state := StateDiscarded,
     ex_datagram := map_option (\<lambda>g. g\<lparr>dg_discard_reason := category\<rparr>) (ex_datagram e)\<rparr>"

definition datagram_exchange ::
    "config \<Rightarrow> u64 \<Rightarrow> udp_settings \<Rightarrow> string \<Rightarrow> gotime \<Rightarrow> string \<Rightarrow> incoming_datagram \<Rightarrow> bool \<Rightarrow> exchange" where
  "datagram_exchange cfg revision udp i now local d room =
     (let payload = accepted_payload udp d;
          truncated = int (length payload) > pv_bytes (cf_preview cfg);
          shown = (if truncated then take (nat (pv_bytes (cf_preview cfg))) payload else payload);
          e0 = \<lparr>ex_id = i, ex_transport = TransportUDP, ex_mode = udp_mode udp, ex_config_revision = revision,
             ex_configuration = NewConfigSnapshot cfg revision, ex_revision = 1, ex_state = StateCompleted,
             ex_started = now, ex_completed = now, ex_duration = 0, ex_request = zero_request,
             ex_datagram = Some \<lparr>dg_source = ud_source_text d, dg_local = local, dg_accepted = int (length payload), dg_payload = payload,
               dg_complete = (int (read_count d) \<le> udp_max_datagram udp), dg_preview = shown, dg_preview_truncated = truncated,
               dg_discard_reason = [], dg_delivery = \<lparr>de_result = ''not_sent'', de_sent = 0, de_message = [], de_truncated = False\<rparr>\<rparr>,
             ex_response = None, ex_upstream = [], ex_upstream_header_bytes = 0, ex_upstream_body_bytes = 0, ex_timing = None,
             ex_error = None, ex_delivery = \<lparr>dd_status = 0, dd_body_bytes = 0, dd_error = []\<rparr>, ex_persistence = None,
             ex_started_mono = zero_time\<rparr>;
          e1 = (if int (read_count d) > udp_max_datagram udp
                then discard ''udp_datagram_oversized'' ''UDP datagram exceeds configured limit.'' e0 else e0);
          e2 = (if \<not> room then discard ''udp_datagram_overload'' ''UDP persistence capacity is exhausted.'' e1 else e1)
      in e2\<lparr>ex_duration := time_sub (ex_completed e2) (ex_started e2)\<rparr>)"

definition set_delivery :: "(datagram_delivery \<Rightarrow> datagram_delivery) \<Rightarrow> exchange \<Rightarrow> exchange" where
  "set_delivery f e = e\<lparr>ex_datagram := map_option (\<lambda>g. g\<lparr>dg_delivery := f (dg_delivery g)\<rparr>) (ex_datagram e)\<rparr>"

text \<open>The fixed reply of capture mode, cut to the size of the accepted datagram; with what was handed to the socket.\<close>

definition capture_reply :: "udp_settings \<Rightarrow> incoming_datagram \<Rightarrow> exchange \<Rightarrow> exchange \<times> bytes option" where
  "capture_reply udp d e =
     (if ex_state e \<noteq> StateDiscarded \<and> udp_mode udp = ModeCapture \<and> udp_capture_response udp \<noteq> [] then
        let payload = accepted_payload udp d; full = udp_capture_response udp;
            cut = (length full > length payload); reply = (if cut then take (length payload) full else full);
            (sent, send_error) = ud_send d reply;
            f = (\<lambda>g. g\<lparr>de_truncated := cut, de_sent := sent\<rparr>)
        in (set_delivery (\<lambda>g. case send_error of
                Some m \<Rightarrow> (f g)\<lparr>de_result := ''failed'', de_message := m\<rparr>
              | None \<Rightarrow> if cut then (f g)\<lparr>de_result := ''truncated'', de_message := ''Capture reply was limited to accepted datagram bytes.''\<rparr>
                  else (f g)\<lparr>de_result := ''sent''\<rparr>) e, Some reply)
      else (e, None))"

definition forward_datagram :: "'c session_cache \<Rightarrow> udp_settings \<Rightarrow> incoming_datagram \<Rightarrow> exchange \<times> 'c udp_sessions option
    \<Rightarrow> exchange \<times> 'c udp_sessions option" where
  "forward_datagram lc udp d st =
     (case st of
        (e, None) \<Rightarrow> (e, None)
      | (e, Some m) \<Rightarrow>
          if ex_state e \<noteq> StateDiscarded \<and> udp_mode udp = ModeProxy then
            (case Forward lc (ud_between d) (ud_dial d) (ud_write d) (ud_now d) (Some (ud_source d)) m of
               (m1, Some err) \<Rightarrow> (set_delivery (\<lambda>g. g\<lparr>de_result := ''failed'', de_message := err\<rparr>) e, Some m1)
             | (m1, None) \<Rightarrow> (set_delivery (\<lambda>g. g\<lparr>de_result := ''forwarded''\<rparr>) e, Some m1))
          else (e, Some m))"

text \<open>Saving and committing. The exchanges a save evicts are not announced.\<close>

definition store_datagram :: "(envelope \<Rightarrow> nat option) \<Rightarrow> nat option \<Rightarrow> exchange \<Rightarrow> world \<Rightarrow> world \<times> exchange list" where
  "store_datagram marshal reservation e w =
     (case reservation of
        None \<Rightarrow> (fst (repository_Save marshal w e), [e])
      | Some i \<Rightarrow>
          let e1 = e\<lparr>ex_persistence := Some \<lparr>ps_state = ''queued'', ps_error = []\<rparr>\<rparr>
          in (case repository_Commit marshal (fst (repository_Save marshal w e1)) i e1 of
                (w1, None) \<Rightarrow> (w1, [e1])
              | (w1, Some err) \<Rightarrow>
                  let e2 = e1\<lparr>ex_persistence := Some \<lparr>ps_state = ''failed'', ps_error = err\<rparr>\<rparr>
                  in (fst (repository_Save marshal w1 e2), [e1, e2])))"

text \<open>What one round does: the stores, the sessions, the exchanges saved, in order, and the bytes handed to the client's socket.\<close>

record 'c datagram_round =
  dr_world :: world
  dr_sessions :: "'c udp_sessions option"
  dr_saved :: "exchange list"
  dr_reply :: "bytes option"

text \<open>
  One round of \<open>receiveUDP\<close> for a listener whose plane is in force with these settings and sessions. A round for another
  listener, and one whose ID cannot be made, drops the datagram.
\<close>

definition receiveUDP :: "(envelope \<Rightarrow> nat option) \<Rightarrow> 'c session_cache \<Rightarrow> udp_settings \<Rightarrow> bool \<Rightarrow> string \<Rightarrow> incoming_datagram
    \<Rightarrow> world \<times> 'c udp_sessions option \<Rightarrow> 'c datagram_round" where
  "receiveUDP marshal lc udp active local d st =
     (let w0 = fst st; dropped = (\<lambda>w. \<lparr>dr_world = w, dr_sessions = snd st, dr_saved = [], dr_reply = None\<rparr>)
      in if \<not> active then dropped w0
         else
           let cfg = wd_config w0; revision = wd_revision w0;
               w1 = others marshal w0; now = wd_clock w1 (wd_calls w1);
               w2 = others marshal w1
           in case NewID (wd_random w2 (wd_calls w2)) of
                Inl _ \<Rightarrow> dropped w2
              | Inr i \<Rightarrow>
                  let (w3, reservation, room) = repository_Reserve marshal w2 (int (length (accepted_payload udp d)));
                      (e1, reply) = capture_reply udp d (datagram_exchange cfg revision udp i now local d room);
                      (e2, sessions) = forward_datagram lc udp d (e1, snd st);
                      (w4, saved) = store_datagram marshal reservation e2 w3
                  in \<lparr>dr_world = world_publish marshal (others marshal w4)
                         (event RequestCompleted (ex_id e2) (ex_revision e2) (DatagramData (int (length (accepted_payload udp d))))),
                      dr_sessions = sessions, dr_saved = saved, dr_reply = reply\<rparr>)"

section \<open>What a datagram becomes\<close>

text \<open>Whether the writer has room, at the moment the round asks.\<close>

definition writer_room :: "(envelope \<Rightarrow> nat option) \<Rightarrow> udp_settings \<Rightarrow> incoming_datagram \<Rightarrow> world \<Rightarrow> bool" where
  "writer_room marshal udp d w =
     snd (snd (repository_Reserve marshal (others marshal (others marshal w)) (int (length (accepted_payload udp d)))))"

definition oversized :: "udp_settings \<Rightarrow> incoming_datagram \<Rightarrow> bool" where
  "oversized udp d \<longleftrightarrow> int (read_count d) > udp_max_datagram udp"

definition discard_reason :: "udp_settings \<Rightarrow> incoming_datagram \<Rightarrow> bool \<Rightarrow> string option" where
  "discard_reason udp d room =
     (if \<not> room then Some ''udp_datagram_overload'' else if oversized udp d then Some ''udp_datagram_oversized'' else None)"

lemma set_delivery_same: "set_delivery (\<lambda>g. g) e = e"
  by (cases "ex_datagram e") (simp_all add: set_delivery_def)

lemma set_delivery_twice: "set_delivery f (set_delivery g e) = set_delivery (f \<circ> g) e"
  by (cases "ex_datagram e") (simp_all add: set_delivery_def)

lemma set_delivery_sel [simp]:
  "ex_state (set_delivery f e) = ex_state e" "ex_error (set_delivery f e) = ex_error e" "ex_id (set_delivery f e) = ex_id e"
  "ex_revision (set_delivery f e) = ex_revision e" "ex_transport (set_delivery f e) = ex_transport e"
  "ex_datagram (set_delivery f e) = map_option (\<lambda>g. g\<lparr>dg_delivery := f (dg_delivery g)\<rparr>) (ex_datagram e)"
  by (simp_all add: set_delivery_def)

lemma capture_reply_delivery: "\<exists>f. fst (capture_reply udp d e) = set_delivery f e"
  by (auto simp: capture_reply_def Let_def case_prod_beta intro: set_delivery_same [symmetric])

lemma forward_delivery: "\<exists>f. fst (forward_datagram lc udp d (e, m)) = set_delivery f e"
  by (auto simp: forward_datagram_def intro: set_delivery_same [symmetric] split: option.splits prod.splits)

lemma stored_exchange: "x \<in> set (snd (store_datagram marshal reservation e w)) \<Longrightarrow> \<exists>p. x = e\<lparr>ex_persistence := p\<rparr>"
  by (auto simp: store_datagram_def Let_def intro: exI [of _ "ex_persistence e"] split: option.splits prod.splits)

text \<open>The parts of the exchange that nothing after its construction changes.\<close>

lemma datagram_exchange_sel:
  fixes cfg revision udp i now local d room
  defines "e \<equiv> datagram_exchange cfg revision udp i now local d room"
  shows "ex_id e = i" "ex_revision e = 1" "ex_transport e = TransportUDP"
    "ex_state e = (if discard_reason udp d room = None then StateCompleted else StateDiscarded)"
    "map_option ee_category (ex_error e) = discard_reason udp d room"
    "map_option dg_payload (ex_datagram e) = Some (accepted_payload udp d)"
    "map_option dg_complete (ex_datagram e) = Some (\<not> oversized udp d)"
    "map_option dg_accepted (ex_datagram e) = Some (int (length (accepted_payload udp d)))"
    "map_option (\<lambda>g. de_result (dg_delivery g)) (ex_datagram e) = Some ''not_sent''"
  by (simp_all add: e_def datagram_exchange_def discard_def set_error_def discard_reason_def oversized_def Let_def)

text \<open>The ways through a round.\<close>

lemma round_cases:
  obtains (dropped) w where "receiveUDP marshal lc udp active local d (w0, m) = \<lparr>dr_world = w, dr_sessions = m, dr_saved = [], dr_reply = None\<rparr>"
  | (kept) i now w3 reservation room e1 reply e2 m2 w4 saved w5
      where "repository_Reserve marshal (others marshal (others marshal w0)) (int (length (accepted_payload udp d))) = (w3, reservation, room)"
      and "capture_reply udp d (datagram_exchange (wd_config w0) (wd_revision w0) udp i now local d room) = (e1, reply)"
      and "forward_datagram lc udp d (e1, m) = (e2, m2)" and "store_datagram marshal reservation e2 w3 = (w4, saved)"
      and "w5 = world_publish marshal (others marshal w4)
        (event RequestCompleted (ex_id e2) (ex_revision e2) (DatagramData (int (length (accepted_payload udp d)))))"
      and "receiveUDP marshal lc udp active local d (w0, m) = \<lparr>dr_world = w5, dr_sessions = m2, dr_saved = saved, dr_reply = reply\<rparr>"
proof (cases active)
  case False
  then show thesis by (intro dropped [of w0]) (simp add: receiveUDP_def)
next
  case active: True
  let ?w1 = "others marshal w0" and ?w2 = "others marshal (others marshal w0)"
  show thesis
  proof (cases "NewID (wd_random ?w2 (wd_calls ?w2))")
    case (Inl err)
    then show thesis using active by (intro dropped [of ?w2]) (simp add: receiveUDP_def Let_def)
  next
    case (Inr i)
    obtain w3 reservation room where 1: "repository_Reserve marshal ?w2 (int (length (accepted_payload udp d))) = (w3, reservation, room)"
      by (cases "repository_Reserve marshal ?w2 (int (length (accepted_payload udp d)))")
    obtain e1 reply where 2: "capture_reply udp d (datagram_exchange (wd_config w0) (wd_revision w0) udp i (wd_clock ?w1 (wd_calls ?w1)) local d room) = (e1, reply)"
      by fastforce
    obtain e2 m2 where 3: "forward_datagram lc udp d (e1, m) = (e2, m2)" by fastforce
    obtain w4 saved where 4: "store_datagram marshal reservation e2 w3 = (w4, saved)" by fastforce
    show thesis
      by (rule kept [OF 1 2 3 4 refl]) (use active Inr 1 2 3 4 in \<open>simp add: receiveUDP_def Let_def\<close>)
  qed
qed

lemma payload_prefix: "\<exists>rest. ud_data d = accepted_payload udp d @ rest"
  unfolding accepted_payload_def by (metis append_take_drop_id)

lemma payload_bounded: "0 \<le> udp_max_datagram udp \<Longrightarrow> int (length (accepted_payload udp d)) \<le> udp_max_datagram udp"
  by (simp add: accepted_payload_def read_count_def)


lemma capture_reply_bytes:
  assumes "snd (capture_reply udp d e) = Some r"
  shows "r = take (length (accepted_payload udp d)) (udp_capture_response udp)" and "udp_mode udp = ModeCapture"
  using assms by (simp_all add: capture_reply_def Let_def case_prod_beta split: if_splits)

text \<open>
  C19. No amplification and no forwarding of what is discarded: whatever the capture response is, a reply has at most as many bytes as
  the datagram it answers and is a prefix of the configured response; a discarded datagram is neither answered nor forwarded.
\<close>

theorem udp_no_amplification:
  "(\<forall>reply. dr_reply (receiveUDP marshal lc udp active local d (w, m)) = Some reply \<longrightarrow>
       length reply \<le> length (ud_data d) \<and> (\<exists>rest. udp_capture_response udp = reply @ rest) \<and> udp_mode udp = ModeCapture)
   \<and> (discard_reason udp d (writer_room marshal udp d w) \<noteq> None \<longrightarrow>
       dr_reply (receiveUDP marshal lc udp active local d (w, m)) = None \<and> dr_sessions (receiveUDP marshal lc udp active local d (w, m)) = m)"
proof (cases rule: round_cases [of marshal lc udp active local d w m])
  case (kept i now w3 reservation room e1 reply e2 m2 w4 saved w5)
  let ?e = "datagram_exchange (wd_config w) (wd_revision w) udp i now local d room"
  have room: "room = writer_room marshal udp d w" using kept(1) by (simp add: writer_room_def)
  obtain f1 where e1: "e1 = set_delivery f1 ?e" using capture_reply_delivery [of udp d ?e] kept(2) by auto
  have sent: "length r \<le> length (ud_data d) \<and> (\<exists>rest. udp_capture_response udp = r @ rest) \<and> udp_mode udp = ModeCapture"
    if "reply = Some r" for r
  proof (intro conjI)
    have "snd (capture_reply udp d ?e) = Some r" using kept(2) that by simp
    note r = capture_reply_bytes [OF this]
    show "udp_mode udp = ModeCapture" by (rule r(2))
    have "length r \<le> length (accepted_payload udp d)" unfolding r(1) by simp
    also have "\<dots> \<le> length (ud_data d)" by (simp add: accepted_payload_def)
    finally show "length r \<le> length (ud_data d)" .
    have "udp_capture_response udp = r @ drop (length (accepted_payload udp d)) (udp_capture_response udp)" unfolding r(1) by simp
    then show "\<exists>rest. udp_capture_response udp = r @ rest" ..
  qed
  have "reply = None \<and> m2 = m" if "discard_reason udp d (writer_room marshal udp d w) \<noteq> None"
  proof -
    have "ex_state ?e = StateDiscarded" using that room by (simp add: datagram_exchange_sel)
    then show ?thesis using kept(2,3) e1 by (auto simp: capture_reply_def forward_datagram_def split: option.splits)
  qed
  with sent kept(6) show ?thesis by simp
qed simp


section \<open>Examples\<close>

lemma store_saves: "snd (store_datagram marshal reservation e w) \<noteq> []"
  by (simp add: store_datagram_def Let_def split: option.splits prod.splits)

lemma round_saves:
  assumes "active" and "NewID (wd_random (others marshal (others marshal w)) (wd_calls (others marshal (others marshal w)))) = Inr i"
  shows "dr_saved (receiveUDP marshal lc udp active local d (w, m)) \<noteq> []"
  using assms store_saves by (simp add: receiveUDP_def Let_def case_prod_beta)

lemma round_replies:
  assumes "active" and "NewID (wd_random (others marshal (others marshal w)) (wd_calls (others marshal (others marshal w)))) = Inr i"
    and "discard_reason udp d (writer_room marshal udp d w) = None" and "udp_mode udp = ModeCapture" and "udp_capture_response udp \<noteq> []"
  shows "dr_reply (receiveUDP marshal lc udp active local d (w, m)) \<noteq> None"
  using assms
  by (simp add: receiveUDP_def Let_def case_prod_beta capture_reply_def datagram_exchange_sel writer_room_def)

definition one_datagram :: incoming_datagram where
  "one_datagram = \<lparr>ud_data = ''hello'', ud_source = \<lparr>ua_ip = [10, 0, 0, 1], ua_port = 4000\<rparr>, ud_source_text = ''10.0.0.1:4000'',
     ud_send = (\<lambda>b. (int (length b), None)), ud_now = zero_time, ud_between = None, ud_dial = None, ud_write = None\<rparr>"

lemma sample_new_id: "NewID (wd_random (others (\<lambda>_. Some 1) (others (\<lambda>_. Some 1) sample_world))
    (wd_calls (others (\<lambda>_. Some 1) (others (\<lambda>_. Some 1) sample_world)))) = Inr (hex_encode (replicate 16 7))"
  by (simp add: NewID_def others_def sample_world_def)

lemma sample_round_saves: "dr_saved (receiveUDP (\<lambda>_. Some 1) lc udp True local d (sample_world, m)) \<noteq> []"
  by (rule round_saves [OF TrueI sample_new_id])

lemma reserved:
  "wd_writer (others marshal w) = Some q \<Longrightarrow> snd (Reserve q n) = Some i \<Longrightarrow> snd (repository_Reserve marshal w n) = (Some i, True)"
  by (cases "Reserve q n") (simp add: repository_Reserve_def)

lemma sample_reserved:
  assumes "length (accepted_payload udp one_datagram) = 5"
  shows "snd (repository_Reserve (\<lambda>_. Some 1) (others (\<lambda>_. Some 1) (others (\<lambda>_. Some 1) sample_world))
    (int (length (accepted_payload udp one_datagram)))) = (Some 0, True)"
proof (rule reserved)
  show "wd_writer (others (\<lambda>_. Some 1) (others (\<lambda>_. Some 1) (others (\<lambda>_. Some 1) sample_world))) = Some sample_writer"
    by (simp add: others_def sample_world_def)
  show "snd (Reserve sample_writer (int (length (accepted_payload udp one_datagram)))) = Some 0"
    unfolding assms by (simp add: Reserve_def sample_writer_def Open_writer_def applyDefaults_def sample_options_def wrap_i64_def Let_def)
qed



theorem udp_no_amplification_witness:
  "\<exists>reply. dr_reply (receiveUDP (\<lambda>_. Some 1) sample_cache (sample_udp\<lparr>udp_mode := ModeCapture, udp_capture_response := ''long answer''\<rparr>) True
      ''127.0.0.1:9000'' one_datagram (sample_world, None)) = Some reply \<and> length reply \<le> 5"
proof -
  let ?udp = "sample_udp\<lparr>udp_mode := ModeCapture, udp_capture_response := ''long answer''\<rparr>"
  let ?r = "receiveUDP (\<lambda>_. Some 1) sample_cache ?udp True ''127.0.0.1:9000'' one_datagram (sample_world, None)"
  have "length (accepted_payload ?udp one_datagram) = 5"
    by (simp add: accepted_payload_def read_count_def one_datagram_def sample_udp_def)
  then have room: "writer_room (\<lambda>_. Some 1) ?udp one_datagram sample_world"
    unfolding writer_room_def using sample_reserved [of ?udp] by simp
  have "discard_reason ?udp one_datagram True = None"
    by (simp add: discard_reason_def oversized_def read_count_def one_datagram_def sample_udp_def)
  then have "dr_reply ?r \<noteq> None"
    using room by (intro round_replies [OF TrueI sample_new_id]) simp_all
  then show ?thesis
    using udp_no_amplification [of "\<lambda>_. Some 1" sample_cache ?udp True "''127.0.0.1:9000''" one_datagram sample_world None]
    by (auto simp: one_datagram_def)
qed

end
