(* ===== verification/Event_Stream.thy ===== *)
theory Event_Stream
  imports Event_Bus History_Page
begin

text \<open>
  The event stream of the management API, \<open>internal/httpapi/sse.go\<close>: how a client is attached to the bus, and the loop that
  writes to it. A record stands for the text that \<open>writeSSE\<close> writes; a value that cannot be encoded, for which it writes
  nothing, does not occur.
\<close>

section \<open>Opening a stream\<close>

datatype stream_record =
    SnapshotRecord string "exchange_summary list"
  | ResyncRecord string "exchange_summary list"
  | EventRecord envelope
  | HeartbeatRecord

text \<open>A subscription on the bus with its history.\<close>

definition subscribed :: "string \<Rightarrow> bus_sys \<Rightarrow> bus \<Rightarrow> subscription \<Rightarrow> bus_sys" where
  "subscribed after s b sc = s\<lparr>sys_bus := b, sys_ghost := (sys_ghost s)(sc_target sc :=
     \<lparr>sg_after = after, sg_replay = sc_replay sc, sg_reset = sc_reset sc, sg_start = length (sys_history s)\<rparr>)\<rparr>"

text \<open>
  \<open>openSubscription\<close>, with the state it leaves, the subscription and the records it writes: a snapshot for a new client, the
  missed events for one that comes back, or a snapshot again when they are no longer held. In that case the first
  subscription is closed and others may use the bus before the second. \<open>items\<close> are the exchanges that the repository lists
  while the bus is locked.
\<close>

inductive openSubscription :: "(envelope \<Rightarrow> nat option) \<Rightarrow> string \<Rightarrow> bus_sys \<Rightarrow> bus_sys \<Rightarrow> nat \<Rightarrow> stream_record list \<Rightarrow> bool" for marshal where
  snapshot: "SubscribeWithSnapshot (sys_bus s) (summarize items) = (b, sc, shown, cursor) \<Longrightarrow>
    openSubscription marshal [] s (subscribed cursor s b sc) (sc_target sc) [SnapshotRecord cursor shown]"
| replay: "lastID \<noteq> [] \<Longrightarrow> Subscribe (sys_bus s) lastID = (b, sc) \<Longrightarrow> \<not> sc_reset sc \<Longrightarrow>
    openSubscription marshal lastID s (subscribed lastID s b sc) (sc_target sc) (map EventRecord (sc_replay sc))"
| resync: "lastID \<noteq> [] \<Longrightarrow> Subscribe (sys_bus s) lastID = (b, sc) \<Longrightarrow> sc_reset sc \<Longrightarrow>
    s1 = (subscribed lastID s b sc)\<lparr>sys_bus := disconnect (sc_target sc) b\<rparr> \<Longrightarrow> (bus_step marshal)\<^sup>*\<^sup>* s1 t \<Longrightarrow>
    SubscribeWithSnapshot (sys_bus t) (summarize items) = (b2, sc2, shown, cursor) \<Longrightarrow>
    openSubscription marshal lastID s (subscribed cursor t b2 sc2) (sc_target sc2) [ResyncRecord cursor shown]"

section \<open>The loop\<close>

text \<open>What one round of the loop of \<open>eventStream\<close> finds: an event is \<open>None\<close> when the channel is closed, a heartbeat comes
  with whether the session is still valid and whether the write succeeds.\<close>

datatype stream_turn =
    ShutdownTurn
  | GoneTurn
  | EventTurn "envelope option"
  | HeartbeatTurn bool bool

text \<open>The records written, and whether the stream goes on.\<close>

fun eventStream :: "stream_turn list \<Rightarrow> stream_record list \<times> bool" where
  "eventStream [] = ([], True)"
| "eventStream (ShutdownTurn # ts) = ([], False)"
| "eventStream (GoneTurn # ts) = ([], False)"
| "eventStream (EventTurn None # ts) = ([], False)"
| "eventStream (EventTurn (Some e) # ts) = (let (w, alive) = eventStream ts in (EventRecord e # w, alive))"
| "eventStream (HeartbeatTurn session_valid ok # ts) =
     (if \<not> session_valid then ([], False)
      else if \<not> ok then ([], False)
      else let (w, alive) = eventStream ts in (HeartbeatRecord # w, alive))"

fun taken :: "stream_turn \<Rightarrow> envelope list" where
  "taken (EventTurn (Some e)) = [e]"
| "taken t = []"

fun event_of :: "stream_record \<Rightarrow> envelope list" where
  "event_of (EventRecord e) = [e]"
| "event_of r = []"

text \<open>A stream that goes on has written every event it took, in order.\<close>

lemma eventStream_events:
  "snd (eventStream ts) \<Longrightarrow> concat (map event_of (fst (eventStream ts))) = concat (map taken ts)"
  by (induction ts rule: eventStream.induct) (auto simp: case_prod_beta split: if_splits)

text \<open>The stream ends with the first heartbeat that finds the session invalid.\<close>

lemma eventStream_ends: "HeartbeatTurn False ok \<in> set ts \<Longrightarrow> \<not> snd (eventStream ts)"
  by (induction ts rule: eventStream.induct) (auto simp: case_prod_beta)

section \<open>What a client receives\<close>

lemma subscribed_step: "Subscribe (sys_bus s) after = (b, sc) \<Longrightarrow> bus_step marshal s (subscribed after s b sc)"
  unfolding subscribed_def by (rule sys_subscribe)

lemma snapshot_subscribes:
  "SubscribeWithSnapshot b v = (b1, sc, shown, cursor) \<Longrightarrow> Subscribe b cursor = (b1, sc)"
  by (auto simp: SubscribeWithSnapshot_def Let_def split: prod.splits)

lemma bus_steps_reachable: "(bus_step marshal)\<^sup>*\<^sup>* s t \<Longrightarrow> bus_reachable marshal l s \<Longrightarrow> bus_reachable marshal l t"
  by (induction rule: rtranclp_induct) (auto intro: bus_next)

lemma Publish_fresh: "Publish marshal b now e = (b', env) \<Longrightarrow> bus_fresh b' = bus_fresh b"
proof -
  have o: "bus_fresh (foldl (offer q) c xs) = bus_fresh c" for q c xs
    by (induction xs arbitrary: c) (auto simp: offer_def Let_def disconnect_def)
  show "Publish marshal b now e = (b', env) \<Longrightarrow> bus_fresh b' = bus_fresh b"
    by (auto simp: Publish_def Let_def o trimReplay_def split: prod.splits)
qed

text \<open>What a subscription was asked and answered stays, and the history only grows.\<close>

lemma bus_step_keeps:
  "bus_step marshal s t \<Longrightarrow> i < bus_fresh (sys_bus s) \<Longrightarrow>
     sys_ghost t i = sys_ghost s i \<and> i < bus_fresh (sys_bus t) \<and> length (sys_history s) \<le> length (sys_history t)"
  by (induction rule: bus_step.induct)
    (auto simp: Publish_fresh Subscribe_def Let_def disconnect_def forward_step_frame split: prod.splits)

lemma bus_steps_keep:
  "(bus_step marshal)\<^sup>*\<^sup>* s t \<Longrightarrow> i < bus_fresh (sys_bus s) \<Longrightarrow>
     sys_ghost t i = sys_ghost s i \<and> i < bus_fresh (sys_bus t) \<and> length (sys_history s) \<le> length (sys_history t)"
  by (induction rule: rtranclp_induct) (auto dest: bus_step_keeps)

lemma subscribed_fresh:
  "Subscribe (sys_bus s) after = (b, sc) \<Longrightarrow> sc_target sc < bus_fresh b"
  by (auto simp: Subscribe_def Let_def split: prod.splits)

lemma subscribed_reachable:
  "Subscribe (sys_bus s) after = (b, sc) \<Longrightarrow> bus_reachable marshal l s \<Longrightarrow> bus_reachable marshal l (subscribed after s b sc)"
  by (rule bus_next [OF _ subscribed_step])

lemma snapshot_reachable:
  "SubscribeWithSnapshot (sys_bus s) v = (b, sc, shown, cursor) \<Longrightarrow> bus_reachable marshal l s \<Longrightarrow>
     bus_reachable marshal l (subscribed cursor s b sc)"
  by (rule subscribed_reachable [OF snapshot_subscribes])

text \<open>The bus between the two subscriptions of a client that is told to resynchronise.\<close>

lemma resync_reachable:
  assumes "Subscribe (sys_bus s) lastID = (b, sc)" and "bus_reachable marshal l s"
    and "(bus_step marshal)\<^sup>*\<^sup>* ((subscribed lastID s b sc)\<lparr>sys_bus := disconnect (sc_target sc) b\<rparr>) t"
  shows "bus_reachable marshal l t"
proof -
  have "bus_reachable marshal l (subscribed lastID s b sc)" by (rule subscribed_reachable [OF assms(1,2)])
  moreover have "bus_step marshal (subscribed lastID s b sc) ((subscribed lastID s b sc)\<lparr>sys_bus := disconnect (sc_target sc) b\<rparr>)"
    using sys_close [of marshal "subscribed lastID s b sc" "sc_target sc"] by (simp add: subscribed_def)
  ultimately show ?thesis using bus_steps_reachable [OF assms(3)] bus_next by blast
qed

text \<open>A snapshot subscription, whatever the bus does afterwards.\<close>

lemma snapshot_then_flow:
  assumes "bus_reachable marshal l s" and "SubscribeWithSnapshot (sys_bus s) v = (b, sc, shown, cursor)"
    and "(bus_step marshal)\<^sup>*\<^sup>* (subscribed cursor s b sc) t" and "sc_target sc \<in> set (bus_subscribers (sys_bus t))"
    and "length (sys_history t) < 2 ^ 64"
  shows "\<exists>n \<le> length (sys_history t). (cursor \<noteq> [] \<longrightarrow> cursor = event_id n)
    \<and> flow (bus_heap (sys_bus t) (sc_target sc)) = map qe_envelope (drop n (sys_history t))"
proof -
  let ?u = "subscribed cursor s b sc"
  have sub: "Subscribe (sys_bus s) cursor = (b, sc)" by (rule snapshot_subscribes [OF assms(2)])
  have keep: "sys_ghost t (sc_target sc) = sys_ghost ?u (sc_target sc)" "length (sys_history ?u) \<le> length (sys_history t)"
    using bus_steps_keep [OF assms(3), of "sc_target sc"] subscribed_fresh [OF sub] by (simp_all add: subscribed_def)
  have "bus_reachable marshal l t"
    using bus_steps_reachable [OF assms(3)] bus_next [OF assms(1) subscribed_step [OF sub]] by blast
  then have "connected_inv (bus_limits (sys_bus t)) (sys_history t) (sys_ghost t (sc_target sc)) (bus_heap (sys_bus t) (sc_target sc))"
    using reachable_sys_inv assms(4) by (auto simp: sys_inv_def)
  then have f: "flow (bus_heap (sys_bus t) (sc_target sc)) = map qe_envelope (drop (length (sys_history s)) (sys_history t))"
    using keep(1) by (simp add: connected_inv_def subscribed_def)
  have "cursor \<noteq> [] \<longrightarrow> cursor = event_id (length (sys_history s))"
    using snapshot_subscription_gap_free [OF assms(1), of v] assms(2,5) keep(2) by (simp add: subscribed_def)
  with f keep(2) show ?thesis by (auto simp: subscribed_def intro!: exI [of _ "length (sys_history s)"])
qed

section \<open>Property\<close>

text \<open>
  C8. What a client of the event stream gets is complete. A client that is still connected was first sent either a
  snapshot, and then receives every event published after the cursor of that snapshot; or, when it came back with the
  ID of the last event it had seen, the missed events, which together with the ones that follow are all events after that
  ID. No event is left out or sent twice, also when other clients, publications and disconnections come in between, and
  when the client was told to resynchronise because the missed events are no longer held.
\<close>

theorem event_stream_complete:
  assumes "bus_reachable marshal l s" and "openSubscription marshal lastID s s1 i w"
    and "(bus_step marshal)\<^sup>*\<^sup>* s1 t" and "i \<in> set (bus_subscribers (sys_bus t))" and "length (sys_history t) < 2 ^ 64"
  shows "\<exists>n \<le> length (sys_history t).
    (\<exists>cursor items. w \<in> {[SnapshotRecord cursor items], [ResyncRecord cursor items]} \<and> (cursor \<noteq> [] \<longrightarrow> cursor = event_id n)
       \<and> flow (bus_heap (sys_bus t) i) = map qe_envelope (drop n (sys_history t)))
    \<or> lastID = event_id n
       \<and> concat (map event_of w) @ flow (bus_heap (sys_bus t) i) = map qe_envelope (drop n (sys_history t))"
  using assms(2)
proof cases
  case (snapshot items b sc shown cursor)
  obtain n where "n \<le> length (sys_history t)" "cursor \<noteq> [] \<longrightarrow> cursor = event_id n"
    "flow (bus_heap (sys_bus t) i) = map qe_envelope (drop n (sys_history t))"
    using snapshot_then_flow [OF assms(1) snapshot(5)] assms(3-5) unfolding snapshot(2,3) by blast
  then show ?thesis unfolding snapshot(4) by blast
next
  case (resync b sc u v items b2 sc2 shown cursor)
  have "bus_reachable marshal l v" using resync_reachable [OF resync(5) assms(1)] resync by blast
  then obtain n where "n \<le> length (sys_history t)" "cursor \<noteq> [] \<longrightarrow> cursor = event_id n"
    "flow (bus_heap (sys_bus t) i) = map qe_envelope (drop n (sys_history t))"
    using snapshot_then_flow [OF _ resync(9)] assms(3-5) unfolding resync(1,2) by blast
  then show ?thesis unfolding resync(3) by blast
next
  case (replay b sc)
  have "sys_ghost t i = sys_ghost s1 i"
    using bus_steps_keep [OF assms(3), of i] subscribed_fresh [OF replay(5)] replay(1,2) by (simp add: subscribed_def)
  then have g: "sys_ghost t i = \<lparr>sg_after = lastID, sg_replay = sc_replay sc, sg_reset = sc_reset sc,
      sg_start = length (sys_history s)\<rparr>"
    using replay(1,2) by (simp add: subscribed_def)
  have "bus_reachable marshal l t"
    using bus_steps_reachable [OF assms(3)] subscribed_reachable [OF replay(5) assms(1)] replay(1) by blast
  then have "connected_inv (bus_limits (sys_bus t)) (sys_history t) (sys_ghost t i) (bus_heap (sys_bus t) i)"
    using reachable_sys_inv assms(4) by (auto simp: sys_inv_def)
  moreover have "concat (map event_of w) = sc_replay sc" using replay(3) by (simp add: o_def)
  ultimately show ?thesis using connected_flow [of _ _ "sys_ghost t i"] replay(4,6) g by fastforce
qed

text \<open>A client that has seen the first of two events comes back; then a third is published.\<close>

definition sample_before :: bus_sys where
  "sample_before = sys_do_publish (sys_do_publish (sys_init sample_limits))"

lemma sample_opened:
  "openSubscription sample_marshal ''1'' sample_before (sys_do_subscribe ''1'' sample_before) 0
     [EventRecord (qe_envelope (sys_history sample_before ! 1))]"
proof -
  let ?r = "Subscribe (sys_bus sample_before) ''1''"
  have r: "?r = (fst ?r, snd ?r)" "\<not> sc_reset (snd ?r)" "sc_target (snd ?r) = 0"
    "sc_replay (snd ?r) = [qe_envelope (sys_history sample_before ! 1)]"
    by (simp_all add: sample_before_def bus_eval)
  have "sys_do_subscribe ''1'' sample_before = subscribed ''1'' sample_before (fst ?r) (snd ?r)"
    by (simp add: sys_do_subscribe_def subscribed_def case_prod_beta)
  then show ?thesis using replay [OF _ r(1,2), of sample_marshal] r(3,4) by simp
qed

lemma sample_published: "bus_step sample_marshal s (sys_do_publish s)"
  by (cases "Publish sample_marshal (sys_bus s) (wall_time 1) sample_envelope")
    (auto simp: sys_do_publish_def intro: bus_step.intros)

theorem event_stream_complete_witness:
  "\<exists>n \<le> 3. ''1'' = event_id n
     \<and> qe_envelope (sys_history sample_before ! 1) # flow (bus_heap (sys_bus sample_sys) 0)
         = map qe_envelope (drop n (sys_history sample_sys))"
proof -
  have e: "sys_do_publish (sys_do_subscribe ''1'' sample_before) = sample_sys"
    by (simp add: sample_sys_def sample_before_def)
  have l: "length (sys_history sample_sys) < 2 ^ 64" "0 \<in> set (bus_subscribers (sys_bus sample_sys))"
    by (simp_all add: sample_sys_subscribed)
  have r: "bus_reachable sample_marshal sample_limits sample_before"
    unfolding sample_before_def by (intro reachable_publish bus_start)
  show ?thesis
    using event_stream_complete [OF r sample_opened r_into_rtranclp [of "bus_step sample_marshal", OF sample_published], unfolded e, OF l(2,1)]
    by (simp add: sample_sys_subscribed)
qed

end
