(* ===== verification/Cross_Origin.thy ===== *)
theory Cross_Origin
  imports Capture_Body
begin

text \<open>
  \<open>internal/cors/cors.go\<close>: the handler in front of the traffic pipeline. \<open>next\<close> is the handler behind it, as what it makes of
  the response writer and what else it does; \<open>None\<close> when it is not called. The switch is \<open>tp_cors\<close> of the traffic plane.
\<close>

definition allowedMethods :: string where
  "allowedMethods = ''GET, HEAD, POST, PUT, PATCH, DELETE, OPTIONS''"

definition set_header :: "string \<Rightarrow> string \<Rightarrow> response_writer \<Rightarrow> response_writer" where
  "set_header name value w = w\<lparr>rw_header := hdr_set (rw_header w) name value\<rparr>"

definition cors_Handler ::
  "bool \<Rightarrow> (response_writer \<Rightarrow> response_writer \<times> 'a) \<Rightarrow> string \<Rightarrow> header \<Rightarrow> response_writer \<Rightarrow> response_writer \<times> 'a option" where
  "cors_Handler enabled next_handler method headers w =
     (if \<not> enabled \<or> hdr_get headers ''Origin'' = [] then (let (w1, a) = next_handler w in (w1, Some a))
      else
        let w1 = set_header ''Access-Control-Allow-Origin'' (hdr_get headers ''Origin'') w
        in if method = ''OPTIONS'' then
             let w2 = set_header ''Vary'' ''Origin, Access-Control-Request-Method, Access-Control-Request-Headers'' w1;
                 w3 = set_header ''Access-Control-Allow-Methods'' allowedMethods w2;
                 requested = hdr_get headers ''Access-Control-Request-Headers'';
                 w4 = set_header ''Access-Control-Allow-Headers'' (if requested = [] then ''*'' else requested) w3;
                 w5 = set_header ''Access-Control-Max-Age'' ''3600'' w4
             in (WriteHeader w5 204, None)
           else
             let w2 = set_header ''Vary'' ''Origin'' w1; (w3, a) = next_handler w2
             in (w3, Some a))"

lemma set_header_sel [simp]:
  "rw_sent (set_header n v w) = rw_sent w" "rw_output (set_header n v w) = rw_output w"
  "rw_capacity (set_header n v w) = rw_capacity w" "rw_informational (set_header n v w) = rw_informational w"
  "rw_header (set_header n v w) = hdr_set (rw_header w) n v"
  by (simp_all add: set_header_def)

lemma cors_names:
  "canonical_key ''Access-Control-Allow-Origin'' = ''Access-Control-Allow-Origin''" "canonical_key ''Vary'' = ''Vary''"
  "canonical_key ''Access-Control-Allow-Methods'' = ''Access-Control-Allow-Methods''"
  "canonical_key ''Access-Control-Allow-Headers'' = ''Access-Control-Allow-Headers''"
  "canonical_key ''Access-Control-Max-Age'' = ''Access-Control-Max-Age''"
  by code_simp+

text \<open>Switched off, or for a request that is not from a page, the handler behind it alone decides.\<close>

lemma cors_disabled:
  "\<not> enabled \<or> hdr_get headers ''Origin'' = [] \<Longrightarrow>
     cors_Handler enabled next_handler method headers w = map_prod id Some (next_handler w)"
  by (simp add: cors_Handler_def case_prod_beta map_prod_def)

text \<open>A preflight is answered without a body, never reaches the pipeline, and so is not recorded.\<close>

lemma cors_preflight:
  assumes "enabled" and "hdr_get headers ''Origin'' = origin" and "origin \<noteq> []"
    and "cors_Handler enabled next_handler ''OPTIONS'' headers (fresh_writer room) = (w, a)"
  shows "a = None \<and> rw_output w = [] \<and> (\<exists>h. rw_sent w = Some (204, h)
    \<and> hdr_values h ''Access-Control-Allow-Origin'' = [origin] \<and> hdr_values h ''Access-Control-Allow-Methods'' = [allowedMethods])"
  using assms
  by (auto simp: cors_Handler_def Let_def WriteHeader_def fresh_writer_def hdr_values_set cors_names)

text \<open>Every value of a response's header is added to the ones the writer has.\<close>

lemma hdr_values_key: "canonical_key n = canonical_key k \<Longrightarrow> hdr_values h n = hdr_values h k"
  by (simp add: hdr_values_def)

lemma foldl_add_header:
  "hdr_values (rw_header (foldl (\<lambda>w value. add_header w name value) w values)) k =
     hdr_values (rw_header w) k @ (if canonical_key name = canonical_key k then values else [])"
  by (induction "values" arbitrary: w)
    (simp_all add: add_header_def hdr_values_add hdr_values_key [of name k])

definition values_named :: "string \<Rightarrow> header \<Rightarrow> string list" where
  "values_named k h = concat (map snd (filter (\<lambda>(n, _). canonical_key n = canonical_key k) h))"

lemma add_headers_values:
  "hdr_values (rw_header (add_headers w h)) k = hdr_values (rw_header w) k @ values_named k h"
  by (induction w h rule: add_headers.induct) (simp_all add: foldl_add_header values_named_def)

text \<open>
  An allowed origin that the response itself names is sent next to the one of the request: two values, which a browser
  refuses.
\<close>

lemma allowed_origin_twice:
  assumes "enabled" and "hdr_get headers ''Origin'' = origin" and "origin \<noteq> []" and "method \<noteq> ''OPTIONS''"
    and "values_named ''Access-Control-Allow-Origin'' (dr_headers response) = [v]"
    and "200 \<le> dr_status response" and "dr_status response \<le> 599"
    and "cors_Handler enabled (\<lambda>w. writeDownstream w response) method headers (fresh_writer room) = (w, a)"
  shows "\<exists>h. rw_sent w = Some (dr_status response, h) \<and> hdr_values h ''Access-Control-Allow-Origin'' = [origin, v]"
proof -
  let ?w = "set_header ''Vary'' ''Origin'' (set_header ''Access-Control-Allow-Origin'' origin (fresh_writer room))"
  let ?h = "rw_header (add_headers ?w (dr_headers response))"
  have "hdr_values ?h ''Access-Control-Allow-Origin'' = [origin, v]"
    using assms(5) by (simp add: add_headers_values hdr_values_set cors_names)
  moreover have "rw_sent (fst (writeDownstream ?w response)) = Some (dr_status response, ?h)"
  proof -
    have "rw_sent (WriteHeader (add_headers ?w (dr_headers response)) (normalizedStatus (dr_status response))) = Some (dr_status response, ?h)"
      using assms(6,7) by (simp add: WriteHeader_def normalizedStatus_def fresh_writer_def)
    then show ?thesis by (auto simp: writeDownstream_def Write_def Let_def split: option.splits)
  qed
  moreover have "w = fst (writeDownstream ?w response)"
    using assms(1-4,8) by (simp add: cors_Handler_def Let_def case_prod_beta)
  ultimately show ?thesis by simp
qed

end
